(* ===== verification/Ockam_Prelude.thy ===== *)
theory Ockam_Prelude
  imports
    Main
    "HOL-Library.Word"
    "HOL-Library.Sublist"
    "HOL-Library.Char_ord"
    "HOL-Library.List_Lexorder"
    "HOL-Library.Option_ord"
begin

text \<open>
  The vocabulary shared by all components: machine integers, byte strings, results and
  panics, the part of Rust's string library the sources call (\<open>split\<close>, \<open>trim\<close>,
  \<open>join\<close>, \<open>from_utf8\<close>, decimal printing and parsing of unsigned integers), and the generic
  lemmas about them.

  A byte is HOL's 8-bit \<^typ>\<open>char\<close>; a Rust \<open>String\<close> and a \<open>Vec<u8>\<close> are both a list of
  bytes, a \<open>String\<close> being its UTF-8 encoding.  \<open>Result<T, E>\<close> is \<^typ>\<open>'e + 'a\<close> with the error on
  the left, and a call that can panic returns \<^typ>\<open>'p + 'a\<close> with \<open>'p\<close> the panic.
\<close>

named_theorems str_simps \<open>facts about the string library\<close>
named_theorems bt_simps \<open>lookup facts about ordered maps and sets\<close>
named_theorems wf_intros \<open>preservation of the components' well-formedness invariants\<close>

subsection \<open>Types\<close>

type_synonym bytes = "char list"
type_synonym u8 = "8 word"
type_synonym u16 = "16 word"
type_synonym u32 = "32 word"
type_synonym u64 = "64 word"

datatype panic = Panic string

type_synonym 'a exec = "panic + 'a"

abbreviation Ok :: "'a \<Rightarrow> 'e + 'a" where
  "Ok \<equiv> Inr"

abbreviation Err :: "'e \<Rightarrow> 'e + 'a" where
  "Err \<equiv> Inl"

subsection \<open>Results\<close>

text \<open>The \<open>?\<close> operator: the first error ends the computation.\<close>

definition result_bind :: "'e + 'a \<Rightarrow> ('a \<Rightarrow> 'e + 'b) \<Rightarrow> 'e + 'b" where
  "result_bind r f = (case r of Inl e \<Rightarrow> Inl e | Inr a \<Rightarrow> f a)"

definition result_map :: "('a \<Rightarrow> 'b) \<Rightarrow> 'e + 'a \<Rightarrow> 'e + 'b" where
  "result_map f r = (case r of Inl e \<Rightarrow> Inl e | Inr a \<Rightarrow> Inr (f a))"

definition map_err :: "('e \<Rightarrow> 'f) \<Rightarrow> 'e + 'a \<Rightarrow> 'f + 'a" where
  "map_err f r = (case r of Inl e \<Rightarrow> Inl (f e) | Inr a \<Rightarrow> Inr a)"

definition ok_or :: "'a option \<Rightarrow> 'e \<Rightarrow> 'e + 'a" where
  "ok_or x e = (case x of None \<Rightarrow> Inl e | Some a \<Rightarrow> Inr a)"

definition is_ok :: "'e + 'a \<Rightarrow> bool" where
  "is_ok r = (case r of Inl _ \<Rightarrow> False | Inr _ \<Rightarrow> True)"

text \<open>A loop whose body may fail: the first error ends it.\<close>

fun result_fold :: "('s \<Rightarrow> 'a \<Rightarrow> 'e + 's) \<Rightarrow> 's \<Rightarrow> 'a list \<Rightarrow> 'e + 's" where
  "result_fold f s [] = Inr s"
| "result_fold f s (x # xs) = (case f s x of Inl e \<Rightarrow> Inl e | Inr s' \<Rightarrow> result_fold f s' xs)"

subsection \<open>Strings\<close>

text \<open>\<open>str::split\<close> with a non-empty pattern: always at least one piece.\<close>

function split_go :: "string \<Rightarrow> string \<Rightarrow> string \<Rightarrow> string list" where
  "split_go pat acc [] = [rev acc]"
| "split_go pat acc (c # cs) =
     (if prefix pat (c # cs) then rev acc # split_go pat [] (drop (length pat - 1) cs)
      else split_go pat (c # acc) cs)"
  by pat_completeness auto
termination by (relation "measure (\<lambda>(_, _, s). length s)") auto

definition split_on :: "string \<Rightarrow> string \<Rightarrow> string list" where
  "split_on pat s = split_go pat [] s"

text \<open>\<open>[String]::join\<close>.\<close>

fun join_with :: "string \<Rightarrow> string list \<Rightarrow> string" where
  "join_with sep [] = []"
| "join_with sep [x] = x"
| "join_with sep (x # y # ys) = x @ sep @ join_with sep (y # ys)"

text \<open>The UTF-8 encodings of the characters \<open>char::is_whitespace\<close> accepts.\<close>

definition whitespace_seqs :: "string list" where
  "whitespace_seqs =
     [[CHR 0x09], [CHR 0x0A], [CHR 0x0B], [CHR 0x0C], [CHR 0x0D], [CHR 0x20],
      [CHR 0xC2, CHR 0x85], [CHR 0xC2, CHR 0xA0], [CHR 0xE1, CHR 0x9A, CHR 0x80],
      [CHR 0xE2, CHR 0x80, CHR 0x80], [CHR 0xE2, CHR 0x80, CHR 0x81],
      [CHR 0xE2, CHR 0x80, CHR 0x82], [CHR 0xE2, CHR 0x80, CHR 0x83],
      [CHR 0xE2, CHR 0x80, CHR 0x84], [CHR 0xE2, CHR 0x80, CHR 0x85],
      [CHR 0xE2, CHR 0x80, CHR 0x86], [CHR 0xE2, CHR 0x80, CHR 0x87],
      [CHR 0xE2, CHR 0x80, CHR 0x88], [CHR 0xE2, CHR 0x80, CHR 0x89],
      [CHR 0xE2, CHR 0x80, CHR 0x8A], [CHR 0xE2, CHR 0x80, CHR 0xA8],
      [CHR 0xE2, CHR 0x80, CHR 0xA9], [CHR 0xE2, CHR 0x80, CHR 0xAF],
      [CHR 0xE2, CHR 0x81, CHR 0x9F], [CHR 0xE3, CHR 0x80, CHR 0x80]]"

function trim_start :: "string \<Rightarrow> string" where
  "trim_start s = (case find (\<lambda>w. prefix w s) whitespace_seqs of
     None \<Rightarrow> s | Some w \<Rightarrow> if w = [] then s else trim_start (drop (length w) s))"
  by auto
termination
  by (relation "measure length")
     (auto simp: find_Some_iff prefix_def)

function trim_end :: "string \<Rightarrow> string" where
  "trim_end s = (case find (\<lambda>w. suffix w s) whitespace_seqs of
     None \<Rightarrow> s | Some w \<Rightarrow> if w = [] then s else trim_end (take (length s - length w) s))"
  by auto
termination
  by (relation "measure length")
     (auto simp: find_Some_iff suffix_def)

declare trim_start.simps [simp del] trim_end.simps [simp del]

definition trim :: "string \<Rightarrow> string" where
  "trim s = trim_end (trim_start s)"

text \<open>\<open>core::str::from_utf8\<close>: well-formed UTF-8 (RFC 3629), by the first byte of each
  character.\<close>

definition cont_byte :: "char \<Rightarrow> bool" where
  "cont_byte c = (128 \<le> (of_char c :: nat) \<and> (of_char c :: nat) \<le> 191)"

definition in_range :: "nat \<Rightarrow> nat \<Rightarrow> char \<Rightarrow> bool" where
  "in_range lo hi c = (lo \<le> (of_char c :: nat) \<and> (of_char c :: nat) \<le> hi)"

definition utf8_second3 :: "char \<Rightarrow> char \<Rightarrow> bool" where
  "utf8_second3 b0 b1 =
     (if in_range 224 224 b0 then in_range 160 191 b1
      else if in_range 237 237 b0 then in_range 128 159 b1
      else in_range 225 239 b0 \<and> cont_byte b1)"

definition utf8_second4 :: "char \<Rightarrow> char \<Rightarrow> bool" where
  "utf8_second4 b0 b1 =
     (if in_range 240 240 b0 then in_range 144 191 b1
      else if in_range 244 244 b0 then in_range 128 143 b1
      else in_range 241 243 b0 \<and> cont_byte b1)"

fun utf8_valid :: "bytes \<Rightarrow> bool" where
  "utf8_valid [] = True"
| "utf8_valid (b0 # rest) =
     (if in_range 0 127 b0 then utf8_valid rest
      else case rest of [] \<Rightarrow> False
      | b1 # rest1 \<Rightarrow>
        if in_range 194 223 b0 then cont_byte b1 \<and> utf8_valid rest1
        else case rest1 of [] \<Rightarrow> False
        | b2 # rest2 \<Rightarrow>
          if in_range 224 239 b0 then utf8_second3 b0 b1 \<and> cont_byte b2 \<and> utf8_valid rest2
          else case rest2 of [] \<Rightarrow> False
          | b3 # rest3 \<Rightarrow>
            in_range 240 244 b0 \<and> utf8_second4 b0 b1 \<and> cont_byte b2 \<and> cont_byte b3
              \<and> utf8_valid rest3)"

definition from_utf8 :: "bytes \<Rightarrow> string option" where
  "from_utf8 bs = (if utf8_valid bs then Some bs else None)"

text \<open>Decimal printing, and \<open>str::parse::<uN>\<close> with its error kinds: an optional \<open>+\<close>, then
  digits, each step checked for overflow.\<close>

definition digit_char :: "nat \<Rightarrow> char" where
  "digit_char d = char_of (48 + d)"

fun show_nat :: "nat \<Rightarrow> string" where
  "show_nat n = (if n < 10 then [digit_char n] else show_nat (n div 10) @ [digit_char (n mod 10)])"

declare show_nat.simps [simp del]

datatype parse_int_error = PIE_Empty | PIE_InvalidDigit | PIE_PosOverflow | PIE_NegOverflow

definition to_digit :: "char \<Rightarrow> nat option" where
  "to_digit c = (if in_range 48 57 c then Some (of_char c - 48) else None)"

fun parse_digits :: "nat \<Rightarrow> nat \<Rightarrow> string \<Rightarrow> parse_int_error + nat" where
  "parse_digits bound acc [] = Inr acc"
| "parse_digits bound acc (c # cs) =
     (case to_digit c of
        None \<Rightarrow> Inl PIE_InvalidDigit
      | Some d \<Rightarrow> if bound < acc * 10 \<or> bound < acc * 10 + d then Inl PIE_PosOverflow
                 else parse_digits bound (acc * 10 + d) cs)"

text \<open>\<open>char::to_digit\<close> with any radix.\<close>

definition radix_digit :: "nat \<Rightarrow> char \<Rightarrow> nat option" where
  "radix_digit r c =
     (let d = (if in_range 48 57 c then Some (of_char c - 48)
               else if in_range 97 122 c then Some (of_char c - 87)
               else if in_range 65 90 c then Some (of_char c - 55)
               else None)
      in case d of None \<Rightarrow> None | Some n \<Rightarrow> if n < r then Some n else None)"

definition parse_unsigned :: "nat \<Rightarrow> string \<Rightarrow> parse_int_error + nat" where
  "parse_unsigned bound s =
     (if s = [] then Inl PIE_Empty
      else if s = ''+'' \<or> s = ''-'' then Inl PIE_InvalidDigit
      else if hd s = CHR ''+'' then parse_digits bound 0 (tl s)
      else parse_digits bound 0 s)"

subsection \<open>Results: lemmas\<close>

lemma result_bind_simps [simp]:
  "result_bind (Inl e) f = Inl e" "result_bind (Inr a) f = f a"
  by (simp_all add: result_bind_def)

lemma result_map_simps [simp]:
  "result_map f (Inl e) = Inl e" "result_map f (Inr a) = Inr (f a)"
  by (simp_all add: result_map_def)

lemma map_err_simps [simp]:
  "map_err f (Inl e) = Inl (f e)" "map_err f (Inr a) = Inr a"
  by (simp_all add: map_err_def)

lemma ok_or_simps [simp]:
  "ok_or None e = Inl e" "ok_or (Some a) e = Inr a"
  by (simp_all add: ok_or_def)

lemma is_ok_simps [simp]:
  "\<not> is_ok (Inl e)" "is_ok (Inr a)"
  by (simp_all add: is_ok_def)

lemma is_ok_iff: "is_ok r \<longleftrightarrow> (\<exists>a. r = Inr a)"
  by (cases r) auto

lemma result_bind_eq_Inr_iff:
  "result_bind r f = Inr b \<longleftrightarrow> (\<exists>a. r = Inr a \<and> f a = Inr b)"
  by (cases r) auto

lemma result_fold_append:
  "result_fold f s (xs @ ys) = result_bind (result_fold f s xs) (\<lambda>s'. result_fold f s' ys)"
  by (induction xs arbitrary: s) (auto split: sum.split)

subsection \<open>Words: lemmas\<close>

lemma unat_u8_less: "unat (w :: u8) < 256"
  using unsigned_less [of w, where 'a = nat] by simp

lemma unat_u64_less: "unat (w :: u64) < 2 ^ 64"
  using unsigned_less [of w, where 'a = nat] by simp

subsection \<open>Strings: lemmas\<close>

lemma of_char_digit_char [str_simps]: "d < 10 \<Longrightarrow> of_char (digit_char d) = 48 + d"
  by (simp add: digit_char_def)

lemma to_digit_digit_char [str_simps]: "d < 10 \<Longrightarrow> to_digit (digit_char d) = Some d"
  by (simp add: to_digit_def in_range_def str_simps)

lemma show_nat_not_Nil [simp]: "show_nat n \<noteq> []"
  by (subst show_nat.simps) simp

lemma show_nat_digits: "c \<in> set (show_nat n) \<Longrightarrow> \<exists>d < 10. c = digit_char d"
proof (induction n rule: show_nat.induct)
  case (1 n)
  show ?case
  proof (cases "n < 10")
    case True
    with 1 show ?thesis by (subst (asm) (2) show_nat.simps) auto
  next
    case False
    with 1 show ?thesis
      by (subst (asm) (2) show_nat.simps) (auto intro: exI [of _ "n mod 10"])
  qed
qed

lemma show_nat_in_range: "c \<in> set (show_nat n) \<Longrightarrow> in_range 48 57 c"
  using show_nat_digits by (fastforce simp: in_range_def str_simps)

lemma parse_digits_append:
  "parse_digits b acc (xs @ ys)
     = result_bind (parse_digits b acc xs) (\<lambda>acc'. parse_digits b acc' ys)"
  by (induction xs arbitrary: acc) (auto split: option.split)

lemma parse_digits_show_nat: "n \<le> b \<Longrightarrow> parse_digits b 0 (show_nat n) = Inr n"
proof (induction n rule: show_nat.induct)
  case (1 n)
  show ?case
  proof (cases "n < 10")
    case True
    with 1 show ?thesis by (subst show_nat.simps) (simp add: str_simps)
  next
    case False
    with 1 have "parse_digits b 0 (show_nat (n div 10)) = Inr (n div 10)" by simp
    moreover have "n div 10 * 10 + n mod 10 = n" by simp
    ultimately show ?thesis
      using False 1 by (subst show_nat.simps) (simp add: parse_digits_append str_simps)
  qed
qed

lemma parse_unsigned_show_nat: "n \<le> b \<Longrightarrow> parse_unsigned b (show_nat n) = Inr n"
proof -
  assume le: "n \<le> b"
  obtain c cs where s: "show_nat n = c # cs" by (cases "show_nat n") auto
  then have "in_range 48 57 c" using show_nat_in_range [of c n] by simp
  then have "c \<noteq> CHR ''+''" "c \<noteq> CHR ''-''" by (auto simp: in_range_def)
  then show ?thesis
    using parse_digits_show_nat [OF le] s by (simp add: parse_unsigned_def)
qed

lemma utf8_valid_ascii: "\<forall>c \<in> set s. in_range 0 127 c \<Longrightarrow> utf8_valid s"
  by (induction s) auto

end
