(* ===== verification/BTree.thy ===== *)
theory BTree
  imports Ockam_Prelude
begin

text \<open>
  Rust's \<open>BTreeMap\<close> and \<open>BTreeSet\<close>: an ordered map is the association list its iterator
  yields, with strictly increasing keys; an ordered set is the increasing list of its elements.
  The locale \<open>ordered_map\<close> is the contract the components rely on; its client lemmas are proved
  from the laws alone and reach the components through the interpretation \<open>bt\<close>.
\<close>

type_synonym ('k, 'v) btree_map = "('k \<times> 'v) list"
type_synonym 'a btree_set = "'a list"

subsection \<open>Operations\<close>

definition bt_get :: "('k, 'v) btree_map \<Rightarrow> 'k \<Rightarrow> 'v option" where
  "bt_get m k = map_of m k"

fun bt_insert :: "'k::linorder \<Rightarrow> 'v \<Rightarrow> ('k, 'v) btree_map \<Rightarrow> ('k, 'v) btree_map" where
  "bt_insert k v [] = [(k, v)]"
| "bt_insert k v ((k', v') # m) =
     (if k < k' then (k, v) # (k', v') # m
      else if k = k' then (k, v) # m
      else (k', v') # bt_insert k v m)"

definition bt_remove :: "'k \<Rightarrow> ('k, 'v) btree_map \<Rightarrow> ('k, 'v) btree_map" where
  "bt_remove k m = filter (\<lambda>p. fst p \<noteq> k) m"

text \<open>\<open>retain\<close> keeps the entries the predicate accepts.\<close>

definition bt_retain :: "('k \<Rightarrow> 'v \<Rightarrow> bool) \<Rightarrow> ('k, 'v) btree_map \<Rightarrow> ('k, 'v) btree_map" where
  "bt_retain f m = filter (\<lambda>p. f (fst p) (snd p)) m"

text \<open>Writing through the references \<open>values_mut\<close> yields.\<close>

definition bt_map_values :: "('v \<Rightarrow> 'v) \<Rightarrow> ('k, 'v) btree_map \<Rightarrow> ('k, 'v) btree_map" where
  "bt_map_values f m = map (\<lambda>p. (fst p, f (snd p))) m"

definition bt_contains_key :: "('k, 'v) btree_map \<Rightarrow> 'k \<Rightarrow> bool" where
  "bt_contains_key m k = (k \<in> set (map fst m))"

definition bt_keys :: "('k, 'v) btree_map \<Rightarrow> 'k list" where
  "bt_keys m = map fst m"

definition bt_values :: "('k, 'v) btree_map \<Rightarrow> 'v list" where
  "bt_values m = map snd m"

definition bt_wf :: "('k::linorder, 'v) btree_map \<Rightarrow> bool" where
  "bt_wf m = sorted_wrt (<) (map fst m)"

fun bs_insert :: "'a::linorder \<Rightarrow> 'a btree_set \<Rightarrow> 'a btree_set" where
  "bs_insert x [] = [x]"
| "bs_insert x (y # ys) = (if x < y then x # y # ys else if x = y then y # ys else y # bs_insert x ys)"

definition bs_remove :: "'a \<Rightarrow> 'a btree_set \<Rightarrow> 'a btree_set" where
  "bs_remove x s = filter (\<lambda>y. y \<noteq> x) s"

definition bs_contains :: "'a btree_set \<Rightarrow> 'a \<Rightarrow> bool" where
  "bs_contains s x = (x \<in> set s)"

subsection \<open>The contract\<close>

locale ordered_map =
  fixes empty :: "'m"
    and insert_op :: "'k \<Rightarrow> 'v \<Rightarrow> 'm \<Rightarrow> 'm"
    and remove_op :: "'k \<Rightarrow> 'm \<Rightarrow> 'm"
    and get_op :: "'m \<Rightarrow> 'k \<Rightarrow> 'v option"
    and invar :: "'m \<Rightarrow> bool"
  assumes get_empty: "get_op empty k = None"
    and get_insert_op: "invar m \<Longrightarrow> get_op (insert_op k v m) k' = (if k' = k then Some v else get_op m k')"
    and get_remove_op: "invar m \<Longrightarrow> get_op (remove_op k m) k' = (if k' = k then None else get_op m k')"
    and invar_empty: "invar empty"
    and invar_insert: "invar m \<Longrightarrow> invar (insert_op k v m)"
    and invar_remove: "invar m \<Longrightarrow> invar (remove_op k m)"
    and get_ext: "invar m \<Longrightarrow> invar m' \<Longrightarrow> (\<And>k. get_op m k = get_op m' k) \<Longrightarrow> m = m'"
begin

lemma insert_insert_same: "invar m \<Longrightarrow> insert_op k v (insert_op k w m) = insert_op k v m"
  by (rule get_ext) (simp_all add: get_insert_op invar_insert)

lemma insert_insert_swap:
  "invar m \<Longrightarrow> k \<noteq> k' \<Longrightarrow> insert_op k v (insert_op k' w m) = insert_op k' w (insert_op k v m)"
  by (rule get_ext) (auto simp add: get_insert_op invar_insert)

lemma remove_insert_same: "invar m \<Longrightarrow> remove_op k (insert_op k v m) = remove_op k m"
  by (rule get_ext) (simp_all add: get_insert_op get_remove_op invar_insert invar_remove)

lemma remove_insert_swap:
  "invar m \<Longrightarrow> k \<noteq> k' \<Longrightarrow> remove_op k (insert_op k' v m) = insert_op k' v (remove_op k m)"
  by (rule get_ext) (auto simp: get_insert_op get_remove_op invar_insert invar_remove)

lemma remove_absent: "invar m \<Longrightarrow> get_op m k = None \<Longrightarrow> remove_op k m = m"
  by (rule get_ext) (auto simp: get_remove_op invar_remove)

lemma remove_insert_fresh:
  "invar m \<Longrightarrow> get_op m k = None \<Longrightarrow> remove_op k (insert_op k v m) = m"
  by (simp add: remove_insert_same remove_absent)

end

subsection \<open>The model meets the contract\<close>

lemma bt_wf_Nil [simp, wf_intros]: "bt_wf []"
  by (simp add: bt_wf_def)

lemma set_bt_insert_subset: "set (bt_insert k v m) \<subseteq> insert (k, v) (set m)"
  by (induction m) (auto split: if_splits)

lemma keys_bt_insert: "set (map fst (bt_insert k v m)) = insert k (set (map fst m))"
  by (induction k v m rule: bt_insert.induct) (simp_all add: insert_commute)

lemma bt_wf_insert [wf_intros]: "bt_wf m \<Longrightarrow> bt_wf (bt_insert k v m)"
proof (induction m)
  case (Cons p m)
  obtain k' v' where p: "p = (k', v')" by force
  have "x = k \<or> x \<in> fst ` set m" if "x \<in> fst ` set (bt_insert k v m)" for x
    using that keys_bt_insert [of k v m] by auto
  with Cons p show ?case by (fastforce simp: bt_wf_def)
qed (simp add: bt_wf_def)

lemma bt_wf_filter [wf_intros]: "bt_wf m \<Longrightarrow> bt_wf (filter f m)"
  by (induction m) (auto simp: bt_wf_def)

lemma bt_wf_remove [wf_intros]: "bt_wf m \<Longrightarrow> bt_wf (bt_remove k m)"
  by (simp add: bt_remove_def bt_wf_filter)

lemma bt_wf_retain [wf_intros]: "bt_wf m \<Longrightarrow> bt_wf (bt_retain f m)"
  by (simp add: bt_retain_def bt_wf_filter)

lemma bt_wf_map_values [wf_intros]: "bt_wf m \<Longrightarrow> bt_wf (bt_map_values f m)"
  by (simp add: bt_wf_def bt_map_values_def comp_def)

lemma bt_wf_distinct: "bt_wf m \<Longrightarrow> distinct (map fst m)"
  by (simp add: bt_wf_def strict_sorted_iff)

lemma bt_get_Nil [simp, bt_simps]: "bt_get [] k = None"
  by (simp add: bt_get_def)

lemma bt_get_insert [bt_simps]:
  "bt_get (bt_insert k v m) k' = (if k' = k then Some v else bt_get m k')"
  by (induction m) (auto simp: bt_get_def)

lemma bt_get_remove [bt_simps]:
  "bt_get (bt_remove k m) k' = (if k' = k then None else bt_get m k')"
  by (induction m) (auto simp: bt_get_def bt_remove_def)

lemma bt_get_map_values [bt_simps]:
  "bt_get (bt_map_values f m) k = map_option f (bt_get m k)"
  by (induction m) (auto simp: bt_get_def bt_map_values_def)

lemma bt_get_eq_Some_iff: "bt_wf m \<Longrightarrow> bt_get m k = Some v \<longleftrightarrow> (k, v) \<in> set m"
  by (simp add: bt_get_def bt_wf_distinct)

lemma bt_get_SomeD: "bt_get m k = Some v \<Longrightarrow> (k, v) \<in> set m"
  by (simp add: bt_get_def map_of_SomeD)

lemma bt_get_retain [bt_simps]:
  assumes "bt_wf m"
  shows "bt_get (bt_retain f m) k = (case bt_get m k of None \<Rightarrow> None | Some v \<Rightarrow> if f k v then Some v else None)"
proof (cases "bt_get (bt_retain f m) k")
  case None
  then show ?thesis
    using assms by (auto simp: bt_get_def bt_retain_def map_of_eq_None_iff image_iff
        split: option.split dest!: map_of_SomeD)
next
  case (Some v)
  then have "(k, v) \<in> set m" "f k v"
    by (auto simp: bt_retain_def dest: bt_get_SomeD)
  with assms Some show ?thesis by (simp flip: bt_get_eq_Some_iff)
qed

lemma bt_contains_key_iff [bt_simps]: "bt_contains_key m k \<longleftrightarrow> bt_get m k \<noteq> None"
  by (auto simp: bt_contains_key_def bt_get_def map_of_eq_None_iff)

lemma bt_ext:
  assumes "bt_wf m" "bt_wf m'" "\<And>k. bt_get m k = bt_get m' k"
  shows "m = m'"
proof -
  have "set m = set m'"
  proof (intro set_eqI)
    fix p :: "'a \<times> 'b"
    obtain k v where "p = (k, v)" by force
    with assms show "p \<in> set m \<longleftrightarrow> p \<in> set m'"
      by (simp flip: bt_get_eq_Some_iff)
  qed
  moreover have "inj_on fst (set m \<union> set m')"
    using calculation bt_wf_distinct [OF assms(1)] by (simp add: distinct_map)
  ultimately show ?thesis
    using assms by (intro map_sorted_distinct_set_unique [of fst])
      (auto simp: bt_wf_def strict_sorted_iff)
qed

interpretation bt: ordered_map "[]" bt_insert bt_remove bt_get bt_wf
  by unfold_locales (auto simp: bt_simps wf_intros intro: bt_ext)

subsection \<open>Sets and iteration\<close>

lemma set_bs_insert [simp, bt_simps]: "set (bs_insert x s) = insert x (set s)"
  by (induction s) auto

lemma set_bs_remove [simp, bt_simps]: "set (bs_remove x s) = set s - {x}"
  by (auto simp: bs_remove_def)

lemma sorted_bs_insert [wf_intros]: "sorted_wrt (<) s \<Longrightarrow> sorted_wrt (<) (bs_insert x s)"
  by (induction s) auto

lemma sorted_bs_remove [wf_intros]: "sorted_wrt (<) s \<Longrightarrow> sorted_wrt (<) (bs_remove x s)"
  unfolding bs_remove_def by (induction s) auto

lemma bs_contains_iff [simp, bt_simps]: "bs_contains s x \<longleftrightarrow> x \<in> set s"
  by (simp add: bs_contains_def)

lemma set_bt_remove: "set (bt_remove k m) = {p \<in> set m. fst p \<noteq> k}"
  by (simp add: bt_remove_def)

lemma set_bt_retain: "set (bt_retain f m) = {p \<in> set m. f (fst p) (snd p)}"
  by (simp add: bt_retain_def)

lemma set_bt_map_values: "set (bt_map_values f m) = (\<lambda>p. (fst p, f (snd p))) ` set m"
  by (simp add: bt_map_values_def)

lemma list_all_bt_insert [wf_intros]:
  "list_all P m \<Longrightarrow> P (k, v) \<Longrightarrow> list_all P (bt_insert k v m)"
  using set_bt_insert_subset [of k v m] by (auto simp: list_all_iff)

lemma list_all_bt_remove [wf_intros]: "list_all P m \<Longrightarrow> list_all P (bt_remove k m)"
  by (simp add: list_all_iff set_bt_remove)

lemma list_all_bt_retain [wf_intros]: "list_all P m \<Longrightarrow> list_all P (bt_retain f m)"
  by (simp add: list_all_iff set_bt_retain)

lemma bt_remove_absent: "bt_get m k = None \<Longrightarrow> bt_remove k m = m"
  by (auto simp: bt_remove_def bt_get_def map_of_eq_None_iff filter_id_conv)

lemma bs_remove_absent: "x \<notin> set s \<Longrightarrow> bs_remove x s = s"
  by (auto simp: bs_remove_def filter_id_conv)

lemma bs_remove_idem [simp]: "bs_remove x (bs_remove x s) = bs_remove x s"
  by (simp add: bs_remove_def)

lemma bt_get_None_iff: "bt_get m k = None \<longleftrightarrow> k \<notin> set (bt_keys m)"
  by (auto simp: bt_get_def bt_keys_def map_of_eq_None_iff)

lemma bt_eq_Nil_iff: "m = [] \<longleftrightarrow> (\<forall>k. bt_get m k = None)"
  by (cases m) (auto simp: bt_get_def)

end
