(* ===== verification/Error_Code.thy ===== *)
theory Error_Code
  imports Ockam_Prelude
begin

text \<open>
  \<open>ockam_core/src/error/code.rs\<close>: the abstract error codes every fallible operation of the
  program reports.  An \<open>ockam_core::Error\<close> is modelled by its code, the only part the
  program's own logic reads; cause, location and context are for display.
\<close>

subsection \<open>Data\<close>

datatype Origin =
    OriginUnknown | OriginApplication | OriginVault | OriginTransport | OriginNode | OriginApi
  | OriginIdentity | OriginChannel | OriginKeyExchange | OriginExecutor | OriginCore | OriginOckam
  | OriginAuthorization | OriginOther

datatype Kind =
    KindUnknown | KindInternal | KindInvalid | KindUnsupported | KindNotFound | KindAlreadyExists
  | KindResourceExhausted | KindMisuse | KindCancelled | KindShutdown | KindTimeout | KindConflict
  | KindSerialization | KindIo | KindProtocol | KindOther

record ErrorCode =
  origin :: Origin
  kind :: Kind
  extra :: "32 word"

type_synonym error = ErrorCode

text \<open>The discriminants (\<open>#[repr(u8)]\<close>).\<close>

fun origin_as_u8 :: "Origin \<Rightarrow> u8" where
  "origin_as_u8 OriginUnknown = 0"
| "origin_as_u8 OriginApplication = 1"
| "origin_as_u8 OriginVault = 2"
| "origin_as_u8 OriginTransport = 3"
| "origin_as_u8 OriginNode = 4"
| "origin_as_u8 OriginApi = 5"
| "origin_as_u8 OriginIdentity = 6"
| "origin_as_u8 OriginChannel = 7"
| "origin_as_u8 OriginKeyExchange = 8"
| "origin_as_u8 OriginExecutor = 9"
| "origin_as_u8 OriginCore = 10"
| "origin_as_u8 OriginOckam = 11"
| "origin_as_u8 OriginAuthorization = 12"
| "origin_as_u8 OriginOther = 13"

fun kind_as_u8 :: "Kind \<Rightarrow> u8" where
  "kind_as_u8 KindUnknown = 0"
| "kind_as_u8 KindInternal = 1"
| "kind_as_u8 KindInvalid = 2"
| "kind_as_u8 KindUnsupported = 3"
| "kind_as_u8 KindNotFound = 4"
| "kind_as_u8 KindAlreadyExists = 5"
| "kind_as_u8 KindResourceExhausted = 6"
| "kind_as_u8 KindMisuse = 7"
| "kind_as_u8 KindCancelled = 8"
| "kind_as_u8 KindShutdown = 9"
| "kind_as_u8 KindTimeout = 10"
| "kind_as_u8 KindConflict = 11"
| "kind_as_u8 KindSerialization = 12"
| "kind_as_u8 KindIo = 13"
| "kind_as_u8 KindProtocol = 14"
| "kind_as_u8 KindOther = 15"

subsection \<open>Operations\<close>

definition ErrorCode_new :: "Origin \<Rightarrow> Kind \<Rightarrow> ErrorCode" where
  "ErrorCode_new orig knd = \<lparr>origin = orig, kind = knd, extra = 0\<rparr>"

definition new_with_extra :: "Origin \<Rightarrow> Kind \<Rightarrow> 32 word \<Rightarrow> ErrorCode" where
  "new_with_extra orig knd ext = \<lparr>origin = orig, kind = knd, extra = ext\<rparr>"

definition ErrorCode_unknown :: ErrorCode where
  "ErrorCode_unknown = \<lparr>origin = OriginUnknown, kind = KindUnknown, extra = 0\<rparr>"

definition update_unknown :: "ErrorCode \<Rightarrow> Origin option \<Rightarrow> Kind option \<Rightarrow> ErrorCode" where
  "update_unknown self orig knd =
     (let self1 = (case (origin self, orig) of
                     (OriginUnknown, Some o') \<Rightarrow> self\<lparr>origin := o'\<rparr>
                   | _ \<Rightarrow> self);
          self2 = (case (kind self1, knd) of
                     (KindUnknown, Some k') \<Rightarrow> self1\<lparr>kind := k'\<rparr>
                   | _ \<Rightarrow> self1)
      in self2)"

text \<open>The \<open>from_prim!\<close> macro: the first listed variant whose discriminant is the number.\<close>

definition from_prim :: "('e \<Rightarrow> u8) \<Rightarrow> 'e list \<Rightarrow> u8 \<Rightarrow> 'e option" where
  "from_prim as_u8 variants n = find (\<lambda>v. n = as_u8 v) variants"

definition origin_from_u8 :: "u8 \<Rightarrow> Origin option" where
  "origin_from_u8 n = from_prim origin_as_u8
     [OriginUnknown, OriginApplication, OriginVault, OriginTransport, OriginNode, OriginApi,
      OriginIdentity, OriginChannel, OriginKeyExchange, OriginExecutor, OriginCore, OriginOckam,
      OriginAuthorization, OriginOther] n"

definition origin_from :: "u8 \<Rightarrow> Origin" where
  "origin_from src = (case origin_from_u8 src of Some n \<Rightarrow> n | None \<Rightarrow> OriginUnknown)"

definition kind_from_u8 :: "u8 \<Rightarrow> Kind option" where
  "kind_from_u8 n = from_prim kind_as_u8
     [KindUnknown, KindInternal, KindInvalid, KindUnsupported, KindNotFound, KindAlreadyExists,
      KindResourceExhausted, KindMisuse, KindCancelled, KindShutdown, KindTimeout, KindConflict,
      KindIo, KindProtocol, KindSerialization, KindOther] n"

definition kind_from :: "u8 \<Rightarrow> Kind" where
  "kind_from src = (case kind_from_u8 src of Some n \<Rightarrow> n | None \<Rightarrow> KindUnknown)"

subsection \<open>Lemmas\<close>

lemma from_prim_eq_Some_iff:
  assumes "inj as_u8" "set variants = UNIV"
  shows "from_prim as_u8 variants n = Some v \<longleftrightarrow> n = as_u8 v"
proof
  assume "n = as_u8 v"
  then have "from_prim as_u8 variants n \<noteq> None"
    using assms(2) by (auto simp: from_prim_def find_None_iff)
  then obtain w where "from_prim as_u8 variants n = Some w" by blast
  moreover from this have "n = as_u8 w" by (auto simp: from_prim_def find_Some_iff)
  ultimately show "from_prim as_u8 variants n = Some v"
    using \<open>n = as_u8 v\<close> assms(1) by (simp add: inj_eq)
qed (auto simp: from_prim_def find_Some_iff)

lemma inj_origin_as_u8: "inj origin_as_u8"
proof (rule injI)
  fix a b show "origin_as_u8 a = origin_as_u8 b \<Longrightarrow> a = b" by (cases a; cases b) simp_all
qed

lemma inj_kind_as_u8: "inj kind_as_u8"
proof (rule injI)
  fix a b show "kind_as_u8 a = kind_as_u8 b \<Longrightarrow> a = b" by (cases a; cases b) simp_all
qed

lemma origin_from_u8_iff: "origin_from_u8 n = Some v \<longleftrightarrow> n = origin_as_u8 v"
proof -
  have "v \<in> set [OriginUnknown, OriginApplication, OriginVault, OriginTransport, OriginNode,
      OriginApi, OriginIdentity, OriginChannel, OriginKeyExchange, OriginExecutor, OriginCore,
      OriginOckam, OriginAuthorization, OriginOther]" for v
    by (cases v) simp_all
  then show ?thesis
    unfolding origin_from_u8_def by (intro from_prim_eq_Some_iff inj_origin_as_u8) auto
qed

lemma kind_from_u8_iff: "kind_from_u8 n = Some v \<longleftrightarrow> n = kind_as_u8 v"
proof -
  have "v \<in> set [KindUnknown, KindInternal, KindInvalid, KindUnsupported, KindNotFound,
      KindAlreadyExists, KindResourceExhausted, KindMisuse, KindCancelled, KindShutdown,
      KindTimeout, KindConflict, KindIo, KindProtocol, KindSerialization, KindOther]" for v
    by (cases v) simp_all
  then show ?thesis
    unfolding kind_from_u8_def by (intro from_prim_eq_Some_iff inj_kind_as_u8) auto
qed

lemma update_unknown_origin:
  "origin (update_unknown c o' k') = (if origin c = OriginUnknown then (case o' of None \<Rightarrow> OriginUnknown | Some x \<Rightarrow> x) else origin c)"
  by (cases "origin c"; cases o'; cases k'; cases "kind c") (simp_all add: update_unknown_def)

lemma update_unknown_kind:
  "kind (update_unknown c o' k') = (if kind c = KindUnknown then (case k' of None \<Rightarrow> KindUnknown | Some x \<Rightarrow> x) else kind c)"
  by (cases "origin c"; cases o'; cases k'; cases "kind c") (simp_all add: update_unknown_def)

text \<open>The numeric form of an error code is a faithful encoding: \<open>Origin::from_u8\<close> and
  \<open>Kind::from_u8\<close> return exactly the variant with that discriminant, and attaching an origin or
  a kind with \<open>update_unknown\<close> never overwrites one that is already known.\<close>

theorem error_code_roundtrip:
  "(origin_from_u8 n = Some v \<longleftrightarrow> n = origin_as_u8 v)
   \<and> (kind_from_u8 m = Some w \<longleftrightarrow> m = kind_as_u8 w)
   \<and> origin_from (origin_as_u8 v) = v \<and> kind_from (kind_as_u8 w) = w
   \<and> (origin (update_unknown c o' k') = origin c \<or> origin c = OriginUnknown)
   \<and> (kind (update_unknown c o' k') = kind c \<or> kind c = KindUnknown)"
proof -
  have "origin_from_u8 (origin_as_u8 v) = Some v" "kind_from_u8 (kind_as_u8 w) = Some w"
    by (simp_all add: origin_from_u8_iff kind_from_u8_iff)
  then have "origin_from (origin_as_u8 v) = v" "kind_from (kind_as_u8 w) = w"
    by (simp_all only: origin_from_def kind_from_def option.case)
  then show ?thesis
    by (simp add: origin_from_u8_iff kind_from_u8_iff update_unknown_origin update_unknown_kind)
qed

end
