(* ===== verification/Address.thy ===== *)
theory Address
  imports BTree Error_Code
begin

text \<open>
  \<open>ockam_core/src/routing/{transport_type,address,error}.rs\<close>: addresses, their derived order,
  parsing from and printing to strings.  \<open>Address::from_string\<close> and the \<open>From\<close> conversions from
  strings panic on a string that does not parse, so they return a value of
  \<^typ>\<open>'a exec\<close>.
\<close>

subsection \<open>Data\<close>

datatype TransportType = TransportType (tt_num: u8)

definition LOCAL :: TransportType where
  "LOCAL = TransportType 0"

datatype Address = Address (tt: TransportType) (inner: bytes)

datatype RouteError = IncompleteRoute

datatype AddressParseErrorKind = InvalidType parse_int_error | MultipleSep

text \<open>\<open>#[derive(Ord)]\<close>: field by field, the bytes lexicographically.\<close>

instantiation TransportType :: linorder
begin

definition less_eq_TransportType :: "TransportType \<Rightarrow> TransportType \<Rightarrow> bool" where
  "less_eq_TransportType a b \<longleftrightarrow> tt_num a \<le> tt_num b"

definition less_TransportType :: "TransportType \<Rightarrow> TransportType \<Rightarrow> bool" where
  "less_TransportType a b \<longleftrightarrow> tt_num a < tt_num b"

instance
  by standard (auto simp: less_eq_TransportType_def less_TransportType_def TransportType.expand)

end

instantiation Address :: linorder
begin

definition less_eq_Address :: "Address \<Rightarrow> Address \<Rightarrow> bool" where
  "less_eq_Address a b \<longleftrightarrow> tt a < tt b \<or> tt a = tt b \<and> inner a \<le> inner b"

definition less_Address :: "Address \<Rightarrow> Address \<Rightarrow> bool" where
  "less_Address a b \<longleftrightarrow> tt a < tt b \<or> tt a = tt b \<and> inner a < inner b"

instance
  by standard (auto simp: less_eq_Address_def less_Address_def Address.expand)

end

subsection \<open>Operations\<close>

definition TransportType_is_local :: "TransportType \<Rightarrow> bool" where
  "TransportType_is_local self = (self = LOCAL)"

definition TransportType_display :: "TransportType \<Rightarrow> string" where
  "TransportType_display self = show_nat (unat (tt_num self))"

fun RouteError_into :: "RouteError \<Rightarrow> error" where
  "RouteError_into IncompleteRoute = ErrorCode_new OriginCore KindMisuse"

definition Address_new :: "TransportType \<Rightarrow> string \<Rightarrow> Address" where
  "Address_new t dat = Address t dat"

definition Address_from_str :: "string \<Rightarrow> AddressParseErrorKind + Address" where
  "Address_from_str s =
     (let vec = split_on ''#'' s in
      if length vec = 1 then Inr (Address LOCAL (vec ! 0))
      else if length vec = 2 then
        (case parse_unsigned 255 (vec ! 0) of
           Inr t \<Rightarrow> Inr (Address (TransportType (of_nat t)) (vec ! 1))
         | Inl e \<Rightarrow> Inl (InvalidType e))
      else Inl MultipleSep)"

definition Address_from_string :: "string \<Rightarrow> Address exec" where
  "Address_from_string s =
     (case Address_from_str s of
        Inr a \<Rightarrow> Inr a
      | Inl e \<Rightarrow> Inl (Panic ''Invalid address string''))"

definition without_type :: "Address \<Rightarrow> string" where
  "without_type self = (case from_utf8 (inner self) of Some s \<Rightarrow> s | None \<Rightarrow> ''<unprintable>'')"

definition transport_type :: "Address \<Rightarrow> TransportType" where
  "transport_type self = tt self"

definition Address_address :: "Address \<Rightarrow> string" where
  "Address_address self = (case from_utf8 (inner self) of Some s \<Rightarrow> s | None \<Rightarrow> ''Invalid UTF-8'')"

definition Address_is_local :: "Address \<Rightarrow> bool" where
  "Address_is_local self = (tt self = LOCAL)"

definition Address_display :: "Address \<Rightarrow> string" where
  "Address_display self =
     (let inn = (case from_utf8 (inner self) of Some s \<Rightarrow> s | None \<Rightarrow> ''Invalid UTF-8'')
      in TransportType_display (tt self) @ ''#'' @ inn)"

definition Address_from_bytes :: "bytes \<Rightarrow> Address" where
  "Address_from_bytes dat = Address LOCAL dat"

definition Address_from_pair :: "TransportType \<times> bytes \<Rightarrow> Address" where
  "Address_from_pair p = (case p of (t, dat) \<Rightarrow> Address t dat)"

subsection \<open>Splitting at a separator\<close>

lemma split_go_not_Nil [simp]: "split_go pat acc s \<noteq> []"
  by (induction pat acc s rule: split_go.induct) auto

lemma split_go_single_absent:
  "c \<notin> set s \<Longrightarrow> split_go [c] acc s = [rev acc @ s]"
  by (induction s arbitrary: acc) auto

lemma split_go_single_hit:
  "c \<notin> set x \<Longrightarrow> split_go [c] acc (x @ c # s) = (rev acc @ x) # split_go [c] [] s"
  by (induction x arbitrary: acc) auto

lemma length_split_go_single: "length (split_go [c] acc s) = Suc (count_list s c)"
  by (induction s arbitrary: acc) auto

lemma split_on_single_absent [str_simps]: "c \<notin> set s \<Longrightarrow> split_on [c] s = [s]"
  by (simp add: split_on_def split_go_single_absent)

lemma split_on_single_hit [str_simps]:
  "c \<notin> set x \<Longrightarrow> split_on [c] (x @ c # s) = x # split_on [c] s"
  by (simp add: split_on_def split_go_single_hit)

lemma length_split_on_single [str_simps]: "length (split_on [c] s) = Suc (count_list s c)"
  by (simp add: split_on_def length_split_go_single)

lemma hash_notin_show_nat: "CHR ''#'' \<notin> set (show_nat n)"
  using show_nat_in_range [of "CHR ''#''" n] by (auto simp: in_range_def)

subsection \<open>Parsing and printing addresses\<close>

text \<open>An address whose bytes are text without the separator.\<close>

definition printable :: "Address \<Rightarrow> bool" where
  "printable a = (utf8_valid (inner a) \<and> CHR ''#'' \<notin> set (inner a))"

lemma Address_display_printable:
  "printable a \<Longrightarrow> Address_display a = show_nat (unat (tt_num (tt a))) @ CHR ''#'' # inner a"
  by (simp add: Address_display_def printable_def from_utf8_def TransportType_display_def)

lemma Address_from_str_display: "printable a \<Longrightarrow> Address_from_str (Address_display a) = Inr a"
proof -
  assume p: "printable a"
  let ?n = "unat (tt_num (tt a))"
  have "?n \<le> 255" using unat_u8_less [of "tt_num (tt a)"] by simp
  moreover have "split_on ''#'' (Address_display a) = [show_nat ?n, inner a]"
    using p by (simp add: Address_display_printable split_on_single_hit split_on_single_absent
        hash_notin_show_nat printable_def)
  ultimately show ?thesis
    by (simp add: Address_from_str_def parse_unsigned_show_nat Address.expand TransportType.expand)
qed

lemma Address_from_string_display:
  "printable a \<Longrightarrow> Address_from_string (Address_display a) = Inr a"
  by (simp add: Address_from_string_def Address_from_str_display)

lemma Address_from_str_local: "CHR ''#'' \<notin> set s \<Longrightarrow> Address_from_str s = Inr (Address LOCAL s)"
  by (simp add: Address_from_str_def split_on_single_absent)

lemma Address_from_str_MultipleSep_iff:
  "Address_from_str s = Inl MultipleSep \<longleftrightarrow> 2 \<le> count_list s (CHR ''#'')"
  by (auto simp: Address_from_str_def length_split_on_single Let_def split: sum.splits)



end
