(* ===== verification/Route.thy ===== *)
theory Route
  imports Address
begin

text \<open>
  \<open>ockam_core/src/routing/route.rs\<close>, \<open>macros.rs\<close> and the messages of
  \<open>routing/message/\<close>: routes, the builder that edits them, and the messages that carry
  them.  A builder obtained from \<open>Route::modify\<close> writes its addresses back into the borrowed
  route when it is dropped; \<open>RouteBuilder_drop\<close> returns that new content.
\<close>

subsection \<open>Data\<close>

datatype Route = Route (addrs: "Address list")

record RouteBuilder =
  rb_inner :: "Address list"
  rb_write_back :: "Route option"

record TransportMessage =
  version :: u8
  onward_route :: Route
  return_route :: Route
  payload :: bytes

record LocalInfo =
  type_identifier :: string
  info_data :: bytes

record LocalMessage =
  transport_message :: TransportMessage
  local_info :: "LocalInfo list"

record RelayMessage =
  source :: Address
  destination :: Address
  local_msg :: LocalMessage

subsection \<open>The builder\<close>

definition RouteBuilder_new :: RouteBuilder where
  "RouteBuilder_new = \<lparr>rb_inner = [], rb_write_back = None\<rparr>"

definition rb_append :: "RouteBuilder \<Rightarrow> Address \<Rightarrow> RouteBuilder" where
  "rb_append self a = self\<lparr>rb_inner := rb_inner self @ [a]\<rparr>"

definition rb_append_t :: "RouteBuilder \<Rightarrow> TransportType \<Rightarrow> string \<Rightarrow> RouteBuilder" where
  "rb_append_t self ty a = self\<lparr>rb_inner := rb_inner self @ [Address_from_pair (ty, a)]\<rparr>"

definition rb_prepend :: "RouteBuilder \<Rightarrow> Address \<Rightarrow> RouteBuilder" where
  "rb_prepend self a = self\<lparr>rb_inner := a # rb_inner self\<rparr>"

definition prepend_route :: "RouteBuilder \<Rightarrow> Route \<Rightarrow> RouteBuilder" where
  "prepend_route self r = fold (\<lambda>a b. b\<lparr>rb_inner := a # rb_inner b\<rparr>) (rev (addrs r)) self"

definition append_route :: "RouteBuilder \<Rightarrow> Route \<Rightarrow> RouteBuilder" where
  "append_route self r = fold (\<lambda>a b. b\<lparr>rb_inner := rb_inner b @ [a]\<rparr>) (addrs r) self"

text \<open>\<open>VecDeque::pop_front\<close> and \<open>pop_back\<close> leave an empty deque as it is.\<close>

definition rb_replace :: "RouteBuilder \<Rightarrow> Address \<Rightarrow> RouteBuilder" where
  "rb_replace self a = self\<lparr>rb_inner := a # tl (rb_inner self)\<rparr>"

definition rb_pop_front :: "RouteBuilder \<Rightarrow> RouteBuilder" where
  "rb_pop_front self = self\<lparr>rb_inner := tl (rb_inner self)\<rparr>"

definition rb_pop_back :: "RouteBuilder \<Rightarrow> RouteBuilder" where
  "rb_pop_back self = self\<lparr>rb_inner := butlast (rb_inner self)\<rparr>"

definition RouteBuilder_drop :: "RouteBuilder \<Rightarrow> Route option" where
  "RouteBuilder_drop self =
     (if rb_write_back self \<noteq> None then Some (Route (rb_inner self)) else None)"

definition Route_from_builder :: "RouteBuilder \<Rightarrow> Route" where
  "Route_from_builder b = Route (rb_inner b)"

subsection \<open>Routes\<close>

definition Route_new :: RouteBuilder where
  "Route_new = RouteBuilder_new"

definition Route_create :: "Address list \<Rightarrow> Route" where
  "Route_create vt = Route_from_builder (fold (\<lambda>a r. rb_append r a) vt Route_new)"

definition Route_from :: "Address \<Rightarrow> Route" where
  "Route_from a = Route_create [a]"

text \<open>The \<open>route!\<close> macro.\<close>

definition route_macro :: "Route list \<Rightarrow> Route" where
  "route_macro xs = Route_from_builder (fold (\<lambda>x r. append_route r x) xs Route_new)"

definition Route_parse :: "string \<Rightarrow> Route option exec" where
  "Route_parse s =
     (if s = [] then Inr None
      else let parts = split_on ''=>'' s in
        if parts = [] then Inr None
        else result_map (\<lambda>b. Some (Route_from_builder b))
               (result_fold (\<lambda>r a. result_map (rb_append r) (Address_from_string (trim a)))
                  Route_new parts))"

definition modify :: "Route \<Rightarrow> RouteBuilder" where
  "modify self = \<lparr>rb_inner = addrs self, rb_write_back = Some self\<rparr>"

definition Route_step :: "Route \<Rightarrow> (error + Address) \<times> Route" where
  "Route_step self = (case addrs self of
     [] \<Rightarrow> (Inl (RouteError_into IncompleteRoute), self)
   | a # as \<Rightarrow> (Inr a, Route as))"

definition Route_next :: "Route \<Rightarrow> error + Address" where
  "Route_next self = (case addrs self of
     [] \<Rightarrow> Inl (RouteError_into IncompleteRoute) | a # _ \<Rightarrow> Inr a)"

definition recipient :: "Route \<Rightarrow> error + Address" where
  "recipient self =
     (if addrs self = [] then Inl (RouteError_into IncompleteRoute) else Inr (last (addrs self)))"

definition Route_len :: "Route \<Rightarrow> nat" where
  "Route_len self = length (addrs self)"

definition Route_is_empty :: "Route \<Rightarrow> bool" where
  "Route_is_empty self = (addrs self = [])"

definition contains_route :: "Route \<Rightarrow> Route \<Rightarrow> error + bool" where
  "contains_route self needle =
     (if Route_is_empty needle then Inl (RouteError_into IncompleteRoute)
      else let hl = Route_len self; nl = Route_len needle in
        if nl > hl then Inr False
        else if list_ex (\<lambda>i. take nl (drop i (addrs self)) = addrs needle) [0..<Suc (hl - nl)]
             then Inr True else Inr False)"

definition Route_is_local :: "Route \<Rightarrow> bool" where
  "Route_is_local self = list_all Address_is_local (addrs self)"

definition Route_display :: "Route \<Rightarrow> string" where
  "Route_display self = join_with '' => '' (map Address_display (addrs self))"

subsection \<open>Messages\<close>

definition TransportMessage_v1 :: "Route \<Rightarrow> Route \<Rightarrow> bytes \<Rightarrow> TransportMessage" where
  "TransportMessage_v1 onward ret p =
     \<lparr>version = 1, onward_route = onward, return_route = ret, payload = p\<rparr>"

definition LocalInfo_new :: "string \<Rightarrow> bytes \<Rightarrow> LocalInfo" where
  "LocalInfo_new ti d = \<lparr>type_identifier = ti, info_data = d\<rparr>"

definition LocalMessage_new :: "TransportMessage \<Rightarrow> LocalInfo list \<Rightarrow> LocalMessage" where
  "LocalMessage_new tm li = \<lparr>transport_message = tm, local_info = li\<rparr>"

definition append_local_info :: "LocalMessage \<Rightarrow> LocalInfo \<Rightarrow> LocalMessage" where
  "append_local_info self li = self\<lparr>local_info := local_info self @ [li]\<rparr>"

definition clear_local_info :: "LocalMessage \<Rightarrow> string \<Rightarrow> LocalMessage" where
  "clear_local_info self ti =
     self\<lparr>local_info := filter (\<lambda>x. type_identifier x \<noteq> ti) (local_info self)\<rparr>"

definition replace_local_info :: "LocalMessage \<Rightarrow> LocalInfo \<Rightarrow> LocalMessage" where
  "replace_local_info self li =
     (let self1 = clear_local_info self (type_identifier li)
      in self1\<lparr>local_info := local_info self1 @ [li]\<rparr>)"

definition RelayMessage_new :: "Address \<Rightarrow> Address \<Rightarrow> LocalMessage \<Rightarrow> RelayMessage" where
  "RelayMessage_new src dst lm = \<lparr>source = src, destination = dst, local_msg = lm\<rparr>"

definition relay_onward_route :: "RelayMessage \<Rightarrow> Route" where
  "relay_onward_route self = onward_route (transport_message (local_msg self))"

definition relay_return_route :: "RelayMessage \<Rightarrow> Route" where
  "relay_return_route self = return_route (transport_message (local_msg self))"

subsection \<open>Editing a route\<close>

lemma fold_push_front: "rb_inner (fold (\<lambda>a b. b\<lparr>rb_inner := a # rb_inner b\<rparr>) xs b) = rev xs @ rb_inner b"
  by (induction xs arbitrary: b) auto

lemma fold_push_back: "rb_inner (fold (\<lambda>a b. b\<lparr>rb_inner := rb_inner b @ [a]\<rparr>) xs b) = rb_inner b @ xs"
  by (induction xs arbitrary: b) auto

lemma fold_push_write_back:
  "rb_write_back (fold (\<lambda>a b. b\<lparr>rb_inner := a # rb_inner b\<rparr>) xs b) = rb_write_back b"
  "rb_write_back (fold (\<lambda>a b. b\<lparr>rb_inner := rb_inner b @ [a]\<rparr>) xs b) = rb_write_back b"
  by (induction xs arbitrary: b) auto

lemma prepend_route_inner [simp]: "rb_inner (prepend_route b r) = addrs r @ rb_inner b"
  by (simp add: prepend_route_def fold_push_front)

lemma append_route_inner [simp]: "rb_inner (append_route b r) = rb_inner b @ addrs r"
  by (simp add: append_route_def fold_push_back)

lemma rb_write_back_simps [simp]:
  "rb_write_back (prepend_route b r) = rb_write_back b"
  "rb_write_back (append_route b r) = rb_write_back b"
  "rb_write_back (rb_append b a) = rb_write_back b"
  "rb_write_back (rb_append_t b t s) = rb_write_back b"
  "rb_write_back (rb_prepend b a) = rb_write_back b"
  "rb_write_back (rb_replace b a) = rb_write_back b"
  "rb_write_back (rb_pop_front b) = rb_write_back b"
  "rb_write_back (rb_pop_back b) = rb_write_back b"
  by (simp_all add: prepend_route_def append_route_def fold_push_write_back rb_append_def
      rb_append_t_def rb_prepend_def rb_replace_def rb_pop_front_def rb_pop_back_def)

lemma rb_inner_simps [simp]:
  "rb_inner (rb_append b a) = rb_inner b @ [a]"
  "rb_inner (rb_append_t b t s) = rb_inner b @ [Address t s]"
  "rb_inner (rb_prepend b a) = a # rb_inner b"
  "rb_inner (rb_replace b a) = a # tl (rb_inner b)"
  "rb_inner (rb_pop_front b) = tl (rb_inner b)"
  "rb_inner (rb_pop_back b) = butlast (rb_inner b)"
  "rb_inner (modify r) = addrs r"
  "rb_write_back (modify r) = Some r"
  by (simp_all add: rb_append_def rb_append_t_def rb_prepend_def rb_replace_def rb_pop_front_def
      rb_pop_back_def modify_def Address_from_pair_def)

lemma rb_append_update: "(rb_append b a)\<lparr>rb_inner := xs\<rparr> = b\<lparr>rb_inner := xs\<rparr>"
  by (simp add: rb_append_def)

lemma fold_rb_append: "rb_inner (fold (\<lambda>a r. rb_append r a) xs b) = rb_inner b @ xs"
  by (induction xs arbitrary: b) auto

lemma addrs_Route_create [simp]: "addrs (Route_create xs) = xs"
  by (simp add: Route_create_def Route_from_builder_def fold_rb_append Route_new_def
      RouteBuilder_new_def)

lemma fold_append_route:
  "rb_inner (fold (\<lambda>x r. append_route r x) xs b) = rb_inner b @ concat (map addrs xs)"
  by (induction xs arbitrary: b) auto

lemma addrs_route_macro [simp]: "addrs (route_macro rs) = concat (map addrs rs)"
  by (simp add: route_macro_def Route_from_builder_def fold_append_route Route_new_def
      RouteBuilder_new_def)

lemma drop_modified: "rb_write_back b = Some r \<Longrightarrow> RouteBuilder_drop b = Some (Route (rb_inner b))"
  by (simp add: RouteBuilder_drop_def)

subsection \<open>Searching a route\<close>

lemma sublist_iff_take_drop:
  "sublist ns hs \<longleftrightarrow> (\<exists>i. i + length ns \<le> length hs \<and> take (length ns) (drop i hs) = ns)"
proof
  assume "sublist ns hs"
  then obtain ps ss where "hs = ps @ ns @ ss" by (auto simp: sublist_def)
  then show "\<exists>i. i + length ns \<le> length hs \<and> take (length ns) (drop i hs) = ns"
    by (intro exI [of _ "length ps"]) simp
next
  assume "\<exists>i. i + length ns \<le> length hs \<and> take (length ns) (drop i hs) = ns"
  then obtain i where "take (length ns) (drop i hs) = ns" by blast
  then have "hs = take i hs @ ns @ drop (length ns) (drop i hs)"
    by (metis append_take_drop_id)
  then show "sublist ns hs" by (auto simp: sublist_def)
qed

lemma list_ex_window:
  "n \<le> h \<Longrightarrow> list_ex P [0..<Suc (h - n)] \<longleftrightarrow> (\<exists>i. i + n \<le> h \<and> P i)"
  by (force simp: list_ex_iff simp del: upt_Suc)

text \<open>\<open>contains_route\<close> decides whether the needle is a contiguous part of the route, for every
  pair of routes, and fails exactly on an empty needle.\<close>

theorem contains_route_sublist:
  "contains_route r needle =
     (if addrs needle = [] then Inl (RouteError_into IncompleteRoute)
      else Inr (sublist (addrs needle) (addrs r)))"
proof (cases "length (addrs needle) \<le> length (addrs r)")
  case True
  then show ?thesis
    by (simp add: contains_route_def Route_is_empty_def Route_len_def Let_def
        list_ex_window sublist_iff_take_drop del: upt_Suc)
next
  case False
  then have "\<not> sublist (addrs needle) (addrs r)"
    using sublist_length_le by blast
  with False show ?thesis
    by (simp add: contains_route_def Route_is_empty_def Route_len_def)
qed

subsection \<open>Printing and parsing routes\<close>

lemma whitespace_seqs_not_Nil: "w \<in> set whitespace_seqs \<Longrightarrow> w \<noteq> []"
  by (auto simp: whitespace_seqs_def)

lemma whitespace_seqs_bytes:
  "w \<in> set whitespace_seqs \<Longrightarrow> c \<in> set w \<Longrightarrow> (of_char c :: nat) \<le> 32 \<or> 128 \<le> (of_char c :: nat)"
  by (auto simp: whitespace_seqs_def)

lemma whitespace_not_printable:
  "w \<in> set whitespace_seqs \<Longrightarrow> in_range 33 127 c \<Longrightarrow> c \<notin> set w"
  using whitespace_seqs_bytes [of w c] by (auto simp: in_range_def)

lemma find_space: "find P whitespace_seqs = Some w \<Longrightarrow> w \<in> set whitespace_seqs \<and> P w"
  by (auto simp: find_Some_iff)

lemma trim_start_id: "in_range 33 127 c \<Longrightarrow> trim_start (c # s) = c # s"
proof -
  assume c: "in_range 33 127 c"
  have "find (\<lambda>w. prefix w (c # s)) whitespace_seqs = None"
    using whitespace_not_printable [OF _ c] whitespace_seqs_not_Nil
    by (fastforce simp: find_None_iff prefix_Cons)
  then show ?thesis by (subst trim_start.simps) simp
qed

lemma trim_start_space: "trim_start (CHR '' '' # s) = trim_start s"
  by (subst trim_start.simps) (simp add: whitespace_seqs_def)

lemma trim_end_space: "trim_end (s @ '' '') = trim_end s"
  by (subst trim_end.simps) (simp add: whitespace_seqs_def suffix_to_prefix)

lemma length_trim_end: "length (trim_end s) \<le> length s"
proof (induction s rule: trim_end.induct)
  case (1 s)
  show ?case
    using 1 by (subst trim_end.simps) (force split: option.split)
qed

lemma trim_end_id_iff: "trim_end s = s \<longleftrightarrow> (\<forall>w \<in> set whitespace_seqs. \<not> suffix w s)"
proof (cases "find (\<lambda>w. suffix w s) whitespace_seqs")
  case None
  have "trim_end s = s" by (subst trim_end.simps) (simp add: None)
  moreover have "\<forall>w \<in> set whitespace_seqs. \<not> suffix w s"
    using None by (auto simp: find_None_iff)
  ultimately show ?thesis by blast
next
  case (Some w)
  then have w: "w \<in> set whitespace_seqs" "suffix w s" "w \<noteq> []"
    using find_space whitespace_seqs_not_Nil by blast+
  then have "0 < length w" "length w \<le> length s" by (auto dest: suffix_length_le)
  then have "length (trim_end (take (length s - length w) s)) < length s"
    using length_trim_end [of "take (length s - length w) s"] unfolding length_take by linarith
  moreover have "trim_end s = trim_end (take (length s - length w) s)"
    using Some w by (subst trim_end.simps) simp
  ultimately show ?thesis using w by auto
qed

text \<open>An address text that survives inside a printed route.\<close>

definition route_clean :: "Address \<Rightarrow> bool" where
  "route_clean a = (printable a \<and> \<not> sublist ''=>'' (inner a) \<and> trim_end (inner a) = inner a)"

lemma display_Cons_digit:
  "route_clean a \<Longrightarrow> \<exists>c s. Address_display a = c # s \<and> in_range 33 127 c"
proof -
  assume "route_clean a"
  moreover obtain c s where "show_nat (unat (tt_num (tt a))) = c # s"
    by (cases "show_nat (unat (tt_num (tt a)))") auto
  moreover from this have "in_range 48 57 c"
    using show_nat_in_range [of c "unat (tt_num (tt a))"] by simp
  ultimately show ?thesis
    by (auto simp: route_clean_def Address_display_printable in_range_def)
qed

lemma trim_end_display: "route_clean a \<Longrightarrow> trim_end (Address_display a) = Address_display a"
proof -
  assume a: "route_clean a"
  have hash: "w \<in> set whitespace_seqs \<Longrightarrow> CHR ''#'' \<notin> set w" for w
    by (rule whitespace_not_printable) (simp_all add: in_range_def)
  have "\<not> suffix w (xs @ CHR ''#'' # inner a)" if w: "w \<in> set whitespace_seqs" for w xs
  proof
    assume "suffix w (xs @ CHR ''#'' # inner a)"
    then obtain ys where ys: "ys @ w = xs @ CHR ''#'' # inner a" by (auto simp: suffix_def)
    have "length w \<le> length (inner a)"
    proof (rule ccontr)
      assume "\<not> length w \<le> length (inner a)"
      then have "suffix (CHR ''#'' # inner a) w"
        using ys by (metis Suc_leI length_Cons not_le suffix_appendI suffix_def suffix_length_suffix
            suffix_order.refl)
      with hash [OF w] show False by (auto simp: suffix_def)
    qed
    then have "suffix w (inner a)"
      using ys by (metis append_Cons append_Nil append_assoc suffixI suffix_length_suffix)
    with w a show False by (auto simp: route_clean_def trim_end_id_iff)
  qed
  with a show ?thesis
    by (auto simp: route_clean_def Address_display_printable trim_end_id_iff)
qed

lemma trim_display:
  assumes "route_clean a" "p = [] \<or> p = '' ''" "q = [] \<or> q = '' ''"
  shows "trim (p @ Address_display a @ q) = Address_display a"
proof -
  obtain c s where "Address_display a = c # s" "in_range 33 127 c"
    using display_Cons_digit [OF assms(1)] by blast
  then have "trim_start (p @ Address_display a @ q) = Address_display a @ q"
    using assms(2) by (auto simp: trim_start_id trim_start_space)
  then show ?thesis
    using assms(3) trim_end_display [OF assms(1)] by (auto simp: trim_def trim_end_space)
qed

lemma not_sublist_arrow_Cons:
  "\<not> sublist ''=>'' (c # s) \<Longrightarrow> \<not> prefix ''=>'' (c # s) \<and> \<not> sublist ''=>'' s"
  by (simp add: sublist_Cons_right)

lemma split_go_arrow_hit:
  "\<not> sublist ''=>'' x \<Longrightarrow>
     split_go ''=>'' acc (x @ '' => '' @ s) = (rev acc @ x @ '' '') # split_go ''=>'' [] ('' '' @ s)"
proof (induction x arbitrary: acc)
  case (Cons c x)
  have "\<not> prefix ''=>'' (c # x @ '' => '' @ s)"
    using not_sublist_arrow_Cons [OF Cons.prems] by (cases x) auto
  with Cons not_sublist_arrow_Cons [OF Cons.prems] show ?case by simp
qed simp

lemma split_go_arrow_absent: "\<not> sublist ''=>'' x \<Longrightarrow> split_go ''=>'' acc x = [rev acc @ x]"
proof (induction x arbitrary: acc)
  case (Cons c x)
  with not_sublist_arrow_Cons [OF Cons.prems] show ?case by simp
qed simp

lemma sublist_arrow_append:
  "CHR ''='' \<notin> set xs \<Longrightarrow> sublist ''=>'' (xs @ ys) \<longleftrightarrow> sublist ''=>'' ys"
  by (induction xs) (auto simp: sublist_Cons_right)

lemma no_arrow_display:
  assumes "route_clean a" "p = [] \<or> p = '' ''"
  shows "\<not> sublist ''=>'' (p @ Address_display a)"
proof -
  let ?xs = "p @ show_nat (unat (tt_num (tt a))) @ ''#''"
  have "CHR ''='' \<notin> set ?xs"
    using assms(2) show_nat_in_range [of "CHR ''=''"] by (auto simp: in_range_def)
  moreover have "p @ Address_display a = ?xs @ inner a"
    using assms(1) by (simp add: route_clean_def Address_display_printable)
  ultimately show ?thesis
    using assms(1) sublist_arrow_append [of ?xs "inner a"] by (simp add: route_clean_def)
qed

abbreviation parse_hop :: "RouteBuilder \<Rightarrow> string \<Rightarrow> RouteBuilder exec" where
  "parse_hop \<equiv> \<lambda>r a. result_map (rb_append r) (Address_from_string (trim a))"

lemma parse_hop_display:
  assumes "route_clean a" "p = [] \<or> p = '' ''" "q = [] \<or> q = '' ''"
  shows "parse_hop b (p @ Address_display a @ q) = Inr (rb_append b a)"
  using trim_display [OF assms] assms(1)
  by (simp add: Address_from_string_display route_clean_def)

lemma parse_joined_display:
  assumes "list_all route_clean (a # as)" "p = [] \<or> p = '' ''"
  shows "result_fold parse_hop b
           (split_go ''=>'' [] (p @ join_with '' => '' (map Address_display (a # as))))
         = Inr (b\<lparr>rb_inner := rb_inner b @ a # as\<rparr>)"
  using assms
proof (induction as arbitrary: a p b)
  case Nil
  then show ?case
    using no_arrow_display [of a p] parse_hop_display [of a p "[]" b]
    by (simp add: split_go_arrow_absent)
next
  case (Cons a' as)
  let ?rest = "join_with '' => '' (map Address_display (a' # as))"
  have "split_go ''=>'' [] ((p @ Address_display a) @ '' => '' @ ?rest)
          = (p @ Address_display a @ '' '') # split_go ''=>'' [] ('' '' @ ?rest)"
    using Cons.prems no_arrow_display [of a p] by (subst split_go_arrow_hit) simp_all
  moreover have "parse_hop b (p @ Address_display a @ '' '') = Inr (rb_append b a)"
    using Cons.prems by (intro parse_hop_display) auto
  moreover have "result_fold parse_hop (rb_append b a) (split_go ''=>'' [] ('' '' @ ?rest))
      = Inr ((rb_append b a)\<lparr>rb_inner := rb_inner (rb_append b a) @ a' # as\<rparr>)"
    using Cons.prems by (intro Cons.IH) auto
  ultimately show ?case by (simp add: rb_append_update)
qed



end
