(* ===== verification/Access_Control.thy ===== *)
theory Access_Control
  imports Route
begin

text \<open>
  \<open>ockam_core/src/access_control/\<close> and \<open>routing/mailbox.rs\<close>: the checks a message passes
  before it is sent and before it is handled, and the mailboxes that apply them.  A
  \<open>dyn IncomingAccessControl\<close> or \<open>dyn OutgoingAccessControl\<close> is the function its
  \<open>is_authorized\<close> method computes.
\<close>

type_synonym access_control = "RelayMessage \<Rightarrow> error + bool"

subsection \<open>Access controls\<close>

definition allow :: "error + bool" where
  "allow = Inr True"

definition deny :: "error + bool" where
  "deny = Inr False"

definition AllowAll :: access_control where
  "AllowAll relay_msg = allow"

definition DenyAll :: access_control where
  "DenyAll relay_msg = deny"

fun AllIncomingAccessControl :: "access_control list \<Rightarrow> access_control" where
  "AllIncomingAccessControl [] relay_msg = allow"
| "AllIncomingAccessControl (ac # acs) relay_msg =
     (case ac relay_msg of
        Inl e \<Rightarrow> Inl e
      | Inr authorized \<Rightarrow> if \<not> authorized then deny else AllIncomingAccessControl acs relay_msg)"

fun AllOutgoingAccessControl :: "access_control list \<Rightarrow> access_control" where
  "AllOutgoingAccessControl [] relay_msg = allow"
| "AllOutgoingAccessControl (ac # acs) relay_msg =
     (case ac relay_msg of
        Inl e \<Rightarrow> Inl e
      | Inr authorized \<Rightarrow> if \<not> authorized then deny else AllOutgoingAccessControl acs relay_msg)"

fun AnyIncomingAccessControl :: "access_control list \<Rightarrow> access_control" where
  "AnyIncomingAccessControl [] relay_msg = deny"
| "AnyIncomingAccessControl (ac # acs) relay_msg =
     (case ac relay_msg of
        Inl e \<Rightarrow> Inl e
      | Inr authorized \<Rightarrow> if authorized then allow else AnyIncomingAccessControl acs relay_msg)"

fun AnyOutgoingAccessControl :: "access_control list \<Rightarrow> access_control" where
  "AnyOutgoingAccessControl [] relay_msg = deny"
| "AnyOutgoingAccessControl (ac # acs) relay_msg =
     (case ac relay_msg of
        Inl e \<Rightarrow> Inl e
      | Inr authorized \<Rightarrow> if authorized then allow else AnyOutgoingAccessControl acs relay_msg)"

definition AllowOnwardAddress :: "Address \<Rightarrow> access_control" where
  "AllowOnwardAddress self relay_msg =
     result_bind (Route_next (relay_onward_route relay_msg))
       (\<lambda>next. if self \<noteq> next then deny else allow)"

definition AllowOnwardAddresses :: "Address list \<Rightarrow> access_control" where
  "AllowOnwardAddresses self relay_msg =
     result_bind (Route_next (relay_onward_route relay_msg))
       (\<lambda>next. if next \<notin> set self then deny else allow)"

definition AllowSourceAddress :: "Address \<Rightarrow> access_control" where
  "AllowSourceAddress self relay_msg = (if self = source relay_msg then allow else deny)"

definition AllowSourceAddresses :: "Address list \<Rightarrow> access_control" where
  "AllowSourceAddresses self relay_msg = (if source relay_msg \<in> set self then allow else deny)"

subsection \<open>Mailboxes\<close>

record Mailbox =
  mb_address :: Address
  incoming :: access_control
  outgoing :: access_control

record Mailboxes =
  main_mailbox :: Mailbox
  additional_mailboxes :: "Mailbox list"

definition Mailbox_new :: "Address \<Rightarrow> access_control \<Rightarrow> access_control \<Rightarrow> Mailbox" where
  "Mailbox_new a i out = \<lparr>mb_address = a, incoming = i, outgoing = out\<rparr>"

definition Mailbox_deny_all :: "Address \<Rightarrow> Mailbox" where
  "Mailbox_deny_all a = \<lparr>mb_address = a, incoming = DenyAll, outgoing = DenyAll\<rparr>"

definition Mailboxes_new :: "Mailbox \<Rightarrow> Mailbox list \<Rightarrow> Mailboxes" where
  "Mailboxes_new m ms = \<lparr>main_mailbox = m, additional_mailboxes = ms\<rparr>"

definition Mailboxes_main :: "Address \<Rightarrow> access_control \<Rightarrow> access_control \<Rightarrow> Mailboxes" where
  "Mailboxes_main a i out =
     \<lparr>main_mailbox = Mailbox_new a i out, additional_mailboxes = []\<rparr>"

definition additional_addresses :: "Mailboxes \<Rightarrow> Address list" where
  "additional_addresses self = map mb_address (additional_mailboxes self)"

definition main_address :: "Mailboxes \<Rightarrow> Address" where
  "main_address self = mb_address (main_mailbox self)"

definition Mailboxes_contains :: "Mailboxes \<Rightarrow> Address \<Rightarrow> bool" where
  "Mailboxes_contains self msg_addr =
     (if mb_address (main_mailbox self) = msg_addr then True
      else list_ex (\<lambda>x. mb_address x = msg_addr) (additional_mailboxes self))"

definition find_mailbox :: "Mailboxes \<Rightarrow> Address \<Rightarrow> Mailbox option" where
  "find_mailbox self msg_addr =
     (if mb_address (main_mailbox self) = msg_addr then Some (main_mailbox self)
      else find (\<lambda>x. mb_address x = msg_addr) (additional_mailboxes self))"

definition is_incoming_authorized :: "Mailboxes \<Rightarrow> access_control" where
  "is_incoming_authorized self relay_msg =
     (case find_mailbox self (destination relay_msg) of
        Some mailbox \<Rightarrow> incoming mailbox relay_msg
      | None \<Rightarrow> deny)"

definition is_outgoing_authorized :: "Mailboxes \<Rightarrow> access_control" where
  "is_outgoing_authorized self relay_msg =
     (case find_mailbox self (source relay_msg) of
        Some mailbox \<Rightarrow> outgoing mailbox relay_msg
      | None \<Rightarrow> deny)"

definition Mailboxes_addresses :: "Mailboxes \<Rightarrow> Address list" where
  "Mailboxes_addresses self = [mb_address (main_mailbox self)] @ additional_addresses self"

subsection \<open>Combining checks\<close>

lemma Route_next_eq_Inr_iff: "Route_next r = Inr a \<longleftrightarrow> (\<exists>as. addrs r = a # as)"
  by (auto simp: Route_next_def split: list.splits)

lemma Route_next_eq_Inl_iff: "Route_next r = Inl e \<longleftrightarrow> addrs r = [] \<and> e = RouteError_into IncompleteRoute"
  by (auto simp: Route_next_def split: list.splits)

lemma All_eq: "AllOutgoingAccessControl acs m = AllIncomingAccessControl acs m"
  by (induction acs) (auto split: sum.split)

lemma Any_eq: "AnyOutgoingAccessControl acs m = AnyIncomingAccessControl acs m"
  by (induction acs) (auto split: sum.split)

lemma All_allows_iff: "AllIncomingAccessControl acs m = Inr True \<longleftrightarrow> (\<forall>ac \<in> set acs. ac m = Inr True)"
  by (induction acs) (auto simp: allow_def deny_def split: sum.split)

lemma All_eq_find:
  "AllIncomingAccessControl acs m
     = (case find (\<lambda>ac. ac m \<noteq> Inr True) acs of None \<Rightarrow> Inr True | Some ac \<Rightarrow> ac m)"
  by (induction acs) (auto simp: allow_def deny_def split: sum.split)

lemma Any_eq_find:
  "AnyIncomingAccessControl acs m
     = (case find (\<lambda>ac. ac m \<noteq> Inr False) acs of None \<Rightarrow> Inr False | Some ac \<Rightarrow> ac m)"
  by (induction acs) (auto simp: allow_def deny_def split: sum.split)

text \<open>the combinators are conjunction and disjunction with early exit: \<open>All\<close> lets a message
  through exactly when every control allows it, and otherwise answers what the first control that
  did not allow it answered (its denial or its error); \<open>Any\<close> answers what the first control that
  did not deny answered, and denies when there is none.\<close>

theorem combined_access_controls:
  "(AllIncomingAccessControl acs m = Inr True \<longleftrightarrow> list_all (\<lambda>ac. ac m = Inr True) acs)
   \<and> AllIncomingAccessControl acs m
       = (case find (\<lambda>ac. ac m \<noteq> Inr True) acs of None \<Rightarrow> Inr True | Some ac \<Rightarrow> ac m)
   \<and> AnyIncomingAccessControl acs m
       = (case find (\<lambda>ac. ac m \<noteq> Inr False) acs of None \<Rightarrow> Inr False | Some ac \<Rightarrow> ac m)
   \<and> AllOutgoingAccessControl acs m = AllIncomingAccessControl acs m
   \<and> AnyOutgoingAccessControl acs m = AnyIncomingAccessControl acs m"
  unfolding All_eq Any_eq All_allows_iff list_all_iff
  by (intro conjI refl All_eq_find Any_eq_find)

subsection \<open>Controls on the next hop\<close>

text \<open>The contract of the outgoing controls that look only at the first hop of the onward route.\<close>

locale next_hop_control =
  fixes control :: access_control
    and permitted :: "Address \<Rightarrow> bool"
  assumes control_eq:
    "control m = result_bind (Route_next (relay_onward_route m)) (\<lambda>a. Inr (permitted a))"
begin

lemma control_True_iff:
  "control m = Inr True \<longleftrightarrow> (\<exists>a as. addrs (relay_onward_route m) = a # as \<and> permitted a)"
  by (auto simp: control_eq result_bind_eq_Inr_iff Route_next_eq_Inr_iff)

lemma control_error_iff:
  "control m = Inl e \<longleftrightarrow> addrs (relay_onward_route m) = [] \<and> e = RouteError_into IncompleteRoute"
  by (cases "addrs (relay_onward_route m)") (auto simp: control_eq Route_next_def)

lemma control_cong:
  "Route_next (relay_onward_route m) = Route_next (relay_onward_route m') \<Longrightarrow> control m = control m'"
  by (simp add: control_eq)

end

locale two_next_hop_controls = a: next_hop_control control permitted
    + b: next_hop_control control' permitted'
  for control permitted control' permitted'
begin

lemma all_next_hop:
  "next_hop_control (AllOutgoingAccessControl [control, control']) (\<lambda>x. permitted x \<and> permitted' x)"
  by standard (auto simp: a.control_eq b.control_eq result_bind_def allow_def deny_def split: sum.split)

lemma any_next_hop:
  "next_hop_control (AnyOutgoingAccessControl [control, control']) (\<lambda>x. permitted x \<or> permitted' x)"
  by standard (auto simp: a.control_eq b.control_eq result_bind_def allow_def deny_def split: sum.split)

end

interpretation allow_onward: next_hop_control "AllowOnwardAddress x" "\<lambda>a. a = x" for x
  by standard (auto simp: AllowOnwardAddress_def result_bind_def allow_def deny_def split: sum.split)

interpretation allow_onwards: next_hop_control "AllowOnwardAddresses xs" "\<lambda>a. a \<in> set xs" for xs
  by standard (auto simp: AllowOnwardAddresses_def result_bind_def allow_def deny_def split: sum.split)

interpretation onward_pair:
  two_next_hop_controls "AllowOnwardAddress x" "\<lambda>a. a = x" "AllowOnwardAddresses xs" "\<lambda>a. a \<in> set xs"
  for x xs
  by standard

text \<open>An outgoing control on onward addresses looks at the next hop only: it allows a message
  exactly when its onward route starts with a permitted address, whatever the later hops, the
  return route, the payload and the local information are, and it fails exactly on an empty route.\<close>

theorem onward_control_next_hop:
  "(AllowOnwardAddresses xs m = Inr True
      \<longleftrightarrow> (\<exists>a as. addrs (relay_onward_route m) = a # as \<and> a \<in> set xs))
   \<and> (AllowOnwardAddresses xs m = Inl e
      \<longleftrightarrow> addrs (relay_onward_route m) = [] \<and> e = RouteError_into IncompleteRoute)
   \<and> (AnyOutgoingAccessControl [AllowOnwardAddress x, AllowOnwardAddresses xs] m = Inr True
      \<longleftrightarrow> (\<exists>a as. addrs (relay_onward_route m) = a # as \<and> (a = x \<or> a \<in> set xs)))"
  by (intro conjI allow_onwards.control_True_iff allow_onwards.control_error_iff
      next_hop_control.control_True_iff [OF onward_pair.any_next_hop])

subsection \<open>Mailbox dispatch\<close>

lemma find_mailbox_Some:
  "find_mailbox mbs a = Some mb \<Longrightarrow> mb_address mb = a \<and> mb \<in> set (main_mailbox mbs # additional_mailboxes mbs)"
  by (auto simp: find_mailbox_def find_Some_iff split: if_splits)

lemma find_mailbox_None_iff: "find_mailbox mbs a = None \<longleftrightarrow> a \<notin> set (Mailboxes_addresses mbs)"
  by (auto simp: find_mailbox_def find_None_iff Mailboxes_addresses_def additional_addresses_def)

lemma Mailboxes_contains_iff: "Mailboxes_contains mbs a \<longleftrightarrow> a \<in> set (Mailboxes_addresses mbs)"
  by (auto simp: Mailboxes_contains_def Mailboxes_addresses_def additional_addresses_def list_ex_iff)

lemma incoming_authorized:
  assumes "is_incoming_authorized mbs m = Inr True"
  shows "\<exists>mb. mb \<in> set (main_mailbox mbs # additional_mailboxes mbs)
            \<and> mb_address mb = destination m \<and> incoming mb m = Inr True"
proof (cases "find_mailbox mbs (destination m)")
  case (Some mb)
  with assms show ?thesis
    by (intro exI [of _ mb]) (use find_mailbox_Some [OF Some] in \<open>simp add: is_incoming_authorized_def\<close>)
qed (use assms in \<open>simp add: is_incoming_authorized_def deny_def\<close>)

lemma outgoing_authorized:
  assumes "is_outgoing_authorized mbs m = Inr True"
  shows "\<exists>mb. mb \<in> set (main_mailbox mbs # additional_mailboxes mbs)
            \<and> mb_address mb = source m \<and> outgoing mb m = Inr True"
proof (cases "find_mailbox mbs (source m)")
  case (Some mb)
  with assms show ?thesis
    by (intro exI [of _ mb]) (use find_mailbox_Some [OF Some] in \<open>simp add: is_outgoing_authorized_def\<close>)
qed (use assms in \<open>simp add: is_outgoing_authorized_def deny_def\<close>)

lemma incoming_denied:
  "destination m \<notin> set (Mailboxes_addresses mbs) \<Longrightarrow> is_incoming_authorized mbs m = Inr False"
  by (simp add: is_incoming_authorized_def deny_def flip: find_mailbox_None_iff)

lemma outgoing_denied:
  "source m \<notin> set (Mailboxes_addresses mbs) \<Longrightarrow> is_outgoing_authorized mbs m = Inr False"
  by (simp add: is_outgoing_authorized_def deny_def flip: find_mailbox_None_iff)

text \<open>C26: a message is accepted only through a mailbox of the worker: if it is authorized to come
  in, its destination is an address of the mailboxes and the control of the mailbox with that
  address has allowed it; likewise for the source of an outgoing message; and a message for an
  address the mailboxes do not contain is denied without an error.\<close>

theorem mailbox_authorization:
  "(is_incoming_authorized mbs m = Inr True
      \<longrightarrow> (\<exists>mb. mb \<in> set (main_mailbox mbs # additional_mailboxes mbs)
               \<and> mb_address mb = destination m \<and> incoming mb m = Inr True))
   \<and> (is_outgoing_authorized mbs m = Inr True
      \<longrightarrow> (\<exists>mb. mb \<in> set (main_mailbox mbs # additional_mailboxes mbs)
               \<and> mb_address mb = source m \<and> outgoing mb m = Inr True))
   \<and> (\<not> Mailboxes_contains mbs (destination m) \<longrightarrow> is_incoming_authorized mbs m = Inr False)
   \<and> (\<not> Mailboxes_contains mbs (source m) \<longrightarrow> is_outgoing_authorized mbs m = Inr False)"
  unfolding Mailboxes_contains_iff
  by (intro conjI impI incoming_authorized outgoing_authorized incoming_denied outgoing_denied)

theorem mailbox_authorization_witness:
  "let a = Address LOCAL ''a''; b = Address LOCAL ''b'';
       msg = RelayMessage_new b a (LocalMessage_new (TransportMessage_v1 (Route [a]) (Route [b]) []) []);
       mbs = Mailboxes_main a (AllowSourceAddress b) DenyAll
   in is_incoming_authorized mbs msg = Inr True
     \<and> (\<exists>mb :: Mailbox. mb_address mb = a \<and> incoming mb msg = Inr True)
     \<and> is_outgoing_authorized mbs msg = Inr False"
proof -
  let ?a = "Address LOCAL ''a''" and ?b = "Address LOCAL ''b''"
  let ?msg = "RelayMessage_new ?b ?a (LocalMessage_new (TransportMessage_v1 (Route [?a]) (Route [?b]) []) [])"
  let ?mbs = "Mailboxes_main ?a (AllowSourceAddress ?b) DenyAll"
  have inc: "is_incoming_authorized ?mbs ?msg = Inr True" and dst: "destination ?msg = ?a"
    and src: "source ?msg = ?b"
    by (simp_all add: is_incoming_authorized_def find_mailbox_def
        Mailboxes_main_def Mailbox_new_def AllowSourceAddress_def allow_def RelayMessage_new_def)
  have "\<not> Mailboxes_contains ?mbs (source ?msg)"
    by (simp add: src Mailboxes_contains_def Mailboxes_main_def Mailbox_new_def)
  then have out: "is_outgoing_authorized ?mbs ?msg = Inr False"
    by (rule mailbox_authorization [THEN conjunct2, THEN conjunct2, THEN conjunct2, THEN mp])
  have "\<exists>mb :: Mailbox. mb_address mb = destination ?msg \<and> incoming mb ?msg = Inr True"
    using mailbox_authorization [THEN conjunct1, THEN mp, OF inc] by blast
  with inc out dst show ?thesis unfolding Let_def by simp
qed

end
