(* ===== verification/Flow_Control.thy ===== *)
theory Flow_Control
  imports Access_Control
begin

text \<open>
  \<open>ockam_core/src/flow_control/\<close>: which addresses a producer may send messages to.  The
  state is the four maps of \<open>FlowControls\<close>; each method that takes a write lock is one
  definition from state to state.  \<open>fc_reachable\<close> is the set of states the public operations
  produce from \<open>FlowControls::new\<close>.
\<close>

subsection \<open>Data\<close>

datatype FlowControlId = FlowControlId (fc_id: string)

instantiation FlowControlId :: linorder
begin

definition less_eq_FlowControlId :: "FlowControlId \<Rightarrow> FlowControlId \<Rightarrow> bool" where
  "less_eq_FlowControlId a b \<longleftrightarrow> fc_id a \<le> fc_id b"

definition less_FlowControlId :: "FlowControlId \<Rightarrow> FlowControlId \<Rightarrow> bool" where
  "less_FlowControlId a b \<longleftrightarrow> fc_id a < fc_id b"

instance
  by standard (auto simp: less_eq_FlowControlId_def less_FlowControlId_def FlowControlId.expand)

end

type_synonym ConsumersInfo = "Address btree_set"

record ProducerInfo =
  flow_control_id :: FlowControlId
  spawner_flow_control_id :: "FlowControlId option"

record FlowControls =
  consumers :: "(FlowControlId, ConsumersInfo) btree_map"
  producers :: "(Address, ProducerInfo) btree_map"
  producers_additional_addresses :: "(Address, Address) btree_map"
  spawners :: "(Address, FlowControlId) btree_map"

record FlowControlOutgoingAccessControl =
  ac_flow_controls :: FlowControls
  ac_flow_control_id :: FlowControlId
  ac_spawner_flow_control_id :: "FlowControlId option"

subsection \<open>Operations\<close>

definition FlowControls_new :: FlowControls where
  "FlowControls_new =
     \<lparr>consumers = [], producers = [], producers_additional_addresses = [], spawners = []\<rparr>"

definition unwrap_or_default :: "'a list option \<Rightarrow> 'a list" where
  "unwrap_or_default x = (case x of None \<Rightarrow> [] | Some v \<Rightarrow> v)"

definition add_consumer :: "FlowControls \<Rightarrow> Address \<Rightarrow> FlowControlId \<Rightarrow> FlowControls" where
  "add_consumer self a fid =
     (let cs = consumers self;
          cs1 = (if \<not> bt_contains_key cs fid then bt_insert fid [] cs else cs);
          info = unwrap_or_default (bt_get cs1 fid)
      in self\<lparr>consumers := bt_insert fid (bs_insert a info) cs1\<rparr>)"

definition add_producer ::
  "FlowControls \<Rightarrow> Address \<Rightarrow> FlowControlId \<Rightarrow> FlowControlId option \<Rightarrow> Address list \<Rightarrow> FlowControls" where
  "add_producer self a fid sid additional =
     (let info = \<lparr>flow_control_id = fid, spawner_flow_control_id = sid\<rparr>;
          self1 = self\<lparr>producers := bt_insert a info (producers self)\<rparr>;
          pa = bt_insert a a (producers_additional_addresses self1)
      in self1\<lparr>producers_additional_addresses := fold (\<lambda>x m. bt_insert x a m) additional pa\<rparr>)"

definition add_spawner :: "FlowControls \<Rightarrow> Address \<Rightarrow> FlowControlId \<Rightarrow> FlowControls" where
  "add_spawner self a fid = self\<lparr>spawners := bt_insert a fid (spawners self)\<rparr>"

definition get_consumers_info :: "FlowControls \<Rightarrow> FlowControlId \<Rightarrow> ConsumersInfo" where
  "get_consumers_info self fid = unwrap_or_default (bt_get (consumers self) fid)"

definition get_flow_control_with_spawner :: "FlowControls \<Rightarrow> Address \<Rightarrow> FlowControlId option" where
  "get_flow_control_with_spawner self a = bt_get (spawners self) a"

definition get_flow_control_with_producer :: "FlowControls \<Rightarrow> Address \<Rightarrow> ProducerInfo option" where
  "get_flow_control_with_producer self a = bt_get (producers self) a"

definition find_flow_control_with_producer_address ::
  "FlowControls \<Rightarrow> Address \<Rightarrow> ProducerInfo option" where
  "find_flow_control_with_producer_address self a =
     (case bt_get (producers_additional_addresses self) a of
        None \<Rightarrow> None
      | Some producer_address \<Rightarrow> bt_get (producers self) producer_address)"

definition get_flow_controls_with_consumer :: "FlowControls \<Rightarrow> Address \<Rightarrow> FlowControlId list" where
  "get_flow_controls_with_consumer self a =
     List.map_filter (\<lambda>(fid, info). if bs_contains info a then Some fid else None) (consumers self)"

subsection \<open>Cleanup\<close>

definition cleanup_spawner :: "FlowControls \<Rightarrow> Address \<Rightarrow> FlowControls" where
  "cleanup_spawner self a =
     (case bt_get (spawners self) a of
        None \<Rightarrow> self
      | Some fid \<Rightarrow>
        let self1 = self\<lparr>spawners := bt_remove a (spawners self)\<rparr>;
            spawners_exist = list_ex (\<lambda>p. snd p = fid) (spawners self1)
        in if spawners_exist then self1
           else
             let producers_exist =
                   list_ex (\<lambda>p. case spawner_flow_control_id (snd p) of
                                  None \<Rightarrow> False | Some i \<Rightarrow> i = fid) (producers self1)
             in if producers_exist then self1
                else self1\<lparr>consumers := bt_remove fid (consumers self1)\<rparr>)"

definition cleanup_producers_spawner :: "FlowControls \<Rightarrow> FlowControlId \<Rightarrow> FlowControls" where
  "cleanup_producers_spawner self fid =
     (let spawner_exists = list_ex (\<lambda>p. snd p = fid) (spawners self)
      in if spawner_exists then self
         else
           let other_producers_exist =
                 list_ex (\<lambda>p. case spawner_flow_control_id (snd p) of
                                None \<Rightarrow> False | Some i \<Rightarrow> i = fid) (producers self)
           in if other_producers_exist then self
              else self\<lparr>consumers := bt_remove fid (consumers self)\<rparr>)"

definition cleanup_producer :: "FlowControls \<Rightarrow> Address \<Rightarrow> FlowControls" where
  "cleanup_producer self a =
     (case bt_get (producers self) a of
        None \<Rightarrow> self
      | Some info \<Rightarrow>
        let self1 = self\<lparr>producers := bt_remove a (producers self)\<rparr>;
            self2 = self1\<lparr>producers_additional_addresses :=
                            bt_retain (\<lambda>_ main. main \<noteq> a) (producers_additional_addresses self1)\<rparr>;
            self3 = (case spawner_flow_control_id info of
                       Some sid \<Rightarrow> cleanup_producers_spawner self2 sid
                     | None \<Rightarrow> self2);
            fid = flow_control_id info;
            other_producers_exist = list_ex (\<lambda>p. flow_control_id (snd p) = fid) (producers self3)
        in if other_producers_exist then self3
           else self3\<lparr>consumers := bt_remove fid (consumers self3)\<rparr>)"

definition cleanup_consumer :: "FlowControls \<Rightarrow> Address \<Rightarrow> FlowControls" where
  "cleanup_consumer self a =
     (let cs1 = bt_map_values (bs_remove a) (consumers self);
          cs2 = bt_retain (\<lambda>_ info. info \<noteq> []) cs1;
          cs3 = bt_map_values (bs_remove a) cs2;
          cs4 = bt_retain (\<lambda>_ info. info \<noteq> []) cs3
      in self\<lparr>consumers := cs4\<rparr>)"

definition cleanup_address :: "FlowControls \<Rightarrow> Address \<Rightarrow> FlowControls" where
  "cleanup_address self a =
     cleanup_consumer (cleanup_producer (cleanup_spawner self a) a) a"

subsection \<open>The outgoing access control\<close>

definition is_consumer :: "FlowControlOutgoingAccessControl \<Rightarrow> Address \<Rightarrow> FlowControlId \<Rightarrow> bool" where
  "is_consumer self nxt fid = bs_contains (get_consumers_info (ac_flow_controls self) fid) nxt"

definition FlowControl_is_authorized :: "FlowControlOutgoingAccessControl \<Rightarrow> access_control" where
  "FlowControl_is_authorized self relay_msg =
     result_bind (Route_next (relay_onward_route relay_msg))
       (\<lambda>nxt. if is_consumer self nxt (ac_flow_control_id self) then allow
              else case ac_spawner_flow_control_id self of
                     Some sid \<Rightarrow> if is_consumer self nxt sid then allow else deny
                   | None \<Rightarrow> deny)"

subsection \<open>Reachable states\<close>

datatype fc_op =
    AddConsumer Address FlowControlId
  | AddProducer Address FlowControlId "FlowControlId option" "Address list"
  | AddSpawner Address FlowControlId
  | CleanupAddress Address

fun fc_exec :: "FlowControls \<Rightarrow> fc_op \<Rightarrow> FlowControls" where
  "fc_exec fc (AddConsumer a fid) = add_consumer fc a fid"
| "fc_exec fc (AddProducer a fid sid as) = add_producer fc a fid sid as"
| "fc_exec fc (AddSpawner a fid) = add_spawner fc a fid"
| "fc_exec fc (CleanupAddress a) = cleanup_address fc a"

inductive fc_reachable :: "FlowControls \<Rightarrow> bool" where
  fc_init: "fc_reachable FlowControls_new"
| fc_step: "fc_reachable fc \<Longrightarrow> fc_reachable (fc_exec fc op)"

definition fc_wf :: "FlowControls \<Rightarrow> bool" where
  "fc_wf fc \<longleftrightarrow> bt_wf (consumers fc) \<and> bt_wf (producers fc)
     \<and> bt_wf (producers_additional_addresses fc) \<and> bt_wf (spawners fc)
     \<and> list_all (\<lambda>(_, info). info \<noteq> [] \<and> sorted_wrt (<) info) (consumers fc)
     \<and> list_all (\<lambda>(_, main). bt_contains_key (producers fc) main) (producers_additional_addresses fc)"

subsection \<open>The effect of each operation\<close>

abbreviation spawner_of :: "FlowControls \<Rightarrow> FlowControlId \<Rightarrow> bool" where
  "spawner_of fc fid \<equiv> list_ex (\<lambda>p. snd p = fid) (spawners fc)"

abbreviation spawned_by :: "FlowControls \<Rightarrow> FlowControlId \<Rightarrow> bool" where
  "spawned_by fc fid \<equiv> list_ex (\<lambda>p. case spawner_flow_control_id (snd p) of
      None \<Rightarrow> False | Some i \<Rightarrow> i = fid) (producers fc)"

abbreviation produced_by :: "FlowControls \<Rightarrow> FlowControlId \<Rightarrow> bool" where
  "produced_by fc fid \<equiv> list_ex (\<lambda>p. flow_control_id (snd p) = fid) (producers fc)"

lemma cleanup_spawner_sel [simp]:
  "spawners (cleanup_spawner fc a) = bt_remove a (spawners fc)"
  "producers (cleanup_spawner fc a) = producers fc"
  "producers_additional_addresses (cleanup_spawner fc a) = producers_additional_addresses fc"
  by (simp_all add: cleanup_spawner_def bt_remove_absent Let_def split: option.split)

lemma cleanup_producers_spawner_sel [simp]:
  "spawners (cleanup_producers_spawner fc fid) = spawners fc"
  "producers (cleanup_producers_spawner fc fid) = producers fc"
  "producers_additional_addresses (cleanup_producers_spawner fc fid)
     = producers_additional_addresses fc"
  by (simp_all add: cleanup_producers_spawner_def Let_def)

lemma cleanup_producer_sel [simp]:
  "spawners (cleanup_producer fc a) = spawners fc"
  "producers (cleanup_producer fc a) = bt_remove a (producers fc)"
  by (simp_all add: cleanup_producer_def bt_remove_absent Let_def split: option.split)

lemma cleanup_consumer_sel [simp]:
  "spawners (cleanup_consumer fc a) = spawners fc"
  "producers (cleanup_consumer fc a) = producers fc"
  "producers_additional_addresses (cleanup_consumer fc a) = producers_additional_addresses fc"
  by (simp_all add: cleanup_consumer_def Let_def)

lemma cleanup_address_sel [simp]:
  "spawners (cleanup_address fc a) = bt_remove a (spawners fc)"
  "producers (cleanup_address fc a) = bt_remove a (producers fc)"
  by (simp_all add: cleanup_address_def)

lemma bt_get_cleanup_consumer:
  assumes "bt_wf (consumers fc)"
  shows "bt_get (consumers (cleanup_consumer fc a)) fid =
    (case bt_get (consumers fc) fid of
       None \<Rightarrow> None | Some s \<Rightarrow> if bs_remove a s = [] then None else Some (bs_remove a s))"
  using assms
  by (simp add: cleanup_consumer_def Let_def bt_simps wf_intros split: option.split)

lemma get_consumers_info_cleanup_consumer:
  "bt_wf (consumers fc) \<Longrightarrow>
     get_consumers_info (cleanup_consumer fc a) fid = bs_remove a (get_consumers_info fc fid)"
  by (simp add: get_consumers_info_def unwrap_or_default_def bt_get_cleanup_consumer
      bs_remove_def split: option.split)

lemma get_consumers_info_add_consumer:
  "get_consumers_info (add_consumer fc a fid) fid'
     = (if fid' = fid then bs_insert a (get_consumers_info fc fid) else get_consumers_info fc fid')"
  by (auto simp: get_consumers_info_def unwrap_or_default_def add_consumer_def bt_simps Let_def
      split: option.split)

lemma get_consumers_info_other_ops [simp]:
  "get_consumers_info (add_producer fc a fid sid as) fid' = get_consumers_info fc fid'"
  "get_consumers_info (add_spawner fc a fid) fid' = get_consumers_info fc fid'"
  by (simp_all add: get_consumers_info_def add_producer_def add_spawner_def Let_def)

subsection \<open>The invariant\<close>

abbreviation consumers_ok :: "(FlowControlId, ConsumersInfo) btree_map \<Rightarrow> bool" where
  "consumers_ok m \<equiv> bt_wf m \<and> list_all (\<lambda>(_, info). info \<noteq> [] \<and> sorted_wrt (<) info) m"

lemma bs_insert_not_Nil [simp]: "bs_insert x s \<noteq> []"
  by (cases s) auto

lemma consumers_ok_get: "consumers_ok m \<Longrightarrow> bt_get m fid = Some s \<Longrightarrow> s \<noteq> [] \<and> sorted_wrt (<) s"
  by (auto simp: list_all_iff dest!: bt_get_SomeD)

lemma consumers_ok_remove: "consumers_ok m \<Longrightarrow> consumers_ok (bt_remove fid m)"
  by (simp add: wf_intros)

lemma fc_wf_new [wf_intros]: "fc_wf FlowControls_new"
  by (simp add: fc_wf_def FlowControls_new_def)

lemma fc_wf_add_consumer [wf_intros]: "fc_wf fc \<Longrightarrow> fc_wf (add_consumer fc a fid)"
proof -
  assume fc: "fc_wf fc"
  let ?cs = "consumers fc"
  let ?cs1 = "if \<not> bt_contains_key ?cs fid then bt_insert fid [] ?cs else ?cs"
  let ?info = "unwrap_or_default (bt_get ?cs1 fid)"
  have "sorted_wrt (<) ?info"
  proof (cases "bt_get ?cs fid")
    case (Some s)
    then have "sorted_wrt (<) s" using fc consumers_ok_get [OF _ Some] by (simp add: fc_wf_def)
    with Some show ?thesis by (simp add: unwrap_or_default_def bt_simps)
  qed (simp add: unwrap_or_default_def bt_simps)
  moreover have "bt_insert fid (bs_insert a ?info) ?cs1 = bt_insert fid (bs_insert a ?info) ?cs"
    using fc by (simp add: fc_wf_def bt.insert_insert_same)
  ultimately show ?thesis
    using fc by (simp add: fc_wf_def add_consumer_def Let_def wf_intros)
qed

lemma bt_wf_fold_insert: "bt_wf m \<Longrightarrow> bt_wf (fold (\<lambda>x m. bt_insert x a m) xs m)"
  by (induction xs arbitrary: m) (auto intro: wf_intros)

lemma list_all_fold_insert:
  "list_all P m \<Longrightarrow> (\<And>x. P (x, a)) \<Longrightarrow> list_all P (fold (\<lambda>x m. bt_insert x a m) xs m)"
  by (induction xs arbitrary: m) (auto intro: wf_intros)

lemma fc_wf_add_producer [wf_intros]:
  assumes "fc_wf fc"
  shows "fc_wf (add_producer fc a fid sid as)"
proof -
  let ?ps = "bt_insert a \<lparr>flow_control_id = fid, spawner_flow_control_id = sid\<rparr> (producers fc)"
  let ?P = "\<lambda>(_ :: Address, main). bt_contains_key ?ps main"
  have "list_all ?P (producers_additional_addresses fc)"
    using assms by (auto simp: fc_wf_def list_all_iff bt_simps)
  then have "list_all ?P (fold (\<lambda>x m. bt_insert x a m) as
      (bt_insert a a (producers_additional_addresses fc)))"
    by (intro list_all_fold_insert wf_intros) (simp_all add: bt_simps)
  with assms show ?thesis
    by (simp add: fc_wf_def add_producer_def Let_def bt_wf_fold_insert wf_intros)
qed

lemma fc_wf_add_spawner [wf_intros]: "fc_wf fc \<Longrightarrow> fc_wf (add_spawner fc a fid)"
  by (simp add: fc_wf_def add_spawner_def wf_intros)

lemma fc_wf_cleanup_spawner [wf_intros]: "fc_wf fc \<Longrightarrow> fc_wf (cleanup_spawner fc a)"
  by (simp add: fc_wf_def cleanup_spawner_def Let_def wf_intros split: option.split)

lemma consumers_ok_cleanup_producers_spawner:
  "consumers_ok (consumers fc) \<Longrightarrow> consumers_ok (consumers (cleanup_producers_spawner fc fid))"
  by (simp add: cleanup_producers_spawner_def Let_def wf_intros)

lemma consumers_ok_cleanup_producer:
  "consumers_ok (consumers fc) \<Longrightarrow> consumers_ok (consumers (cleanup_producer fc a))"
  using consumers_ok_cleanup_producers_spawner
    [of "fc\<lparr>producers := ps, producers_additional_addresses := pa\<rparr>" for ps pa]
  by (simp add: cleanup_producer_def Let_def wf_intros split: option.split)

lemma additional_cleanup_producer:
  assumes "fc_wf fc"
  shows "producers_additional_addresses (cleanup_producer fc a)
           = bt_retain (\<lambda>_ main. main \<noteq> a) (producers_additional_addresses fc)"
proof (cases "bt_get (producers fc) a")
  case None
  then have "list_all (\<lambda>p. snd p \<noteq> a) (producers_additional_addresses fc)"
    using assms by (auto simp: fc_wf_def list_all_iff bt_simps)
  with None show ?thesis
    by (simp add: cleanup_producer_def bt_retain_def filter_id_conv list_all_iff)
qed (simp add: cleanup_producer_def Let_def split: option.split)

lemma fc_wf_cleanup_producer [wf_intros]:
  assumes "fc_wf fc"
  shows "fc_wf (cleanup_producer fc a)"
proof -
  have "list_all (\<lambda>(_, main). bt_contains_key (bt_remove a (producers fc)) main)
      (bt_retain (\<lambda>_ main. main \<noteq> a) (producers_additional_addresses fc))"
    using assms by (auto simp: fc_wf_def list_all_iff set_bt_retain bt_simps)
  with assms show ?thesis
    using consumers_ok_cleanup_producer [of fc a]
    by (simp add: fc_wf_def additional_cleanup_producer [OF assms] wf_intros)
qed

lemma fc_wf_cleanup_consumer [wf_intros]:
  assumes "fc_wf fc"
  shows "fc_wf (cleanup_consumer fc a)"
proof -
  have "list_all (\<lambda>(_, info). info \<noteq> [] \<and> sorted_wrt (<) info) (consumers (cleanup_consumer fc a))"
    using assms
    by (auto simp: fc_wf_def cleanup_consumer_def Let_def list_all_iff set_bt_retain
        set_bt_map_values intro!: sorted_bs_remove)
  with assms show ?thesis
    by (simp add: fc_wf_def) (simp add: cleanup_consumer_def Let_def wf_intros)
qed

lemma fc_wf_cleanup_address [wf_intros]: "fc_wf fc \<Longrightarrow> fc_wf (cleanup_address fc a)"
  by (simp add: cleanup_address_def wf_intros)

lemma fc_wf_exec [wf_intros]: "fc_wf fc \<Longrightarrow> fc_wf (fc_exec fc op)"
  by (cases op) (simp_all add: wf_intros)

lemma fc_reachable_wf: "fc_reachable fc \<Longrightarrow> fc_wf fc"
  by (induction rule: fc_reachable.induct) (auto intro: wf_intros)

lemma fc_reachable_fold: "fc_reachable fc \<Longrightarrow> fc_reachable (fold (\<lambda>op s. fc_exec s op) ops fc)"
  by (induction ops arbitrary: fc) (auto intro: fc_step)

lemma fc_wf_fold_cleanup: "fc_wf fc \<Longrightarrow> fc_wf (fold (\<lambda>a s. cleanup_address s a) as fc)"
  by (induction as arbitrary: fc) (auto intro: wf_intros)

subsection \<open>What cleanup removes\<close>

text \<open>When the consumers of a flow control are forgotten altogether: the address was the last
  spawner of it and no producer spawned by it is left, or it was the last producer spawned by it
  and no spawner is left, or it was the last producer of it.\<close>

definition consumers_dropped :: "FlowControls \<Rightarrow> Address \<Rightarrow> FlowControlId \<Rightarrow> bool" where
  "consumers_dropped fc a fid \<longleftrightarrow>
     (bt_get (spawners fc) a = Some fid
        \<and> \<not> list_ex (\<lambda>p. fst p \<noteq> a \<and> snd p = fid) (spawners fc)
        \<and> \<not> list_ex (\<lambda>p. spawner_flow_control_id (snd p) = Some fid) (producers fc))
   \<or> (case bt_get (producers fc) a of
        None \<Rightarrow> False
      | Some info \<Rightarrow>
          (spawner_flow_control_id info = Some fid
             \<and> \<not> list_ex (\<lambda>p. fst p \<noteq> a \<and> snd p = fid) (spawners fc)
             \<and> \<not> list_ex (\<lambda>p. fst p \<noteq> a \<and> spawner_flow_control_id (snd p) = Some fid) (producers fc))
        \<or> (flow_control_id info = fid
             \<and> \<not> list_ex (\<lambda>p. fst p \<noteq> a \<and> flow_control_id (snd p) = fid) (producers fc)))"

lemma list_ex_bt_remove: "list_ex P (bt_remove a m) \<longleftrightarrow> list_ex (\<lambda>p. fst p \<noteq> a \<and> P p) m"
  by (induction m) (auto simp: bt_remove_def)

lemma case_option_False: "(case x of None \<Rightarrow> False | Some i \<Rightarrow> i = fid) \<longleftrightarrow> x = Some fid"
  by (cases x) auto

lemma consumers_cleanup_spawner:
  "bt_get (consumers (cleanup_spawner fc a)) fid =
     (if bt_get (spawners fc) a = Some fid
         \<and> \<not> list_ex (\<lambda>p. fst p \<noteq> a \<and> snd p = fid) (spawners fc)
         \<and> \<not> list_ex (\<lambda>p. spawner_flow_control_id (snd p) = Some fid) (producers fc)
      then None else bt_get (consumers fc) fid)"
  by (cases "bt_get (spawners fc) a")
     (auto simp: cleanup_spawner_def Let_def bt_simps list_ex_bt_remove case_option_False)

lemma consumers_cleanup_producers_spawner:
  "bt_get (consumers (cleanup_producers_spawner fc sid)) fid =
     (if sid = fid \<and> \<not> list_ex (\<lambda>p. snd p = fid) (spawners fc)
         \<and> \<not> list_ex (\<lambda>p. spawner_flow_control_id (snd p) = Some fid) (producers fc)
      then None else bt_get (consumers fc) fid)"
  by (auto simp: cleanup_producers_spawner_def Let_def bt_simps case_option_False)

lemma consumers_cleanup_producer:
  "bt_get (consumers (cleanup_producer fc a)) fid =
     (if (case bt_get (producers fc) a of None \<Rightarrow> False | Some info \<Rightarrow>
            (spawner_flow_control_id info = Some fid
               \<and> \<not> list_ex (\<lambda>p. snd p = fid) (spawners fc)
               \<and> \<not> list_ex (\<lambda>p. fst p \<noteq> a \<and> spawner_flow_control_id (snd p) = Some fid) (producers fc))
          \<or> (flow_control_id info = fid
               \<and> \<not> list_ex (\<lambda>p. fst p \<noteq> a \<and> flow_control_id (snd p) = fid) (producers fc)))
      then None else bt_get (consumers fc) fid)"
proof (cases "bt_get (producers fc) a")
  case None
  then show ?thesis by (simp add: cleanup_producer_def)
next
  case (Some info)
  then show ?thesis
    by (cases "spawner_flow_control_id info")
       (auto simp: cleanup_producer_def Let_def bt_simps list_ex_bt_remove
         consumers_cleanup_producers_spawner)
qed

lemma bt_get_cleanup_address_consumers:
  assumes "fc_wf fc"
  shows "get_consumers_info (cleanup_address fc a) fid
           = (if consumers_dropped fc a fid then [] else bs_remove a (get_consumers_info fc fid))"
proof -
  let ?fc1 = "cleanup_spawner fc a"
  have "bt_get (consumers (cleanup_producer ?fc1 a)) fid
      = (if consumers_dropped fc a fid then None else bt_get (consumers fc) fid)"
    by (auto simp: consumers_cleanup_producer consumers_cleanup_spawner consumers_dropped_def
        list_ex_bt_remove split: option.splits)
  moreover have "bt_wf (consumers (cleanup_producer ?fc1 a))"
    using fc_wf_cleanup_producer [OF fc_wf_cleanup_spawner [OF assms]] by (simp add: fc_wf_def)
  ultimately show ?thesis
    by (simp add: cleanup_address_def get_consumers_info_cleanup_consumer)
       (simp add: get_consumers_info_def unwrap_or_default_def bs_remove_def)
qed

subsection \<open>Properties\<close>

text \<open>C16: every state the public operations reach is well formed: keys and consumer sets are
  ordered, no flow control keeps an empty consumer set, and every additional address points to a
  registered producer, so a lookup through an additional address always finds its producer.\<close>

theorem flow_controls_invariant:
  assumes "fc_reachable fc"
  shows "fc_wf fc \<and> (find_flow_control_with_producer_address fc x = None
                     \<longleftrightarrow> bt_get (producers_additional_addresses fc) x = None)"
proof -
  have wf: "fc_wf fc" using assms by (rule fc_reachable_wf)
  then have "bt_get (producers fc) main \<noteq> None"
    if "bt_get (producers_additional_addresses fc) x = Some main" for main
    using bt_get_SomeD [OF that] by (auto simp: fc_wf_def list_all_iff bt_simps)
  with wf show ?thesis
    by (auto simp: find_flow_control_with_producer_address_def split: option.split)
qed

theorem flow_controls_invariant_witness:
  "let d = Address LOCAL ''dec''; e = Address LOCAL ''enc''; i = FlowControlId ''1'';
       fc = fc_exec (fc_exec FlowControls_new (AddProducer d i None [e])) (AddConsumer e i)
   in fc_wf fc \<and> find_flow_control_with_producer_address fc e \<noteq> None"
proof -
  let ?fc = "fc_exec (fc_exec FlowControls_new
      (AddProducer (Address LOCAL ''dec'') (FlowControlId ''1'') None [Address LOCAL ''enc'']))
      (AddConsumer (Address LOCAL ''enc'') (FlowControlId ''1''))"
  have "fc_reachable ?fc" by (intro fc_step fc_init)
  note inv = flow_controls_invariant [OF this, of "Address LOCAL ''enc''"]
  have "bt_get (producers_additional_addresses ?fc) (Address LOCAL ''enc'') \<noteq> None"
    by (simp add: add_producer_def add_consumer_def Let_def bt_simps)
  with inv show ?thesis unfolding Let_def by (simp del: fc_exec.simps not_None_eq)
qed

text \<open>cleaning up an address removes exactly what depends on it: its spawner and producer
  entries go and no other; the consumers of a flow control lose the address and nothing else,
  except when the address was the last holder of that flow control, in which case all of them go.\<close>

theorem cleanup_address_effect:
  assumes "fc_wf fc"
  shows "get_flow_control_with_spawner (cleanup_address fc a) x
           = (if x = a then None else get_flow_control_with_spawner fc x)
       \<and> get_flow_control_with_producer (cleanup_address fc a) x
           = (if x = a then None else get_flow_control_with_producer fc x)
       \<and> get_consumers_info (cleanup_address fc a) fid
           = (if consumers_dropped fc a fid then [] else bs_remove a (get_consumers_info fc fid))"
  using bt_get_cleanup_address_consumers [OF assms]
  by (simp add: get_flow_control_with_spawner_def get_flow_control_with_producer_def bt_simps)

theorem cleanup_address_effect_witness:
  "let p = Address LOCAL ''p''; q = Address LOCAL ''q''; c = Address LOCAL ''c''; i = FlowControlId ''1'';
       fc = add_consumer (add_producer (add_producer FlowControls_new p i None []) q i None []) c i
   in get_consumers_info (cleanup_address fc p) i = [c]
      \<and> get_flow_control_with_producer (cleanup_address fc p) q \<noteq> None
      \<and> get_consumers_info (cleanup_address (cleanup_address fc p) q) i = []"
proof -
  let ?p = "Address LOCAL ''p''" and ?q = "Address LOCAL ''q''" and ?c = "Address LOCAL ''c''"
    and ?i = "FlowControlId ''1''"
  let ?fc = "add_consumer (add_producer (add_producer FlowControls_new ?p ?i None []) ?q ?i None []) ?c ?i"
  have wf: "fc_wf ?fc" by (intro wf_intros)
  have "\<not> consumers_dropped ?fc ?p ?i" "get_consumers_info ?fc ?i = [?c]"
      "get_flow_control_with_producer ?fc ?q \<noteq> None" by code_simp+
  moreover have "bs_remove ?p [?c] = [?c]" by (simp add: bs_remove_def)
  ultimately have "get_consumers_info (cleanup_address ?fc ?p) ?i = [?c]"
      "get_flow_control_with_producer (cleanup_address ?fc ?p) ?q \<noteq> None"
    using cleanup_address_effect [OF wf, of ?p] by simp_all
  moreover have "consumers_dropped (cleanup_address ?fc ?p) ?q ?i" by code_simp
  then have "get_consumers_info (cleanup_address (cleanup_address ?fc ?p) ?q) ?i = []"
    using cleanup_address_effect [OF fc_wf_cleanup_address [OF wf], of ?p ?q] by simp
  ultimately show ?thesis unfolding Let_def by (intro conjI)
qed

text \<open>The addresses a state knows about.\<close>

definition fc_addresses :: "FlowControls \<Rightarrow> Address list" where
  "fc_addresses fc = bt_keys (spawners fc) @ bt_keys (producers fc) @ concat (bt_values (consumers fc))"

lemma set_consumers_cleanup_address:
  assumes "fc_wf fc"
  shows "set (get_consumers_info (cleanup_address fc a) fid) \<subseteq> set (get_consumers_info fc fid) - {a}"
  by (simp add: bt_get_cleanup_address_consumers [OF assms])

lemma fold_cleanup_maps:
  "bt_get (spawners (fold (\<lambda>a s. cleanup_address s a) as fc)) x
     = (if x \<in> set as then None else bt_get (spawners fc) x)"
  "bt_get (producers (fold (\<lambda>a s. cleanup_address s a) as fc)) x
     = (if x \<in> set as then None else bt_get (producers fc) x)"
  by (induction as arbitrary: fc) (auto simp: bt_simps)

lemma fold_cleanup_consumers:
  "fc_wf fc \<Longrightarrow> set (get_consumers_info (fold (\<lambda>a s. cleanup_address s a) as fc) fid)
     \<subseteq> set (get_consumers_info fc fid) - set as"
proof (induction as arbitrary: fc)
  case (Cons a as)
  show ?case
    using Cons.IH [OF fc_wf_cleanup_address [OF Cons.prems]]
      set_consumers_cleanup_address [OF Cons.prems, of a fid] by auto
qed simp

lemma set_get_consumers_info: "set (get_consumers_info fc fid) \<subseteq> set (concat (bt_values (consumers fc)))"
proof (cases "bt_get (consumers fc) fid")
  case (Some s)
  then show ?thesis
    using bt_get_SomeD [OF Some]
    by (force simp: get_consumers_info_def unwrap_or_default_def bt_values_def)
qed (simp add: get_consumers_info_def unwrap_or_default_def)

lemma fc_empty_iff:
  assumes "fc_wf fc" "\<And>x. bt_get (spawners fc) x = None" "\<And>x. bt_get (producers fc) x = None"
    and "\<And>fid. get_consumers_info fc fid = []"
  shows "fc = FlowControls_new"
proof -
  have "bt_get (consumers fc) fid = None" for fid
  proof (cases "bt_get (consumers fc) fid")
    case (Some s)
    then have "s \<noteq> []" using consumers_ok_get [OF _ Some] assms(1) by (simp add: fc_wf_def)
    with Some assms(4) [of fid] show ?thesis
      by (simp add: get_consumers_info_def unwrap_or_default_def)
  qed
  moreover have "producers_additional_addresses fc = []"
    using assms(1,3) by (cases "producers_additional_addresses fc") (auto simp: fc_wf_def bt_simps)
  ultimately show ?thesis
    using assms(2,3) by (simp add: FlowControls_new_def bt_eq_Nil_iff)
qed

text \<open>C22: nothing leaks: once every address a reachable state knows about has been cleaned up, in
  any order, the state is the initial one.\<close>

theorem cleanup_all_addresses:
  assumes "fc_reachable fc" "set (fc_addresses fc) \<subseteq> set as"
  shows "fold (\<lambda>a s. cleanup_address s a) as fc = FlowControls_new"
proof (rule fc_empty_iff)
  have wf: "fc_wf fc" using assms(1) by (rule fc_reachable_wf)
  then show "fc_wf (fold (\<lambda>a s. cleanup_address s a) as fc)" by (rule fc_wf_fold_cleanup)
  have "x \<notin> set (bt_keys (spawners fc))" "x \<notin> set (bt_keys (producers fc))" if "x \<notin> set as" for x
    using that assms(2) by (auto simp: fc_addresses_def)
  then show "bt_get (spawners (fold (\<lambda>a s. cleanup_address s a) as fc)) x = None"
    and "bt_get (producers (fold (\<lambda>a s. cleanup_address s a) as fc)) x = None" for x
    by (simp_all add: fold_cleanup_maps bt_get_None_iff)
  show "get_consumers_info (fold (\<lambda>a s. cleanup_address s a) as fc) fid = []" for fid
  proof -
    have "set (get_consumers_info fc fid) \<subseteq> set as"
      using set_get_consumers_info [of fc fid] assms(2) unfolding fc_addresses_def set_append by blast
    then have "set (get_consumers_info (fold (\<lambda>a s. cleanup_address s a) as fc) fid) = {}"
      using fold_cleanup_consumers [OF wf, of as fid] by (simp only: Diff_eq_empty_iff [THEN iffD2] subset_empty)
    then show ?thesis by simp
  qed
qed

theorem cleanup_all_addresses_witness:
  "let s = Address LOCAL ''s''; d = Address LOCAL ''d''; c = Address LOCAL ''c'';
       i = FlowControlId ''1''; j = FlowControlId ''2'';
       fc = fold (\<lambda>op st. fc_exec st op)
              [AddSpawner s i, AddProducer d j (Some i) [c], AddConsumer c i, AddConsumer c j]
              FlowControls_new
   in fc \<noteq> FlowControls_new \<and> fold (\<lambda>a st. cleanup_address st a) [c, d, s] fc = FlowControls_new"
proof -
  let ?s = "Address LOCAL ''s''" and ?d = "Address LOCAL ''d''" and ?c = "Address LOCAL ''c''"
    and ?i = "FlowControlId ''1''" and ?j = "FlowControlId ''2''"
  let ?fc = "fold (\<lambda>op st. fc_exec st op)
      [AddSpawner ?s ?i, AddProducer ?d ?j (Some ?i) [?c], AddConsumer ?c ?i, AddConsumer ?c ?j]
      FlowControls_new"
  have "fc_reachable ?fc" by (intro fc_reachable_fold fc_init)
  moreover have "list_all (\<lambda>x. x \<in> set [?c, ?d, ?s]) (fc_addresses ?fc)" by code_simp
  then have "set (fc_addresses ?fc) \<subseteq> set [?c, ?d, ?s]" unfolding list_all_iff by blast
  ultimately have "fold (\<lambda>a st. cleanup_address st a) [?c, ?d, ?s] ?fc = FlowControls_new"
    by (rule cleanup_all_addresses)
  moreover have "spawners ?fc \<noteq> []" by code_simp
  then have "?fc \<noteq> FlowControls_new" by (auto simp: FlowControls_new_def)
  ultimately show ?thesis unfolding Let_def by (intro conjI)
qed

subsection \<open>Authorization\<close>

definition fc_permitted :: "FlowControlOutgoingAccessControl \<Rightarrow> Address \<Rightarrow> bool" where
  "fc_permitted ac a \<longleftrightarrow>
     a \<in> set (get_consumers_info (ac_flow_controls ac) (ac_flow_control_id ac))
     \<or> (case ac_spawner_flow_control_id ac of
          None \<Rightarrow> False | Some sid \<Rightarrow> a \<in> set (get_consumers_info (ac_flow_controls ac) sid))"

interpretation flow_control: next_hop_control "FlowControl_is_authorized ac" "fc_permitted ac" for ac
  by standard
     (auto simp: FlowControl_is_authorized_def fc_permitted_def is_consumer_def result_bind_def
       allow_def deny_def split: sum.split option.split)

fun adds_consumer :: "Address \<Rightarrow> fc_op \<Rightarrow> bool" where
  "adds_consumer a (AddConsumer b _) = (b = a)"
| "adds_consumer a _ = False"

definition fc_run :: "fc_op list \<Rightarrow> FlowControls \<Rightarrow> FlowControls" where
  "fc_run ops fc = fold (\<lambda>op st. fc_exec st op) ops fc"

lemma exec_keeps_non_consumer:
  assumes "fc_wf fc" "\<not> adds_consumer a op" "a \<notin> set (get_consumers_info fc fid)"
  shows "a \<notin> set (get_consumers_info (fc_exec fc op) fid)"
proof (cases op)
  case (CleanupAddress b)
  then show ?thesis
    using set_consumers_cleanup_address [OF assms(1), of b fid] assms(3) by auto
qed (use assms(2,3) in \<open>auto simp: get_consumers_info_add_consumer\<close>)

lemma run_keeps_non_consumer:
  assumes "fc_wf fc" "\<not> list_ex (adds_consumer a) ops" "a \<notin> set (get_consumers_info fc fid)"
  shows "a \<notin> set (get_consumers_info (fc_run ops fc) fid)"
  using assms
proof (induction ops arbitrary: fc)
  case (Cons op ops)
  then show ?case
    using exec_keeps_non_consumer [of fc a op fid] fc_wf_exec [of fc op] by (simp add: fc_run_def)
qed (simp add: fc_run_def)


text \<open>C17: once an address has been cleaned up, no flow control lets a message out to it, whatever
  operations follow, until it is registered as a consumer again.\<close>

theorem cleaned_address_is_denied:
  assumes "fc_wf fc" "\<not> list_ex (adds_consumer a) ops" "addrs (relay_onward_route m) = a # as"
    and "ac_flow_controls ac = fc_run ops (cleanup_address fc a)"
  shows "FlowControl_is_authorized ac m = Inr False"
proof -
  have "a \<notin> set (get_consumers_info (cleanup_address fc a) fid)" for fid
    using set_consumers_cleanup_address [OF assms(1), of a fid] by auto
  then have "a \<notin> set (get_consumers_info (fc_run ops (cleanup_address fc a)) fid)" for fid
    using run_keeps_non_consumer [OF fc_wf_cleanup_address [OF assms(1)] assms(2)] by blast
  then have "\<not> fc_permitted ac a"
    using assms(4) by (simp add: fc_permitted_def split: option.split)
  with assms(3) show ?thesis by (simp add: flow_control.control_eq Route_next_def)
qed

theorem cleaned_address_is_denied_witness:
  "let c = Address LOCAL ''c''; d = Address LOCAL ''d''; i = FlowControlId ''1'';
       fc = add_consumer (add_producer FlowControls_new d i None []) c i;
       m = RelayMessage_new d c (LocalMessage_new (TransportMessage_v1 (Route [c]) (Route [d]) []) []);
       ac = (\<lambda>st. \<lparr>ac_flow_controls = st, ac_flow_control_id = i, ac_spawner_flow_control_id = None\<rparr>)
   in FlowControl_is_authorized (ac fc) m = Inr True
      \<and> FlowControl_is_authorized (ac (fc_run [AddConsumer d i] (cleanup_address fc c))) m = Inr False"
proof -
  let ?c = "Address LOCAL ''c''" and ?d = "Address LOCAL ''d''" and ?i = "FlowControlId ''1''"
  let ?fc = "add_consumer (add_producer FlowControls_new ?d ?i None []) ?c ?i"
  let ?m = "RelayMessage_new ?d ?c (LocalMessage_new (TransportMessage_v1 (Route [?c]) (Route [?d]) []) [])"
  let ?ac = "\<lambda>st. \<lparr>ac_flow_controls = st, ac_flow_control_id = ?i, ac_spawner_flow_control_id = None\<rparr>"
  have "fc_wf ?fc" by (intro wf_intros)
  then have "FlowControl_is_authorized (?ac (fc_run [AddConsumer ?d ?i] (cleanup_address ?fc ?c))) ?m
      = Inr False"
    by (rule cleaned_address_is_denied [where as = "[]"])
       (simp_all add: relay_onward_route_def RelayMessage_new_def LocalMessage_new_def
         TransportMessage_v1_def)
  moreover have "FlowControl_is_authorized (?ac ?fc) ?m = Inr True" by code_simp
  ultimately show ?thesis unfolding Let_def by (intro conjI)
qed

subsection \<open>Producers and their additional addresses\<close>

lemma bt_get_fold_insert:
  "bt_get (fold (\<lambda>x m. bt_insert x a m) xs m) k = (if k \<in> set xs then Some a else bt_get m k)"
  by (induction xs arbitrary: m) (auto simp: bt_simps)

text \<open>a registered producer is found under its own address and under each of its additional
  addresses, and registering it does not change what any other address finds, unless that address
  was an alias of the same producer.\<close>

theorem add_producer_lookup:
  "find_flow_control_with_producer_address (add_producer fc a fid sid as) x =
     (if x \<in> set (a # as) \<or> bt_get (producers_additional_addresses fc) x = Some a
      then Some \<lparr>flow_control_id = fid, spawner_flow_control_id = sid\<rparr>
      else find_flow_control_with_producer_address fc x)"
  by (auto simp: find_flow_control_with_producer_address_def add_producer_def Let_def
      bt_get_fold_insert bt_simps split: option.split)

end
