(* ===== verification/Node_Record.thy ===== *)
theory Node_Record
  imports Flow_Control
begin

text \<open>
  The tables of a node's router (\<open>ockam_node/src/router/record.rs\<close>), the errors, messages and
  replies of the router (\<open>error.rs\<close>, \<open>messages.rs\<close>).

  A channel end is the number of its channel.  Mutable references into the record table are the
  primary addresses they belong to: writing through them is \<open>modify_record\<close>.  The reference
  counted message counter of a worker is the number of the counter, none for the private
  counters that nobody else can read.
\<close>

subsection \<open>Errors\<close>

datatype NodeReason = NodeUnknown | NodeShutdown | NodeCorrupt

datatype WorkerReason = WorkerShutdown | WorkerFaulty | WorkerCorrupt

datatype RouterReason = Duplicate | InvalidAddrType | EmptyAddressSet

datatype NodeError =
    AddressError Address
  | RecipientError Route
  | DataError
  | NodeStateError NodeReason
  | WorkerStateError WorkerReason
  | RouterStateError RouterReason

datatype NodeFailure = NodeFailure (failure_code: error) (failure_cause: NodeError)

definition not_found :: "NodeError \<Rightarrow> NodeFailure" where
  "not_found self = NodeFailure (ErrorCode_new OriginNode KindNotFound) self"

definition already_exists :: "NodeError \<Rightarrow> NodeFailure" where
  "already_exists self = NodeFailure (ErrorCode_new OriginNode KindAlreadyExists) self"

definition conflict :: "NodeError \<Rightarrow> NodeFailure" where
  "conflict self = NodeFailure (ErrorCode_new OriginNode KindConflict) self"

definition internal :: "NodeError \<Rightarrow> NodeFailure" where
  "internal self = NodeFailure (ErrorCode_new OriginNode KindInternal) self"

definition from_send_err :: NodeFailure where
  "from_send_err = NodeFailure (ErrorCode_new OriginNode KindInternal) (NodeStateError NodeUnknown)"

subsection \<open>Messages and replies\<close>

type_synonym msg_sender = nat
type_synonym ctrl_sender = nat
type_synonym reply_sender = nat

datatype CtrlSignal = Interrupt | InterruptStop

record SenderPair =
  msgs :: msg_sender
  ctrl :: ctrl_sender

datatype ShutdownType = Graceful u8 | Immediate

datatype RouterReply =
    ReplyOk
  | Workers "Address list"
  | Sender Address msg_sender
  | State bool

type_synonym NodeReplyResult = "NodeFailure + RouterReply"

datatype NodeMessage =
    StartWorker "Address list" SenderPair bool nat reply_sender
  | ListWorkers reply_sender
  | SetCluster Address string reply_sender
  | StopWorker Address bool reply_sender
  | StartProcessor Address SenderPair reply_sender
  | StopProcessor Address reply_sender
  | StopNode ShutdownType reply_sender
  | AbortNode
  | StopAck Address
  | SenderReq Address reply_sender
  | RegisterRouter TransportType Address reply_sender
  | SetReady Address
  | CheckReady Address reply_sender

definition reply_ok :: NodeReplyResult where
  "reply_ok = Inr ReplyOk"

definition no_such_address :: "Address \<Rightarrow> NodeReplyResult" where
  "no_such_address a = Inl (not_found (AddressError a))"

definition router_exists :: NodeReplyResult where
  "router_exists = Inl (already_exists (RouterStateError Duplicate))"

definition node_rejected :: "NodeReason \<Rightarrow> NodeReplyResult" where
  "node_rejected reason = Inl (conflict (NodeStateError reason))"

definition worker_rejected :: "WorkerReason \<Rightarrow> NodeReplyResult" where
  "worker_rejected reason = Inl (conflict (WorkerStateError reason))"

definition reply_workers :: "Address list \<Rightarrow> NodeReplyResult" where
  "reply_workers v = Inr (Workers v)"

definition reply_sender_of :: "Address \<Rightarrow> msg_sender \<Rightarrow> NodeReplyResult" where
  "reply_sender_of a s = Inr (Sender a s)"

definition take_sender :: "RouterReply \<Rightarrow> NodeFailure + Address \<times> msg_sender" where
  "take_sender self = (case self of
     Sender a s \<Rightarrow> Inr (a, s) | _ \<Rightarrow> Inl (internal (NodeStateError NodeUnknown)))"

definition take_workers :: "RouterReply \<Rightarrow> NodeFailure + Address list" where
  "take_workers self = (case self of
     Workers w \<Rightarrow> Inr w | _ \<Rightarrow> Inl (internal (NodeStateError NodeUnknown)))"

subsection \<open>Address records\<close>

datatype AddressState = Running | Stopping | Faulty

datatype ReadyState = Ready | Initialising "reply_sender list"

record AddressMeta =
  processor :: bool
  detached :: bool

record AddressRecord =
  address_set :: "Address list"
  ar_sender :: "msg_sender option"
  ctrl_tx :: ctrl_sender
  ar_state :: AddressState
  ar_ready :: ReadyState
  meta :: AddressMeta
  msg_count :: "nat option"

definition AddressRecord_new ::
  "Address list \<Rightarrow> msg_sender \<Rightarrow> ctrl_sender \<Rightarrow> nat option \<Rightarrow> AddressMeta \<Rightarrow> AddressRecord" where
  "AddressRecord_new as s c count m =
     \<lparr>address_set = as, ar_sender = Some s, ctrl_tx = c, ar_state = Running,
      ar_ready = Initialising [], meta = m, msg_count = count\<rparr>"

definition drop_sender :: "AddressRecord \<Rightarrow> AddressRecord" where
  "drop_sender self = self\<lparr>ar_sender := None\<rparr>"

definition record_check :: "AddressRecord \<Rightarrow> bool" where
  "record_check self \<longleftrightarrow> ar_state self = Running \<and> ar_sender self \<noteq> None"

definition record_sender :: "AddressRecord \<Rightarrow> msg_sender exec" where
  "record_sender self = (case ar_sender self of
     Some s \<Rightarrow> Inr s | None \<Rightarrow> Inl (Panic ''No such sender!''))"

definition record_ready :: "AddressRecord \<Rightarrow> reply_sender \<Rightarrow> bool \<times> AddressRecord" where
  "record_ready self tx = (case ar_ready self of
     Ready \<Rightarrow> (True, self)
   | Initialising v \<Rightarrow> (False, self\<lparr>ar_ready := Initialising (v @ [tx])\<rparr>))"

definition record_set_ready :: "AddressRecord \<Rightarrow> reply_sender list \<times> AddressRecord" where
  "record_set_ready self =
     ((case ar_ready self of Initialising v \<Rightarrow> v | Ready \<Rightarrow> []), self\<lparr>ar_ready := Ready\<rparr>)"

subsection \<open>The tables\<close>

record InternalMap =
  address_records_map :: "(Address, AddressRecord) btree_map"
  alias_map :: "(Address, Address) btree_map"
  cluster_order :: "string list"
  clusters :: "(string, Address btree_set) btree_map"
  stopping :: "Address btree_set"
  im_flow_controls :: FlowControls

definition InternalMap_new :: "FlowControls \<Rightarrow> InternalMap" where
  "InternalMap_new fc =
     \<lparr>address_records_map = [], alias_map = [], cluster_order = [], clusters = [], stopping = [],
      im_flow_controls = fc\<rparr>"

definition clear_address_records_map :: "InternalMap \<Rightarrow> InternalMap" where
  "clear_address_records_map self = self\<lparr>address_records_map := []\<rparr>"

definition get_address_record :: "InternalMap \<Rightarrow> Address \<Rightarrow> AddressRecord option" where
  "get_address_record self primary = bt_get (address_records_map self) primary"

text \<open>Writing through the reference \<open>get_address_record_mut\<close> and \<open>iter_mut\<close> give.\<close>

definition modify_record :: "InternalMap \<Rightarrow> Address \<Rightarrow> (AddressRecord \<Rightarrow> AddressRecord) \<Rightarrow> InternalMap" where
  "modify_record self primary f = (case bt_get (address_records_map self) primary of
     None \<Rightarrow> self
   | Some r \<Rightarrow> self\<lparr>address_records_map := bt_insert primary (f r) (address_records_map self)\<rparr>)"

definition remove_address_record :: "InternalMap \<Rightarrow> Address \<Rightarrow> AddressRecord option \<times> InternalMap" where
  "remove_address_record self primary =
     (bt_get (address_records_map self) primary,
      self\<lparr>im_flow_controls := cleanup_address (im_flow_controls self) primary,
           address_records_map := bt_remove primary (address_records_map self)\<rparr>)"

definition insert_address_record :: "InternalMap \<Rightarrow> Address \<Rightarrow> AddressRecord \<Rightarrow> InternalMap" where
  "insert_address_record self primary r =
     self\<lparr>address_records_map := bt_insert primary r (address_records_map self)\<rparr>"

definition remove_alias :: "InternalMap \<Rightarrow> Address \<Rightarrow> InternalMap" where
  "remove_alias self a =
     self\<lparr>im_flow_controls := cleanup_address (im_flow_controls self) a,
          alias_map := bt_remove a (alias_map self)\<rparr>"

definition insert_alias :: "InternalMap \<Rightarrow> Address \<Rightarrow> Address \<Rightarrow> InternalMap" where
  "insert_alias self a primary = self\<lparr>alias_map := bt_insert a primary (alias_map self)\<rparr>"

definition get_primary_address :: "InternalMap \<Rightarrow> Address \<Rightarrow> Address option" where
  "get_primary_address self a = bt_get (alias_map self) a"

definition set_cluster :: "InternalMap \<Rightarrow> string \<Rightarrow> Address \<Rightarrow> NodeReplyResult \<times> InternalMap" where
  "set_cluster self label primary = (case bt_get (address_records_map self) primary of
     None \<Rightarrow> (Inl (not_found (AddressError primary)), self)
   | Some r \<Rightarrow>
       let self1 = (if \<not> bt_contains_key (clusters self) label
                    then self\<lparr>clusters := bt_insert label [] (clusters self),
                              cluster_order := cluster_order self @ [label]\<rparr>
                    else self);
           members = (case bt_get (clusters self1) label of None \<Rightarrow> [] | Some s \<Rightarrow> s)
       in (reply_ok,
           self1\<lparr>clusters := bt_insert label (fold bs_insert (address_set r) members) (clusters self1)\<rparr>))"

definition set_ready :: "InternalMap \<Rightarrow> Address \<Rightarrow> (NodeFailure + reply_sender list) \<times> InternalMap" where
  "set_ready self a = (case bt_get (address_records_map self) a of
     None \<Rightarrow> (Inl (not_found (AddressError a)), self)
   | Some r \<Rightarrow> (Inr (fst (record_set_ready r)), modify_record self a (\<lambda>r. snd (record_set_ready r))))"

definition get_ready :: "InternalMap \<Rightarrow> Address \<Rightarrow> reply_sender \<Rightarrow> bool \<times> InternalMap" where
  "get_ready self a tx = (case bt_get (address_records_map self) a of
     None \<Rightarrow> (False, self)
   | Some r \<Rightarrow> (fst (record_ready r tx), modify_record self a (\<lambda>r. snd (record_ready r tx))))"

text \<open>The records of the youngest cluster, by their primary addresses.\<close>

definition next_cluster :: "InternalMap \<Rightarrow> Address list option \<times> InternalMap" where
  "next_cluster self =
     (if cluster_order self = [] then (None, self)
      else
        let name = last (cluster_order self);
            self1 = self\<lparr>cluster_order := butlast (cluster_order self)\<rparr>
        in case bt_get (clusters self1) name of
             None \<Rightarrow> (None, self1)
           | Some as \<Rightarrow>
               (Some (filter (bs_contains as) (bt_keys (address_records_map self1))),
                self1\<lparr>clusters := bt_remove name (clusters self1)\<rparr>))"

definition init_stop :: "InternalMap \<Rightarrow> Address \<Rightarrow> InternalMap" where
  "init_stop self a = self\<lparr>stopping := bs_insert a (stopping self)\<rparr>"

definition cluster_done :: "InternalMap \<Rightarrow> bool" where
  "cluster_done self \<longleftrightarrow> stopping self = []"

definition clustered :: "InternalMap \<Rightarrow> Address btree_set" where
  "clustered self = fold (\<lambda>p acc. fold bs_insert (snd p) acc) (clusters self) []"

definition non_cluster_workers :: "InternalMap \<Rightarrow> Address list" where
  "non_cluster_workers self =
     map fst (filter (\<lambda>p. \<not> bs_contains (clustered self) (fst p) \<and> \<not> detached (meta (snd p)))
                (address_records_map self))"

definition free_address :: "InternalMap \<Rightarrow> Address \<Rightarrow> InternalMap" where
  "free_address self primary =
     (let self1 = self\<lparr>stopping := bs_remove primary (stopping self)\<rparr>;
          (removed, self2) = remove_address_record self1 primary
      in case removed of
           None \<Rightarrow> self2
         | Some r \<Rightarrow> self2\<lparr>alias_map := fold bt_remove (address_set r) (alias_map self2)\<rparr>)"

subsection \<open>The invariant\<close>

definition tables_ok :: "InternalMap \<Rightarrow> bool" where
  "tables_ok m \<longleftrightarrow> bt_wf (address_records_map m) \<and> bt_wf (alias_map m) \<and> bt_wf (clusters m)
     \<and> sorted_wrt (<) (stopping m) \<and> list_all (\<lambda>p. sorted_wrt (<) (snd p)) (clusters m)
     \<and> distinct (cluster_order m) \<and> set (cluster_order m) = set (bt_keys (clusters m))
     \<and> fc_wf (im_flow_controls m)"

text \<open>A record is stored under the first of its addresses, and a processor has no other.\<close>

definition records_ok :: "InternalMap \<Rightarrow> bool" where
  "records_ok m \<longleftrightarrow> (\<forall>p r. bt_get (address_records_map m) p = Some r \<longrightarrow>
     address_set r \<noteq> [] \<and> hd (address_set r) = p \<and> (processor (meta r) \<longrightarrow> address_set r = [p]))"

text \<open>An alias leads to a record that has the address.\<close>

definition aliases_ok :: "InternalMap \<Rightarrow> bool" where
  "aliases_ok m \<longleftrightarrow> (\<forall>a p. bt_get (alias_map m) a = Some p \<longrightarrow>
     (\<exists>r. bt_get (address_records_map m) p = Some r \<and> a \<in> set (address_set r)))"

named_theorems map_defs \<open>definitions of the operations on the tables\<close>

lemmas [map_defs] =
  InternalMap_new_def clear_address_records_map_def get_address_record_def modify_record_def
  remove_address_record_def insert_address_record_def remove_alias_def insert_alias_def
  get_primary_address_def init_stop_def

lemma sorted_fold_bs_insert [wf_intros]:
  "sorted_wrt (<) s \<Longrightarrow> sorted_wrt (<) (fold bs_insert xs s)"
  by (induction xs arbitrary: s) (simp_all add: wf_intros)

lemma set_fold_bs_insert: "set (fold bs_insert xs s) = set xs \<union> set s"
  by (induction xs arbitrary: s) auto

lemma bt_wf_fold_remove [wf_intros]: "bt_wf m \<Longrightarrow> bt_wf (fold bt_remove xs m)"
  by (induction xs arbitrary: m) (simp_all add: wf_intros)

lemma bt_get_fold_remove [bt_simps]:
  "bt_get (fold bt_remove xs m) k = (if k \<in> set xs then None else bt_get m k)"
  by (induction xs arbitrary: m) (simp_all add: bt_simps)

lemma set_bt_keys_insert: "set (bt_keys (bt_insert k v m)) = insert k (set (bt_keys m))"
  using keys_bt_insert [of k v m] by (simp add: bt_keys_def)

lemma set_bt_keys_remove: "set (bt_keys (bt_remove k m)) = set (bt_keys m) - {k}"
  by (auto simp: bt_keys_def bt_remove_def)

lemma fold_insert_alias:
  "fold (\<lambda>a m. insert_alias m a p) as m
     = m\<lparr>alias_map := fold (\<lambda>a al. bt_insert a p al) as (alias_map m)\<rparr>"
  by (induction as arbitrary: m) (simp_all add: insert_alias_def)

lemma fold_init_stop:
  "fold (\<lambda>a m. init_stop m a) as m = m\<lparr>stopping := fold bs_insert as (stopping m)\<rparr>"
  by (induction as arbitrary: m) (simp_all add: init_stop_def)

lemma free_address_alt:
  "free_address m p =
     m\<lparr>stopping := bs_remove p (stopping m),
       im_flow_controls := cleanup_address (im_flow_controls m) p,
       address_records_map := bt_remove p (address_records_map m),
       alias_map := (case bt_get (address_records_map m) p of
          None \<Rightarrow> alias_map m | Some r \<Rightarrow> fold bt_remove (address_set r) (alias_map m))\<rparr>"
  by (simp add: free_address_def remove_address_record_def Let_def split: option.split)

subsection \<open>Every operation keeps it\<close>

lemma tables_ok_new [wf_intros]: "fc_wf fc \<Longrightarrow> tables_ok (InternalMap_new fc)"
  by (simp add: tables_ok_def InternalMap_new_def bt_keys_def)

lemma tables_ok_clear [wf_intros]: "tables_ok m \<Longrightarrow> tables_ok (clear_address_records_map m)"
  by (simp add: tables_ok_def map_defs)

lemma tables_ok_modify_record [wf_intros]: "tables_ok m \<Longrightarrow> tables_ok (modify_record m p f)"
  by (simp add: tables_ok_def map_defs wf_intros split: option.split)

lemma tables_ok_insert_record [wf_intros]: "tables_ok m \<Longrightarrow> tables_ok (insert_address_record m p r)"
  by (simp add: tables_ok_def map_defs wf_intros)

lemma tables_ok_remove_record [wf_intros]:
  "tables_ok m \<Longrightarrow> tables_ok (snd (remove_address_record m p))"
  by (simp add: tables_ok_def map_defs wf_intros)

lemma tables_ok_insert_alias [wf_intros]: "tables_ok m \<Longrightarrow> tables_ok (insert_alias m a p)"
  by (simp add: tables_ok_def map_defs wf_intros)

lemma tables_ok_insert_aliases [wf_intros]:
  "tables_ok m \<Longrightarrow> tables_ok (fold (\<lambda>a m. insert_alias m a p) as m)"
  by (induction as arbitrary: m) (simp_all add: wf_intros)

lemma tables_ok_remove_alias [wf_intros]: "tables_ok m \<Longrightarrow> tables_ok (remove_alias m a)"
  by (simp add: tables_ok_def map_defs wf_intros)

lemma tables_ok_init_stops [wf_intros]:
  "tables_ok m \<Longrightarrow> tables_ok (fold (\<lambda>a m. init_stop m a) as m)"
  by (simp add: tables_ok_def fold_init_stop wf_intros)

lemma tables_ok_free_address [wf_intros]: "tables_ok m \<Longrightarrow> tables_ok (free_address m p)"
  by (simp add: tables_ok_def free_address_alt wf_intros split: option.split)

lemma tables_ok_set_ready [wf_intros]: "tables_ok m \<Longrightarrow> tables_ok (snd (set_ready m a))"
  by (simp add: set_ready_def wf_intros split: option.split)

lemma tables_ok_get_ready [wf_intros]: "tables_ok m \<Longrightarrow> tables_ok (snd (get_ready m a tx))"
  by (simp add: get_ready_def wf_intros split: option.split)

lemma tables_ok_set_cluster [wf_intros]:
  assumes "tables_ok m"
  shows "tables_ok (snd (set_cluster m label p))"
proof (cases "bt_get (address_records_map m) p")
  case (Some r)
  have members: "sorted_wrt (<) s" if "bt_get (clusters m) l = Some s" for l s
    using assms that by (auto simp: tables_ok_def list_all_iff dest!: bt_get_SomeD)
  have keys: "bt_contains_key (clusters m) label \<longleftrightarrow> label \<in> set (cluster_order m)"
    using assms by (simp add: tables_ok_def bt_contains_key_def bt_keys_def)
  show ?thesis
  proof (cases "bt_contains_key (clusters m) label")
    case True
    then obtain s where s: "bt_get (clusters m) label = Some s"
      by (auto simp: bt_contains_key_iff)
    with assms members [OF s] Some True keys show ?thesis
      by (auto simp: tables_ok_def set_cluster_def set_bt_keys_insert Let_def intro!: wf_intros)
  next
    case False
    with assms Some keys show ?thesis
      by (auto simp: tables_ok_def set_cluster_def set_bt_keys_insert Let_def bt_simps
          intro!: wf_intros)
  qed
qed (use assms in \<open>simp add: set_cluster_def\<close>)

lemma tables_ok_next_cluster [wf_intros]:
  assumes "tables_ok m"
  shows "tables_ok (snd (next_cluster m))"
proof (cases "cluster_order m" rule: rev_cases)
  case (snoc ord l)
  have "l \<in> set (bt_keys (clusters m))"
    using assms snoc by (auto simp: tables_ok_def)
  then have "bt_get (clusters m) l \<noteq> None" by (simp add: bt_get_None_iff)
  with assms snoc show ?thesis
    by (auto simp: tables_ok_def next_cluster_def set_bt_keys_remove wf_intros)
qed (use assms in \<open>simp add: next_cluster_def\<close>)

lemma records_ok_modify_record [wf_intros]:
  assumes "records_ok m" "\<And>r. address_set (f r) = address_set r" "\<And>r. meta (f r) = meta r"
  shows "records_ok (modify_record m p f)"
  using assms by (auto simp: records_ok_def map_defs bt_simps split: option.split)

lemma aliases_ok_modify_record [wf_intros]:
  assumes "aliases_ok m" "\<And>r. address_set (f r) = address_set r"
  shows "aliases_ok (modify_record m p f)"
  using assms by (fastforce simp: aliases_ok_def map_defs bt_simps split: option.split)

lemma records_ok_free_address [wf_intros]: "records_ok m \<Longrightarrow> records_ok (free_address m p)"
  by (simp add: records_ok_def free_address_alt bt_simps)

lemma aliases_ok_free_address [wf_intros]: "aliases_ok m \<Longrightarrow> aliases_ok (free_address m p)"
  by (fastforce simp: aliases_ok_def free_address_alt bt_simps split: option.split if_splits)

lemma records_ok_set_cluster [wf_intros]: "records_ok m \<Longrightarrow> records_ok (snd (set_cluster m label p))"
  by (simp add: records_ok_def set_cluster_def Let_def split: option.split)

lemma aliases_ok_set_cluster [wf_intros]: "aliases_ok m \<Longrightarrow> aliases_ok (snd (set_cluster m label p))"
  by (simp add: aliases_ok_def set_cluster_def Let_def split: option.split)

lemma records_ok_next_cluster [wf_intros]: "records_ok m \<Longrightarrow> records_ok (snd (next_cluster m))"
  by (simp add: records_ok_def next_cluster_def Let_def split: option.split)

lemma aliases_ok_next_cluster [wf_intros]: "aliases_ok m \<Longrightarrow> aliases_ok (snd (next_cluster m))"
  by (simp add: aliases_ok_def next_cluster_def Let_def split: option.split)

lemma records_ok_init_stops [wf_intros]: "records_ok m \<Longrightarrow> records_ok (fold (\<lambda>a m. init_stop m a) as m)"
  by (simp add: records_ok_def fold_init_stop)

lemma aliases_ok_init_stops [wf_intros]: "aliases_ok m \<Longrightarrow> aliases_ok (fold (\<lambda>a m. init_stop m a) as m)"
  by (simp add: aliases_ok_def fold_init_stop)

lemma record_fields [simp]:
  "address_set (drop_sender r) = address_set r" "meta (drop_sender r) = meta r"
  "address_set (snd (record_ready r tx)) = address_set r" "meta (snd (record_ready r tx)) = meta r"
  "address_set (snd (record_set_ready r)) = address_set r" "meta (snd (record_set_ready r)) = meta r"
  by (simp_all add: drop_sender_def record_ready_def record_set_ready_def split: ReadyState.split)

lemma ready_ok [wf_intros]:
  "records_ok m \<Longrightarrow> records_ok (snd (set_ready m a))"
  "aliases_ok m \<Longrightarrow> aliases_ok (snd (set_ready m a))"
  "records_ok m \<Longrightarrow> records_ok (snd (get_ready m a tx))"
  "aliases_ok m \<Longrightarrow> aliases_ok (snd (get_ready m a tx))"
  by (simp_all add: set_ready_def get_ready_def wf_intros split: option.split)

text \<open>Registering a worker: the record first, then its aliases.\<close>

lemma register_ok:
  assumes "records_ok m" "aliases_ok m" "bt_get (address_records_map m) p = None"
    and "address_set r = p # as" "processor (meta r) \<longrightarrow> as = []"
  shows "records_ok (fold (\<lambda>a m. insert_alias m a p) (p # as) (insert_address_record m p r))"
    and "aliases_ok (fold (\<lambda>a m. insert_alias m a p) (p # as) (insert_address_record m p r))"
proof -
  have no_alias: "bt_get (alias_map m) a \<noteq> Some p" for a
    using assms(2,3) by (fastforce simp: aliases_ok_def)
  show "records_ok (fold (\<lambda>a m. insert_alias m a p) (p # as) (insert_address_record m p r))"
    using assms unfolding records_ok_def fold_insert_alias
    by (simp add: insert_address_record_def bt_simps)
  show "aliases_ok (fold (\<lambda>a m. insert_alias m a p) (p # as) (insert_address_record m p r))"
    using assms no_alias unfolding aliases_ok_def fold_insert_alias bt_get_fold_insert
    by (auto simp: insert_address_record_def bt_simps bt_get_fold_insert)
qed

text \<open>Forgetting a processor: it has one alias only.\<close>

lemma unregister_ok:
  assumes "records_ok m" "aliases_ok m" "bt_get (address_records_map m) p = Some r" "processor (meta r)"
  shows "records_ok (remove_alias (snd (remove_address_record m p)) p)"
    and "aliases_ok (remove_alias (snd (remove_address_record m p)) p)"
  using assms by (auto simp: records_ok_def aliases_ok_def map_defs bt_simps) fastforce+

lemma remove_absent_ok:
  assumes "bt_get (address_records_map m) p = None"
  shows "records_ok m \<Longrightarrow> records_ok (snd (remove_address_record m p))"
    and "aliases_ok m \<Longrightarrow> aliases_ok (snd (remove_address_record m p))"
  using assms by (fastforce simp: records_ok_def aliases_ok_def map_defs bt_simps)+

lemma records_empty [wf_intros]:
  "address_records_map m = [] \<Longrightarrow> address_records_map (modify_record m p f) = []"
  "address_records_map m = [] \<Longrightarrow> address_records_map (free_address m p) = []"
  "address_records_map m = [] \<Longrightarrow> address_records_map (snd (set_cluster m label p)) = []"
  "address_records_map m = [] \<Longrightarrow> address_records_map (snd (next_cluster m)) = []"
  "address_records_map m = [] \<Longrightarrow> address_records_map (snd (set_ready m a)) = []"
  "address_records_map m = [] \<Longrightarrow> address_records_map (snd (get_ready m a tx)) = []"
  "address_records_map m = [] \<Longrightarrow> address_records_map (fold (\<lambda>a m. init_stop m a) as m) = []"
  "address_records_map m = [] \<Longrightarrow> address_records_map (snd (remove_address_record m p)) = []"
  "address_records_map m = [] \<Longrightarrow> address_records_map (remove_alias m p) = []"
  by (simp_all add: map_defs free_address_alt set_cluster_def next_cluster_def set_ready_def
      get_ready_def fold_init_stop bt_remove_def Let_def del: init_stop_def split: option.split)

end
