(* ===== verification/State_Exec.thy ===== *)
theory State_Exec
  imports Ockam_Prelude
begin

text \<open>
  Code that mutates a state, can fail with an error value and can panic: a state transformer whose
  changes made before an error stay made, as with Rust's \<open>?\<close> on a \<open>&mut self\<close>.
\<close>

named_theorems run_simps \<open>evaluation of stateful code\<close>

type_synonym ('s, 'e, 'a) state_exec = "'s \<Rightarrow> panic + (('e + 'a) \<times> 's)"

definition run_ok :: "'a \<Rightarrow> ('s, 'e, 'a) state_exec" where
  "run_ok a w = Inr (Inr a, w)"

definition run_err :: "'e \<Rightarrow> ('s, 'e, 'a) state_exec" where
  "run_err e w = Inr (Inl e, w)"

definition run_panic :: "string \<Rightarrow> ('s, 'e, 'a) state_exec" where
  "run_panic msg w = Inl (Panic msg)"

definition run_bind :: "('s, 'e, 'a) state_exec \<Rightarrow> ('a \<Rightarrow> ('s, 'e, 'b) state_exec) \<Rightarrow> ('s, 'e, 'b) state_exec" where
  "run_bind m f w = (case m w of
     Inl p \<Rightarrow> Inl p
   | Inr (Inl e, w') \<Rightarrow> Inr (Inl e, w')
   | Inr (Inr a, w') \<Rightarrow> f a w')"

abbreviation run_then :: "('s, 'e, unit) state_exec \<Rightarrow> ('s, 'e, 'b) state_exec \<Rightarrow> ('s, 'e, 'b) state_exec" where
  "run_then m k \<equiv> run_bind m (\<lambda>_. k)"

fun run_each :: "('a \<Rightarrow> ('s, 'e, unit) state_exec) \<Rightarrow> 'a list \<Rightarrow> ('s, 'e, unit) state_exec" where
  "run_each f [] = run_ok ()"
| "run_each f (x # xs) = run_then (f x) (run_each f xs)"

text \<open>A loop that collects its results.\<close>

fun run_map :: "('a \<Rightarrow> ('s, 'e, 'b) state_exec) \<Rightarrow> 'a list \<Rightarrow> ('s, 'e, 'b list) state_exec" where
  "run_map f [] = run_ok []"
| "run_map f (x # xs) = run_bind (f x) (\<lambda>y. run_bind (run_map f xs) (\<lambda>ys. run_ok (y # ys)))"

lemma run_bind_ok [run_simps]: "run_bind (run_ok a) f w = f a w"
  by (simp add: run_bind_def run_ok_def)

lemma run_bind_err [run_simps]: "run_bind (run_err e) f w = run_err e w"
  by (simp add: run_bind_def run_err_def)

lemma run_bind_assoc: "run_bind (run_bind m f) g w = run_bind m (\<lambda>a. run_bind (f a) g) w"
  by (simp add: run_bind_def split: sum.split prod.split)

text \<open>A pure \<open>Result\<close>, or a pure computation that can panic, inside stateful code.\<close>

definition run_result :: "'e + 'a \<Rightarrow> ('s, 'e, 'a) state_exec" where
  "run_result r = (case r of Inl e \<Rightarrow> run_err e | Inr a \<Rightarrow> run_ok a)"

definition run_exec :: "('e + 'a) exec \<Rightarrow> ('s, 'e, 'a) state_exec" where
  "run_exec x = (case x of Inl p \<Rightarrow> (\<lambda>_. Inl p) | Inr r \<Rightarrow> run_result r)"

text \<open>The outcome of a computation as a value: an error does not end the caller.\<close>

definition run_try :: "('s, 'e, 'a) state_exec \<Rightarrow> ('s, 'e, 'e + 'a) state_exec" where
  "run_try m w = (case m w of Inl p \<Rightarrow> Inl p | Inr (r, w') \<Rightarrow> Inr (Inr r, w'))"

text \<open>An operation on the first part of the state, and one that reads or replaces the second.\<close>

definition run_fst :: "('v, 'e, 'a) state_exec \<Rightarrow> ('v \<times> 's, 'e, 'a) state_exec" where
  "run_fst m w = (case m (fst w) of Inl p \<Rightarrow> Inl p | Inr (r, v) \<Rightarrow> Inr (r, (v, snd w)))"

definition run_get :: "('v \<times> 's, 'e, 's) state_exec" where
  "run_get w = run_ok (snd w) w"

definition run_put :: "'s \<Rightarrow> ('v \<times> 's, 'e, unit) state_exec" where
  "run_put s w = run_ok () (fst w, s)"

lemma run_fst_value [run_simps]: "m v = Inr (r, v') \<Longrightarrow> run_fst m (v, s) = Inr (r, (v', s))"
  by (simp add: run_fst_def)

lemma run_get_value [run_simps]: "run_bind run_get f (v, s) = f s (v, s)"
  by (simp add: run_get_def run_bind_def run_ok_def)

lemma run_put_value [run_simps]: "run_bind (run_put s') f (v, s) = f () (v, s')"
  by (simp add: run_put_def run_bind_def run_ok_def)

lemma run_result_simps [run_simps]:
  "run_result (Inl e) = run_err e" "run_result (Inr a) = run_ok a"
  by (simp_all add: run_result_def)

lemma run_exec_simps [run_simps]:
  "run_exec (Inr r) = run_result r" "run_exec (Inl p) w = Inl p"
  by (simp_all add: run_exec_def)

lemma run_bind_value [run_simps]:
  "m w = Inr (Inr a, w') \<Longrightarrow> run_bind m f w = f a w'"
  "m w = Inr (Inl e, w') \<Longrightarrow> run_bind m f w = Inr (Inl e, w')"
  "m w = Inl p \<Longrightarrow> run_bind m f w = Inl p"
  by (simp_all add: run_bind_def)

lemma run_bind_cases:
  assumes "run_bind m f w = Inr (r, w')"
  obtains e where "m w = Inr (Inl e, w')" "r = Inl e" | a w1 where "m w = Inr (Inr a, w1)" "f a w1 = Inr (r, w')"
  using assms by (auto simp: run_bind_def split: sum.splits prod.splits)

lemma run_try_value [run_simps]:
  "m w = Inr (r, w') \<Longrightarrow> run_try m w = Inr (Inr r, w')"
  by (simp add: run_try_def)

text \<open>A predicate on the state that a computation keeps, whether it ends well or with an error.\<close>

locale state_invariant =
  fixes inv :: "'s \<Rightarrow> bool"
begin

definition keeps :: "('s, 'e, 'a) state_exec \<Rightarrow> 's \<Rightarrow> bool" where
  "keeps m w \<longleftrightarrow> (inv w \<longrightarrow> (\<forall>r w'. m w = Inr (r, w') \<longrightarrow> inv w'))"

lemma keepsD: "keeps m w \<Longrightarrow> inv w \<Longrightarrow> m w = Inr (r, w') \<Longrightarrow> inv w'"
  by (auto simp: keeps_def)

lemma keeps_ok: "keeps (run_ok a) w"
  by (simp add: keeps_def run_ok_def)

lemma keeps_err: "keeps (run_err e) w"
  by (simp add: keeps_def run_err_def)

lemma keeps_bind:
  assumes "keeps m w" "\<And>a w'. inv w' \<Longrightarrow> m w = Inr (Inr a, w') \<Longrightarrow> keeps (f a) w'"
  shows "keeps (run_bind m f) w"
proof (cases "m w")
  case (Inr p)
  then obtain r w' where m: "m w = Inr (r, w')" by (cases p) simp
  with assms(1) have "inv w \<longrightarrow> inv w'" by (simp add: keeps_def)
  with m assms(2) show ?thesis by (cases r) (auto simp: keeps_def run_bind_def)
qed (simp add: keeps_def run_bind_def)

lemma keeps_each: "(\<And>x w'. x \<in> set xs \<Longrightarrow> keeps (f x) w') \<Longrightarrow> keeps (run_each f xs) w"
proof (induction xs arbitrary: w)
  case (Cons x xs)
  then show ?case by (auto intro!: keeps_bind)
qed (simp add: keeps_ok)

end

end
