(* ===== verification/Node_Router.thy ===== *)
theory Node_Router
  imports Node_Record State_Exec
begin

text \<open>
  The router of a node (\<open>ockam_node/src/router/\<close>): the handler of every node message, the
  shutdown procedure and the run loop.

  A \<open>World\<close> is the router together with what it can be seen doing: the replies sent, the
  control signals sent, the shutdown timers started, the counters of handed out senders, and
  which channels still have a receiver.  A handler is a state transformer that may panic; what it
  has changed before an error stays changed, as in the code.  A send to a channel without a
  receiver fails.  The feature-gated metrics and the log output are left out.
\<close>

subsection \<open>State\<close>

datatype NodeState = NodeRunning | NodeStopping reply_sender | NodeDead

record Router =
  node_state :: NodeState
  im :: InternalMap
  external :: "(TransportType, Address) btree_map"
  receiver_open :: bool

record World =
  router :: Router
  sent :: "(reply_sender \<times> NodeReplyResult) list"
  signals :: "(ctrl_sender \<times> CtrlSignal) list"
  timers :: "u8 list"
  msg_counts :: "nat \<Rightarrow> u64"
  reply_open :: "reply_sender \<Rightarrow> bool"
  ctrl_open :: "ctrl_sender \<Rightarrow> bool"

type_synonym 'a run = "(World, NodeFailure, 'a) state_exec"

definition set_map :: "InternalMap \<Rightarrow> World \<Rightarrow> World" where
  "set_map m w = w\<lparr>router := (router w)\<lparr>im := m\<rparr>\<rparr>"

definition with_map :: "(InternalMap \<Rightarrow> InternalMap) \<Rightarrow> unit run" where
  "with_map f w = Inr (Inr (), set_map (f (im (router w))) w)"

definition reply_send :: "NodeFailure \<Rightarrow> reply_sender \<Rightarrow> NodeReplyResult \<Rightarrow> unit run" where
  "reply_send e tx r w =
     (if reply_open w tx then Inr (Inr (), w\<lparr>sent := sent w @ [(tx, r)]\<rparr>) else Inr (Inl e, w))"

abbreviation send_failed :: NodeFailure where
  "send_failed \<equiv> internal (NodeStateError NodeUnknown)"

definition ctrl_send :: "ctrl_sender \<Rightarrow> CtrlSignal \<Rightarrow> unit run" where
  "ctrl_send tx c w =
     (if ctrl_open w tx then Inr (Inr (), w\<lparr>signals := signals w @ [(tx, c)]\<rparr>)
      else Inr (Inl send_failed, w))"

subsection \<open>Creation\<close>

definition Router_new :: "FlowControls \<Rightarrow> Router" where
  "Router_new fc =
     \<lparr>node_state = NodeRunning, im = InternalMap_new fc, external = [], receiver_open = True\<rparr>"

definition Router_init :: "Router \<Rightarrow> Address \<Rightarrow> SenderPair \<Rightarrow> Router" where
  "Router_init self a senders =
     self\<lparr>im := insert_alias
        (insert_address_record (im self) a
          (AddressRecord_new [a] (msgs senders) (ctrl senders) None \<lparr>processor = False, detached = True\<rparr>))
        a a\<rparr>"

subsection \<open>The state of the node\<close>

definition state_shutdown :: "reply_sender \<Rightarrow> World \<Rightarrow> World" where
  "state_shutdown tx w = w\<lparr>router := (router w)\<lparr>node_state := NodeStopping tx\<rparr>\<rparr>"

definition state_kill :: "World \<Rightarrow> World" where
  "state_kill w = w\<lparr>router := (router w)\<lparr>node_state := NodeDead\<rparr>\<rparr>"

definition stop_reply :: "Router \<Rightarrow> reply_sender option" where
  "stop_reply r = (case node_state r of NodeStopping tx \<Rightarrow> Some tx | _ \<Rightarrow> None)"

definition running :: "Router \<Rightarrow> bool" where
  "running r = (node_state r = NodeRunning)"

subsection \<open>Starting workers and processors\<close>

definition check_addr_not_exist :: "Address \<Rightarrow> reply_sender \<Rightarrow> unit run" where
  "check_addr_not_exist a tx w =
     (if bt_contains_key (address_records_map (im (router w))) a
      then run_then (reply_send send_failed tx (Inl (already_exists (AddressError a))))
             (run_err (already_exists (AddressError a))) w
      else run_ok () w)"

definition reject :: "reply_sender \<Rightarrow> unit run" where
  "reject tx = reply_send send_failed tx (node_rejected NodeShutdown)"

definition start_worker ::
  "Address list \<Rightarrow> SenderPair \<Rightarrow> bool \<Rightarrow> nat \<Rightarrow> reply_sender \<Rightarrow> unit run" where
  "start_worker as senders det metrics tx =
     (case as of
        [] \<Rightarrow> run_err (internal (RouterStateError EmptyAddressSet))
      | primary # _ \<Rightarrow>
          run_then (check_addr_not_exist primary tx)
         (run_then (with_map (\<lambda>m. insert_address_record m primary
             (AddressRecord_new as (msgs senders) (ctrl senders) (Some metrics)
                \<lparr>processor = False, detached = det\<rparr>)))
         (run_then (with_map (\<lambda>m. fold (\<lambda>a m. insert_alias m a primary) as m))
            (reply_send send_failed tx reply_ok))))"

definition start_worker_exec ::
  "Address list \<Rightarrow> SenderPair \<Rightarrow> bool \<Rightarrow> nat \<Rightarrow> reply_sender \<Rightarrow> unit run" where
  "start_worker_exec as senders det metrics tx w = (case node_state (router w) of
     NodeRunning \<Rightarrow> start_worker as senders det metrics tx w
   | NodeStopping _ \<Rightarrow> reject tx w
   | NodeDead \<Rightarrow> Inl (Panic ''internal error: entered unreachable code''))"

definition start_processor :: "Address \<Rightarrow> SenderPair \<Rightarrow> reply_sender \<Rightarrow> unit run" where
  "start_processor a senders tx =
     run_then (check_addr_not_exist a tx)
    (run_then (with_map (\<lambda>m. insert_address_record m a
        (AddressRecord_new [a] (msgs senders) (ctrl senders) None \<lparr>processor = True, detached = False\<rparr>)))
    (run_then (with_map (\<lambda>m. insert_alias m a a))
       (reply_send send_failed tx reply_ok)))"

definition start_processor_exec :: "Address \<Rightarrow> SenderPair \<Rightarrow> reply_sender \<Rightarrow> unit run" where
  "start_processor_exec a senders tx w = (case node_state (router w) of
     NodeRunning \<Rightarrow> start_processor a senders tx w
   | NodeStopping _ \<Rightarrow> reject tx w
   | NodeDead \<Rightarrow> Inl (Panic ''internal error: entered unreachable code''))"

subsection \<open>Stopping workers and processors\<close>

definition mark_stopped :: "AddressRecord \<Rightarrow> AddressRecord" where
  "mark_stopped self =
     (if processor (meta self) then self\<lparr>ar_state := Stopping\<rparr>
      else self\<lparr>ar_sender := None, ar_state := Stopping\<rparr>)"

text \<open>\<open>AddressRecord::stop\<close>: the signal of a processor; the record itself changes only if it could be
  sent.\<close>

definition stop_signal :: "AddressRecord \<Rightarrow> unit run" where
  "stop_signal self =
     (if processor (meta self) then ctrl_send (ctrl_tx self) InterruptStop else run_ok ())"

definition stop_record :: "Address \<Rightarrow> unit run" where
  "stop_record primary w = (case get_address_record (im (router w)) primary of
     None \<Rightarrow> run_ok () w
   | Some r \<Rightarrow> run_then (stop_signal r) (with_map (\<lambda>m. modify_record m primary mark_stopped)) w)"

definition stop_worker_exec :: "Address \<Rightarrow> bool \<Rightarrow> reply_sender \<Rightarrow> unit run" where
  "stop_worker_exec a det tx w = (case get_primary_address (im (router w)) a of
     None \<Rightarrow> reply_send send_failed tx (no_such_address a) w
   | Some primary \<Rightarrow>
       (case get_address_record (im (router w)) primary of
          None \<Rightarrow> reply_send send_failed tx (no_such_address a) w
        | Some r \<Rightarrow>
            run_then (reply_send send_failed tx reply_ok)
              (if \<not> det then with_map (\<lambda>m. modify_record m primary drop_sender)
               else with_map (\<lambda>m. free_address m primary)) w))"

definition stop_processor_exec :: "Address \<Rightarrow> reply_sender \<Rightarrow> unit run" where
  "stop_processor_exec main tx w =
     (let (removed, m) = remove_address_record (im (router w)) main;
          w1 = set_map m w
      in case removed of
           None \<Rightarrow> reply_send send_failed tx (no_such_address main) w1
         | Some r \<Rightarrow>
             run_then (with_map (\<lambda>m. remove_alias m main))
            (run_then (stop_signal r) (reply_send send_failed tx reply_ok)) w1)"

subsection \<open>Shutting down\<close>

definition first_address :: "InternalMap \<Rightarrow> Address \<Rightarrow> Address list" where
  "first_address m primary = (case get_address_record m primary of
     None \<Rightarrow> [] | Some r \<Rightarrow> take 1 (address_set r))"

definition init_stops :: "Address list \<Rightarrow> InternalMap \<Rightarrow> InternalMap" where
  "init_stops as m = fold (\<lambda>a m. init_stop m a) as m"

definition stop_next_cluster :: "bool run" where
  "stop_next_cluster w =
     (let (nxt, m) = next_cluster (im (router w)); w1 = set_map m w
      in case nxt of
           None \<Rightarrow> run_ok True w1
         | Some ps \<Rightarrow>
             run_then (run_each stop_record ps)
            (run_then (with_map (init_stops (concat (map (first_address m) ps)))) (run_ok False)) w1)"

definition shutdown_ack :: "Address \<Rightarrow> bool run" where
  "shutdown_ack a =
     run_then (with_map (\<lambda>m. free_address m a))
       (\<lambda>w. if \<not> cluster_done (im (router w)) then run_ok False w else stop_next_cluster w)"

definition graceful_stop :: "Address \<Rightarrow> unit run" where
  "graceful_stop primary w =
     (if first_address (im (router w)) primary = [] then run_ok () w else stop_record primary w)"

definition graceful :: "u8 \<Rightarrow> reply_sender \<Rightarrow> bool run" where
  "graceful seconds tx w =
     (let w1 = state_shutdown tx w;
          ps = non_cluster_workers (im (router w1));
          cluster = concat (map (first_address (im (router w1))) ps)
      in run_then (run_each graceful_stop ps)
           (if cluster = [] then stop_next_cluster
            else run_then (with_map (init_stops cluster))
              (\<lambda>w. run_ok False (w\<lparr>timers := timers w @ [seconds]\<rparr>))) w1)"

definition immediate :: "reply_sender \<Rightarrow> unit run" where
  "immediate tx =
     run_then (with_map clear_address_records_map)
       (\<lambda>w. reply_send send_failed tx reply_ok (state_kill w))"

subsection \<open>Resolving addresses\<close>

datatype RouteType = Internal | External TransportType

definition determine_type :: "Address \<Rightarrow> RouteType" where
  "determine_type nxt =
     (if TransportType_is_local (transport_type nxt) then Internal
      else External (transport_type nxt))"

definition increment_msg_count :: "AddressRecord \<Rightarrow> World \<Rightarrow> World" where
  "increment_msg_count r w = (case msg_count r of
     None \<Rightarrow> w
   | Some c \<Rightarrow> w\<lparr>msg_counts := (msg_counts w)(c := msg_counts w c + 1)\<rparr>)"

definition resolve :: "Address \<Rightarrow> reply_sender \<Rightarrow> unit run" where
  "resolve a tx w = (case get_primary_address (im (router w)) a of
     None \<Rightarrow> reply_send from_send_err tx (no_such_address a) w
   | Some primary \<Rightarrow>
       (case get_address_record (im (router w)) primary of
          Some r \<Rightarrow>
            if record_check r then
              (case record_sender r of
                 Inl p \<Rightarrow> Inl p
               | Inr s \<Rightarrow> reply_send from_send_err tx (reply_sender_of a s) (increment_msg_count r w))
            else reply_send from_send_err tx (worker_rejected WorkerShutdown) w
        | None \<Rightarrow> reply_send from_send_err tx (no_such_address a) w))"

definition router_addr :: "Router \<Rightarrow> TransportType \<Rightarrow> NodeFailure + Address" where
  "router_addr r t = ok_or (bt_get (external r) t) (internal (NodeStateError NodeUnknown))"

subsection \<open>Handling a message\<close>

definition finish_stop :: "bool run" where
  "finish_stop w = (case stop_reply (router w) of
     Some tx \<Rightarrow> run_then (reply_send send_failed tx reply_ok) (run_ok True) w
   | None \<Rightarrow> run_ok False w)"

fun handle_msg :: "NodeMessage \<Rightarrow> bool run" where
  "handle_msg (RegisterRouter t a tx) =
     (\<lambda>w. if \<not> bt_contains_key (external (router w)) t
          then run_then (reply_send send_failed tx reply_ok) (run_ok False)
                 (w\<lparr>router := (router w)\<lparr>external := bt_insert t a (external (router w))\<rparr>\<rparr>)
          else run_then (reply_send send_failed tx router_exists) (run_ok False) w)"
| "handle_msg (StartWorker as senders det count tx) =
     run_then (start_worker_exec as senders det count tx) (run_ok False)"
| "handle_msg (StopWorker a det tx) = run_then (stop_worker_exec a det tx) (run_ok False)"
| "handle_msg (StartProcessor a senders tx) = run_then (start_processor_exec a senders tx) (run_ok False)"
| "handle_msg (StopProcessor a tx) = run_then (stop_processor_exec a tx) (run_ok False)"
| "handle_msg (StopNode (Graceful timeout) tx) =
     run_bind (graceful timeout tx) (\<lambda>done. if done then finish_stop else run_ok False)"
| "handle_msg (StopNode Immediate tx) = run_then (immediate tx) (run_ok True)"
| "handle_msg AbortNode =
     (\<lambda>w. case stop_reply (router w) of
        Some tx \<Rightarrow> run_then (reply_send send_failed tx reply_ok)
                   (run_then (with_map clear_address_records_map) (run_ok True)) w
      | None \<Rightarrow> run_ok False w)"
| "handle_msg (StopAck a) =
     (\<lambda>w. if running (router w) then run_then (with_map (\<lambda>m. free_address m a)) (run_ok False) w
          else run_bind (shutdown_ack a) (\<lambda>done. if done then finish_stop else run_ok False) w)"
| "handle_msg (ListWorkers tx) =
     (\<lambda>w. run_then (reply_send send_failed tx (reply_workers (bt_keys (address_records_map (im (router w))))))
            (run_ok False) w)"
| "handle_msg (SetCluster a label tx) =
     (\<lambda>w. let (r, m) = set_cluster (im (router w)) label a
          in run_then (reply_send send_failed tx r) (run_ok False) (set_map m w))"
| "handle_msg (SetReady a) =
     (\<lambda>w. let (r, m) = set_ready (im (router w)) a
          in (case r of
                Inl _ \<Rightarrow> run_ok False
              | Inr waiting \<Rightarrow>
                  run_then (run_each (\<lambda>tx. reply_send send_failed tx reply_ok) waiting) (run_ok False))
             (set_map m w))"
| "handle_msg (CheckReady a tx) =
     (\<lambda>w. let (is_ready, m) = get_ready (im (router w)) a tx
          in (if is_ready then run_then (reply_send send_failed tx reply_ok) (run_ok False)
              else run_ok False) (set_map m w))"
| "handle_msg (SenderReq a tx) =
     (\<lambda>w. case determine_type a of
        Internal \<Rightarrow> run_then (resolve a tx) (run_ok False) w
      | External t \<Rightarrow>
          (case router_addr (router w) t of
             Inl e \<Rightarrow> run_err e w
           | Inr a' \<Rightarrow> run_then (resolve a' tx) (run_ok False) w))"

subsection \<open>The run loop\<close>

text \<open>The loop over the messages received so far: \<open>True\<close> when it was left, \<open>False\<close> when it waits for
  more.\<close>

fun run_inner :: "NodeMessage list \<Rightarrow> bool run" where
  "run_inner [] w =
     (if receiver_open (router w) then run_ok False w
      else run_err (internal (NodeStateError NodeCorrupt)) w)"
| "run_inner (m # ms) w =
     (if \<not> receiver_open (router w) then run_err (internal (NodeStateError NodeCorrupt)) w
      else case handle_msg m w of
        Inl p \<Rightarrow> Inl p
      | Inr (Inr True, w') \<Rightarrow> run_ok True (w'\<lparr>router := (router w')\<lparr>receiver_open := False\<rparr>\<rparr>)
      | Inr (_, w') \<Rightarrow> run_inner ms w')"

definition Router_run :: "NodeMessage list \<Rightarrow> bool run" where
  "Router_run ms w = (case run_inner ms w of
     Inl p \<Rightarrow> Inl p
   | Inr (Inr b, w') \<Rightarrow> Inr (Inr b, w')
   | Inr (Inl e, w') \<Rightarrow> if \<not> running (router w') then Inr (Inr True, w') else Inr (Inl e, w'))"

subsection \<open>A node that has just started\<close>

definition start_world :: World where
  "start_world =
     \<lparr>router = Router_init (Router_new FlowControls_new) (Address_new LOCAL ''app'') \<lparr>msgs = 0, ctrl = 0\<rparr>,
      sent = [], signals = [], timers = [], msg_counts = (\<lambda>_. 0), reply_open = (\<lambda>_. True),
      ctrl_open = (\<lambda>_. True)\<rparr>"

lemmas start_world_defs = start_world_def Router_init_def Router_new_def InternalMap_new_def
  insert_alias_def insert_address_record_def

subsection \<open>Rules for handlers\<close>

lemmas run_prim_defs = run_ok_def run_err_def reply_send_def ctrl_send_def with_map_def

lemma run_bind_with_map [run_simps]:
  "run_bind (with_map f) k w = k () (set_map (f (im (router w))) w)"
  by (simp add: run_bind_def with_map_def)

lemma run_bind_reply_send [run_simps]:
  "run_bind (reply_send e tx r) k w =
     (if reply_open w tx then k () (w\<lparr>sent := sent w @ [(tx, r)]\<rparr>) else run_err e w)"
  by (simp add: run_bind_def reply_send_def run_err_def)

lemma run_bind_ctrl_send [run_simps]:
  "run_bind (ctrl_send tx c) k w =
     (if ctrl_open w tx then k () (w\<lparr>signals := signals w @ [(tx, c)]\<rparr>) else run_err send_failed w)"
  by (simp add: run_bind_def ctrl_send_def run_err_def)

lemma set_map_sel [simp]:
  "im (router (set_map m w)) = m" "node_state (router (set_map m w)) = node_state (router w)"
  "external (router (set_map m w)) = external (router w)"
  "receiver_open (router (set_map m w)) = receiver_open (router w)"
  "sent (set_map m w) = sent w" "signals (set_map m w) = signals w" "timers (set_map m w) = timers w"
  "msg_counts (set_map m w) = msg_counts w"
  "reply_open (set_map m w) = reply_open w" "ctrl_open (set_map m w) = ctrl_open w"
  by (simp_all add: set_map_def)

lemma increment_msg_count_sel [simp]:
  "router (increment_msg_count r w) = router w" "sent (increment_msg_count r w) = sent w"
  "signals (increment_msg_count r w) = signals w" "timers (increment_msg_count r w) = timers w"
  "reply_open (increment_msg_count r w) = reply_open w"
  "ctrl_open (increment_msg_count r w) = ctrl_open w"
  by (simp_all add: increment_msg_count_def split: option.split)

text \<open>A predicate that does not look at what was sent: sending keeps it.\<close>

locale sending_invariant = state_invariant inv for inv :: "World \<Rightarrow> bool" +
  assumes inv_sent: "inv (w\<lparr>sent := x\<rparr>) = inv w"
    and inv_signals: "inv (w\<lparr>signals := y\<rparr>) = inv w"
begin

lemma keeps_reply_send: "keeps (reply_send e tx r) w"
  by (simp add: keeps_def reply_send_def inv_sent)

lemma keeps_ctrl_send: "keeps (ctrl_send tx c) w"
  by (simp add: keeps_def ctrl_send_def inv_signals)

lemma keeps_with_map:
  "(inv w \<Longrightarrow> inv (set_map (f (im (router w))) w)) \<Longrightarrow> keeps (with_map f) w"
  by (simp add: keeps_def with_map_def)

lemmas keeps_rules = keeps_ok keeps_err keeps_reply_send keeps_ctrl_send keeps_bind keeps_each

end

subsection \<open>The invariant of the router\<close>

definition router_ok :: "Router \<Rightarrow> bool" where
  "router_ok r \<longleftrightarrow> bt_wf (external r) \<and> tables_ok (im r) \<and> records_ok (im r)
     \<and> (aliases_ok (im r) \<or> address_records_map (im r) = [] \<and> \<not> running r)"

interpretation ri: sending_invariant "\<lambda>w. router_ok (router w)"
  by unfold_locales simp_all

lemma router_ok_set_map:
  assumes "router_ok (router w)" "tables_ok m" "records_ok m"
    and "aliases_ok (im (router w)) \<Longrightarrow> aliases_ok m"
    and "address_records_map (im (router w)) = [] \<Longrightarrow> address_records_map m = []"
  shows "router_ok (router (set_map m w))"
  using assms by (auto simp: router_ok_def running_def)

lemma keeps_map:
  assumes "tables_ok (im (router w)) \<Longrightarrow> tables_ok (f (im (router w)))"
    and "records_ok (im (router w)) \<Longrightarrow> records_ok (f (im (router w)))"
    and "aliases_ok (im (router w)) \<Longrightarrow> aliases_ok (f (im (router w)))"
    and "address_records_map (im (router w)) = [] \<Longrightarrow> address_records_map (f (im (router w))) = []"
  shows "ri.keeps (with_map f) w"
  using assms by (intro ri.keeps_with_map router_ok_set_map) (auto simp: router_ok_def)

lemma mark_stopped_sel [simp]:
  "address_set (mark_stopped r) = address_set r" "meta (mark_stopped r) = meta r"
  by (simp_all add: mark_stopped_def)

lemma keeps_stop_signal: "ri.keeps (stop_signal r) w"
  by (simp add: stop_signal_def ri.keeps_rules)

lemma keeps_stop_record: "ri.keeps (stop_record p) w"
proof -
  have "ri.keeps (run_then (stop_signal r) (with_map (\<lambda>m. modify_record m p mark_stopped))) w" for r
    by (intro ri.keeps_rules keeps_map keeps_stop_signal) (simp_all add: wf_intros)
  then show ?thesis
    using ri.keeps_ok by (fastforce simp: ri.keeps_def stop_record_def split: option.splits)
qed

lemma keeps_graceful_stop: "ri.keeps (graceful_stop p) w"
  using keeps_stop_record ri.keeps_ok by (fastforce simp: ri.keeps_def graceful_stop_def)

lemma keeps_init_stops: "ri.keeps (with_map (init_stops as)) w"
  by (intro keeps_map) (simp_all add: init_stops_def wf_intros)

text \<open>Continuing from a changed map.\<close>

lemma keeps_from:
  assumes "f w = g w'" "router_ok (router w) \<Longrightarrow> router_ok (router w')" "ri.keeps g w'"
  shows "ri.keeps f w"
  unfolding ri.keeps_def assms(1) using ri.keepsD [OF assms(3)] assms(2) by blast

lemma keeps_cong: "f w = g w \<Longrightarrow> ri.keeps g w \<Longrightarrow> ri.keeps f w"
  by (rule keeps_from) simp_all

lemma keeps_panic: "f w = Inl p \<Longrightarrow> ri.keeps f w"
  by (simp add: ri.keeps_def)

lemma keeps_stop_next_cluster: "ri.keeps stop_next_cluster w"
proof -
  obtain nxt m where nc: "next_cluster (im (router w)) = (nxt, m)" by force
  have ok: "router_ok (router (set_map m w))" if "router_ok (router w)"
    using that nc [THEN arg_cong, of snd]
    by (intro router_ok_set_map)
      (auto simp: router_ok_def dest: tables_ok_next_cluster records_ok_next_cluster aliases_ok_next_cluster
        records_empty(4))
  show ?thesis
  proof (cases nxt)
    case None
    with nc show ?thesis
      by (intro keeps_from [OF _ ok ri.keeps_ok]) (simp_all add: stop_next_cluster_def)
  next
    case (Some ps)
    have k: "ri.keeps (run_then (run_each stop_record ps)
        (run_then (with_map (init_stops (concat (map (first_address m) ps)))) (run_ok False))) (set_map m w)"
      by (intro ri.keeps_rules keeps_stop_record keeps_init_stops)
    from nc Some show ?thesis
      by (intro keeps_from [OF _ ok k]) (simp_all add: stop_next_cluster_def)
  qed
qed

lemma keeps_shutdown_ack: "ri.keeps (shutdown_ack a) w"
proof -
  have "ri.keeps (\<lambda>w. if \<not> cluster_done (im (router w)) then run_ok False w else stop_next_cluster w) w'"
    for w' using keeps_stop_next_cluster ri.keeps_ok by (fastforce simp: ri.keeps_def)
  then show ?thesis
    unfolding shutdown_ack_def by (intro ri.keeps_rules keeps_map) (simp_all add: wf_intros)
qed

lemma keeps_graceful: "ri.keeps (graceful seconds tx) w"
proof -
  let ?w = "state_shutdown tx w"
  let ?ps = "non_cluster_workers (im (router ?w))"
  let ?cluster = "concat (map (first_address (im (router ?w))) ?ps)"
  have timer: "ri.keeps ((\<lambda>w. run_ok False (w\<lparr>timers := timers w @ [seconds]\<rparr>)) :: bool run) w'" for w'
    by (simp add: ri.keeps_def run_ok_def)
  have k: "ri.keeps (run_then (run_each graceful_stop ?ps)
      (if ?cluster = [] then stop_next_cluster
       else run_then (with_map (init_stops ?cluster))
         (\<lambda>w. run_ok False (w\<lparr>timers := timers w @ [seconds]\<rparr>)))) ?w"
    using keeps_stop_next_cluster timer
    by (intro ri.keeps_bind ri.keeps_each keeps_graceful_stop)
      (simp add: ri.keeps_bind keeps_init_stops)
  show ?thesis
    by (rule keeps_from [OF _ _ k]) (auto simp: graceful_def state_shutdown_def router_ok_def running_def Let_def)
qed

lemma keeps_finish_stop: "ri.keeps finish_stop w"
proof -
  have "ri.keeps (run_then (reply_send send_failed tx reply_ok) (run_ok True)) w" for tx
    by (intro ri.keeps_rules)
  then show ?thesis
    by (simp add: ri.keeps_def finish_stop_def run_ok_def [of False] split: option.split)
qed

lemma keeps_done: "ri.keeps (if b then finish_stop else run_ok False) w"
  by (simp add: keeps_finish_stop ri.keeps_ok)

lemma keeps_resolve: "ri.keeps (resolve a tx) w"
  by (auto simp: ri.keeps_def resolve_def reply_send_def split: option.splits sum.splits if_splits)

lemma keeps_check_addr: "ri.keeps (check_addr_not_exist a tx) w"
  by (auto simp: ri.keeps_def check_addr_not_exist_def run_simps run_prim_defs split: if_splits)

lemma check_addr_okD:
  "check_addr_not_exist a tx w = Inr (Inr u, w') \<Longrightarrow>
     w' = w \<and> bt_get (address_records_map (im (router w))) a = None"
  by (auto simp: check_addr_not_exist_def run_simps run_prim_defs bt_contains_key_iff split: if_splits)

lemma with_map_twice:
  "run_then (with_map f) (run_then (with_map g) k) = run_then (with_map (\<lambda>m. g (f m))) k"
  by (rule ext) (simp add: run_simps set_map_def)

lemma keeps_register:
  assumes "running (router w)" "bt_get (address_records_map (im (router w))) p = None"
    and "address_set r = p # as" "processor (meta r) \<longrightarrow> as = []"
  shows "ri.keeps (with_map (\<lambda>m. fold (\<lambda>a m. insert_alias m a p) (p # as) (insert_address_record m p r))) w"
proof (rule ri.keeps_with_map, goal_cases)
  case 1
  with assms(1) have "records_ok (im (router w))" "aliases_ok (im (router w))"
    and t: "tables_ok (im (router w))" "bt_wf (external (router w))"
    by (simp_all add: router_ok_def)
  note ok = register_ok [OF this(1,2) assms(2-4)]
  show ?case
    using ok t by (simp add: router_ok_def wf_intros)
qed

lemma keeps_start_worker:
  assumes "running (router w)"
  shows "ri.keeps (start_worker as senders det metrics tx) w"
proof (cases as)
  case (Cons p as')
  show ?thesis
    unfolding start_worker_def Cons list.case with_map_twice
    by (rule ri.keeps_bind [OF keeps_check_addr], drule check_addr_okD)
       (use assms in \<open>auto intro!: ri.keeps_bind ri.keeps_reply_send keeps_register
          simp: AddressRecord_new_def simp del: fold_Cons\<close>)
qed (simp add: start_worker_def ri.keeps_err)

lemma keeps_start_processor:
  assumes "running (router w)"
  shows "ri.keeps (start_processor a senders tx) w"
proof -
  have fold1: "insert_alias m a a = fold (\<lambda>x m. insert_alias m x a) [a] m" for m by simp
  show ?thesis
    unfolding start_processor_def with_map_twice fold1
    by (rule ri.keeps_bind [OF keeps_check_addr], drule check_addr_okD)
       (use assms in \<open>auto intro!: ri.keeps_bind ri.keeps_reply_send keeps_register
          simp: AddressRecord_new_def simp del: fold_Cons\<close>)
qed

lemma keeps_reject: "ri.keeps (reject tx) w"
  by (simp add: reject_def ri.keeps_reply_send)

lemma keeps_start_worker_exec: "ri.keeps (start_worker_exec as senders det metrics tx) w"
proof (cases "node_state (router w)")
  case NodeRunning
  then show ?thesis
    by (intro keeps_cong [OF _ keeps_start_worker]) (simp_all add: start_worker_exec_def running_def)
next
  case (NodeStopping x)
  then show ?thesis
    by (intro keeps_cong [OF _ keeps_reject]) (simp add: start_worker_exec_def)
next
  case NodeDead
  then show ?thesis by (intro keeps_panic) (simp add: start_worker_exec_def)
qed

lemma keeps_start_processor_exec: "ri.keeps (start_processor_exec a senders tx) w"
proof (cases "node_state (router w)")
  case NodeRunning
  then show ?thesis
    by (intro keeps_cong [OF _ keeps_start_processor]) (simp_all add: start_processor_exec_def running_def)
next
  case (NodeStopping x)
  then show ?thesis
    by (intro keeps_cong [OF _ keeps_reject]) (simp add: start_processor_exec_def)
next
  case NodeDead
  then show ?thesis by (intro keeps_panic) (simp add: start_processor_exec_def)
qed

lemma keeps_stop_worker: "ri.keeps (stop_worker_exec a det tx) w"
proof -
  have drop: "ri.keeps (with_map (\<lambda>m. modify_record m p drop_sender)) w'" for p w'
    by (intro keeps_map) (simp_all add: wf_intros)
  have free: "ri.keeps (with_map (\<lambda>m. free_address m p)) w'" for p w'
    by (intro keeps_map) (simp_all add: wf_intros)
  have stop: "ri.keeps (run_then (reply_send send_failed tx reply_ok)
      (if \<not> det then with_map (\<lambda>m. modify_record m p drop_sender)
       else with_map (\<lambda>m. free_address m p))) w" for p
    by (intro ri.keeps_bind ri.keeps_reply_send) (simp add: drop free)
  show ?thesis
  proof (cases "\<exists>p r. get_primary_address (im (router w)) a = Some p
      \<and> get_address_record (im (router w)) p = Some r")
    case True
    then obtain p r where "get_primary_address (im (router w)) a = Some p"
      "get_address_record (im (router w)) p = Some r" by blast
    then show ?thesis by (intro keeps_cong [OF _ stop [of p]]) (simp add: stop_worker_exec_def)
  next
    case False
    then show ?thesis
      by (intro keeps_cong [OF _ ri.keeps_reply_send [of send_failed tx "no_such_address a"]])
        (auto simp: stop_worker_exec_def split: option.split)
  qed
qed

text \<open>A processor is stopped by the address of a processor.\<close>

fun well_addressed :: "NodeMessage \<Rightarrow> Router \<Rightarrow> bool" where
  "well_addressed (StopProcessor a tx) r = (case get_address_record (im r) a of
     None \<Rightarrow> True | Some rec \<Rightarrow> processor (meta rec))"
| "well_addressed _ r = True"

lemma keeps_stop_processor:
  assumes "well_addressed (StopProcessor a tx) (router w)"
  shows "ri.keeps (stop_processor_exec a tx) w"
proof (cases "bt_get (address_records_map (im (router w))) a")
  case None
  let ?m = "snd (remove_address_record (im (router w)) a)"
  have k: "ri.keeps (reply_send send_failed tx (no_such_address a)) (set_map ?m w)"
    by (rule ri.keeps_reply_send)
  have eq: "stop_processor_exec a tx w = reply_send send_failed tx (no_such_address a) (set_map ?m w)"
    using None by (simp add: stop_processor_exec_def remove_address_record_def Let_def)
  show ?thesis
    by (rule keeps_from [OF _ _ k], rule eq, rule router_ok_set_map)
      (use remove_absent_ok [OF None] in \<open>auto intro!: wf_intros simp: router_ok_def\<close>)
next
  case (Some r)
  let ?m = "remove_alias (snd (remove_address_record (im (router w)) a)) a"
  have proc: "processor (meta r)"
    using assms Some by (simp add: get_address_record_def)
  have k: "ri.keeps (run_then (stop_signal r) (reply_send send_failed tx reply_ok)) (set_map ?m w)"
    by (intro ri.keeps_bind keeps_stop_signal ri.keeps_reply_send)
  have eq: "stop_processor_exec a tx w
      = run_then (stop_signal r) (reply_send send_failed tx reply_ok) (set_map ?m w)"
    using Some by (simp add: stop_processor_exec_def remove_address_record_def Let_def run_simps)
      (simp add: set_map_def)
  show ?thesis
    by (rule keeps_from [OF _ _ k], rule eq, rule router_ok_set_map)
      (use Some proc unregister_ok in \<open>auto intro!: wf_intros simp: router_ok_def\<close>)
qed

lemma router_ok_cleared:
  assumes "router_ok (router w)" "\<not> running (router w)"
  shows "router_ok (router (set_map (clear_address_records_map (im (router w))) w))"
  using assms by (auto simp: router_ok_def running_def records_ok_def clear_address_records_map_def
      tables_ok_def)

lemma router_ok_killed:
  "router_ok (router w) \<Longrightarrow> router_ok (router (state_kill w))"
  by (auto simp: router_ok_def running_def state_kill_def)

lemma state_kill_set_map: "state_kill (set_map m w) = set_map m (state_kill w)"
  by (simp add: state_kill_def set_map_def)

lemma keeps_immediate: "ri.keeps (immediate tx) w"
proof -
  let ?w = "set_map (clear_address_records_map (im (router (state_kill w)))) (state_kill w)"
  have k: "ri.keeps (reply_send send_failed tx reply_ok) ?w" by (rule ri.keeps_reply_send)
  have eq: "immediate tx w = reply_send send_failed tx reply_ok ?w"
    by (simp add: immediate_def run_simps state_kill_set_map) (simp add: state_kill_def)
  show ?thesis
    by (rule keeps_from [OF _ _ k], rule eq, rule router_ok_cleared)
      (auto simp: router_ok_killed, simp add: state_kill_def running_def)
qed

lemma keeps_abort:
  assumes "stop_reply (router w) = Some tx"
  shows "ri.keeps (run_then (reply_send send_failed tx reply_ok)
    (run_then (with_map clear_address_records_map) (run_ok True))) w"
proof (rule ri.keeps_bind [OF ri.keeps_reply_send], rule ri.keeps_bind [OF _ ri.keeps_ok])
  fix a w' assume "reply_send send_failed tx reply_ok w = Inr (Inr a, w')"
  then have "router w' = router w" by (auto simp: reply_send_def split: if_splits)
  then show "ri.keeps (with_map clear_address_records_map) w'"
    using assms router_ok_cleared [of w']
    by (intro ri.keeps_with_map) (auto simp: stop_reply_def running_def split: NodeState.splits)
qed

lemma keeps_waiting:
  "ri.keeps (run_then (run_each (\<lambda>tx. reply_send send_failed tx reply_ok) waiting) (run_ok False)) w"
  by (intro ri.keeps_rules)

lemma keeps_set_map:
  assumes "f w = g (set_map m w)" "\<And>w'. ri.keeps g w'"
    and "tables_ok (im (router w)) \<Longrightarrow> tables_ok m" "records_ok (im (router w)) \<Longrightarrow> records_ok m"
    and "aliases_ok (im (router w)) \<Longrightarrow> aliases_ok m"
    and "address_records_map (im (router w)) = [] \<Longrightarrow> address_records_map m = []"
  shows "ri.keeps f w"
  by (rule keeps_from [where g = g, OF _ _ assms(2)], rule assms(1), rule router_ok_set_map)
    (auto simp: router_ok_def intro: assms(3-6))

lemma handle_msg_keeps:
  assumes "well_addressed m (router w)"
  shows "ri.keeps (handle_msg m) w"
proof (cases m)
  case (StopNode sd tx)
  then show ?thesis
    by (cases sd) (auto intro!: ri.keeps_bind keeps_graceful keeps_done keeps_immediate ri.keeps_ok)
next
  case (StartWorker as senders det count tx)
  then show ?thesis by (simp add: ri.keeps_bind keeps_start_worker_exec ri.keeps_ok)
next
  case (StartProcessor a senders tx)
  then show ?thesis by (simp add: ri.keeps_bind keeps_start_processor_exec ri.keeps_ok)
next
  case (StopWorker a det tx)
  then show ?thesis by (simp add: ri.keeps_bind keeps_stop_worker ri.keeps_ok)
next
  case (StopProcessor a tx)
  with assms show ?thesis by (simp add: ri.keeps_bind keeps_stop_processor ri.keeps_ok)
next
  case AbortNode
  show ?thesis
  proof (cases "stop_reply (router w)")
    case None
    with AbortNode show ?thesis by (intro keeps_cong [OF _ ri.keeps_ok [of False]]) simp
  next
    case (Some tx)
    with AbortNode show ?thesis by (intro keeps_cong [OF _ keeps_abort [OF Some]]) simp
  qed
next
  case (StopAck a)
  have free: "ri.keeps (run_then (with_map (\<lambda>m. free_address m a)) (run_ok False)) w"
    by (intro ri.keeps_bind ri.keeps_ok keeps_map) (simp_all add: wf_intros)
  have ack: "ri.keeps (run_bind (shutdown_ack a) (\<lambda>done. if done then finish_stop else run_ok False)) w"
    by (intro ri.keeps_bind keeps_shutdown_ack keeps_done)
  show ?thesis
    by (cases "running (router w)") (rule keeps_cong [OF _ free] keeps_cong [OF _ ack]; simp add: StopAck)+
next
  case (ListWorkers tx)
  then show ?thesis by (auto simp: ri.keeps_def run_simps run_prim_defs split: if_splits)
next
  case (SetCluster a label tx)
  show ?thesis
    by (rule keeps_set_map [where m = "snd (set_cluster (im (router w)) label a)"
          and g = "run_then (reply_send send_failed tx (fst (set_cluster (im (router w)) label a))) (run_ok False)"])
      (auto simp: SetCluster case_prod_unfold Let_def intro!: ri.keeps_bind ri.keeps_reply_send ri.keeps_ok wf_intros)
next
  case (SetReady a)
  show ?thesis
    by (rule keeps_set_map [where m = "snd (set_ready (im (router w)) a)"
          and g = "case fst (set_ready (im (router w)) a) of Inl _ \<Rightarrow> run_ok False
            | Inr waiting \<Rightarrow> run_then (run_each (\<lambda>tx. reply_send send_failed tx reply_ok) waiting) (run_ok False)"])
      (auto simp: SetReady case_prod_unfold Let_def intro!: keeps_waiting ri.keeps_ok wf_intros split: sum.split)
next
  case (CheckReady a tx)
  show ?thesis
    by (rule keeps_set_map [where m = "snd (get_ready (im (router w)) a tx)"
          and g = "if fst (get_ready (im (router w)) a tx)
            then run_then (reply_send send_failed tx reply_ok) (run_ok False) else run_ok False"])
      (auto simp: CheckReady case_prod_unfold Let_def intro!: ri.keeps_bind ri.keeps_reply_send ri.keeps_ok wf_intros)
next
  case (SenderReq a tx)
  have res: "ri.keeps (run_then (resolve a' tx) (run_ok False)) w" for a'
    by (intro ri.keeps_bind keeps_resolve ri.keeps_ok)
  consider (internal) a' where "handle_msg m w = run_then (resolve a' tx) (run_ok False) w"
    | (err) e where "handle_msg m w = run_err e w"
    by (cases "determine_type a"; cases "router_addr (router w) (transport_type a)")
      (auto simp: SenderReq determine_type_def split: if_splits)
  then show ?thesis
    by cases (rule keeps_cong [OF _ res] keeps_cong [OF _ ri.keeps_err], assumption)+
next
  case (RegisterRouter t a tx)
  then show ?thesis
    by (unfold ri.keeps_def)
      (auto simp: run_simps run_prim_defs router_ok_def running_def wf_intros split: if_splits)
qed

subsection \<open>Reachable states\<close>

text \<open>What the loop does with one message, and what may happen between messages: receivers go away,
  counters are read and reset by others.\<close>

inductive router_step :: "World \<Rightarrow> World \<Rightarrow> bool" where
  handle: "\<lbrakk>receiver_open (router w); well_addressed m (router w); handle_msg m w = Inr (r, w');
    r \<noteq> Inr True\<rbrakk> \<Longrightarrow> router_step w w'"
| finish: "\<lbrakk>receiver_open (router w); well_addressed m (router w); handle_msg m w = Inr (Inr True, w')\<rbrakk>
    \<Longrightarrow> router_step w (w'\<lparr>router := (router w')\<lparr>receiver_open := False\<rparr>\<rparr>)"
| others: "router_step w (w\<lparr>reply_open := f, ctrl_open := g, msg_counts := h\<rparr>)"

lemma router_step_ok:
  assumes "router_step w w'" "router_ok (router w)"
  shows "router_ok (router w')"
  using assms(1)
proof cases
  case (handle m r)
  then show ?thesis using ri.keepsD [OF handle_msg_keeps] assms(2) by blast
next
  case (finish m w'')
  then have "router_ok (router w'')" using ri.keepsD [OF handle_msg_keeps] assms(2) by blast
  with finish show ?thesis by (simp add: router_ok_def running_def)
qed (use assms in simp)

lemma router_ok_init: "fc_wf fc \<Longrightarrow> router_ok (Router_init (Router_new fc) a senders)"
  by (auto simp: router_ok_def Router_init_def Router_new_def AddressRecord_new_def records_ok_def
      aliases_ok_def InternalMap_new_def insert_alias_def insert_address_record_def tables_ok_def
      bt_keys_def bt_wf_def bt_get_def split: if_splits)

lemma router_steps_ok:
  "router_step\<^sup>*\<^sup>* w w' \<Longrightarrow> router_ok (router w) \<Longrightarrow> router_ok (router w')"
  by (induction rule: rtranclp_induct) (auto intro: router_step_ok)



subsection \<open>The life of a worker\<close>

text \<open>The answer a request for the sender of an address gets.\<close>

definition answers :: "World \<Rightarrow> Address \<Rightarrow> NodeReplyResult \<Rightarrow> bool" where
  "answers w a r \<longleftrightarrow> (\<forall>tx. reply_open w tx \<longrightarrow>
     (\<exists>w'. handle_msg (SenderReq a tx) w = Inr (Inr False, w') \<and> sent w' = sent w @ [(tx, r)]
        \<and> router w' = router w))"

lemma answers_local:
  assumes "Address_is_local a"
  shows "answers w a (case get_primary_address (im (router w)) a of
      None \<Rightarrow> no_such_address a
    | Some p \<Rightarrow> (case get_address_record (im (router w)) p of
        None \<Rightarrow> no_such_address a
      | Some r \<Rightarrow> if record_check r then reply_sender_of a (the (ar_sender r))
                  else worker_rejected WorkerShutdown))"
  using assms
  by (auto simp: answers_def determine_type_def Address_is_local_def transport_type_def TransportType_is_local_def resolve_def
      run_bind_def reply_send_def run_ok_def record_check_def record_sender_def split: option.split)

lemma start_worker_effect:
  assumes "running (router w)" "bt_get (address_records_map (im (router w))) p = None" "reply_open w tx"
  shows "\<exists>w'. handle_msg (StartWorker (p # as) senders det count tx) w = Inr (Inr False, w')
     \<and> sent w' = sent w @ [(tx, reply_ok)] \<and> node_state (router w') = node_state (router w)
     \<and> reply_open w' = reply_open w
     \<and> get_address_record (im (router w')) p = Some (AddressRecord_new (p # as) (msgs senders)
          (ctrl senders) (Some count) \<lparr>processor = False, detached = det\<rparr>)
     \<and> (\<forall>a \<in> set (p # as). get_primary_address (im (router w')) a = Some p)"
proof -
  let ?m = "fold (\<lambda>a m. insert_alias m a p) (p # as) (insert_address_record (im (router w)) p
      (AddressRecord_new (p # as) (msgs senders) (ctrl senders) (Some count)
        \<lparr>processor = False, detached = det\<rparr>))"
  let ?w' = "(set_map ?m w)\<lparr>sent := sent w @ [(tx, reply_ok)]\<rparr>"
  have "check_addr_not_exist p tx w = run_ok () w"
    using assms(2) by (simp add: check_addr_not_exist_def bt_contains_key_iff)
  then have check: "run_then (check_addr_not_exist p tx) k w = k w" for k :: "unit run"
    by (simp add: run_bind_def run_ok_def)
  have "start_worker_exec (p # as) senders det count tx w = Inr (Inr (), ?w')"
    using assms(1,3) by (simp add: start_worker_exec_def running_def start_worker_def with_map_twice
        check run_simps reply_send_def)
  then have h: "handle_msg (StartWorker (p # as) senders det count tx) w = Inr (Inr False, ?w')"
    by (simp add: run_bind_def run_ok_def)
  show ?thesis
    by (rule exI [of _ ?w'], intro conjI, rule h)
      (simp_all add: fold_insert_alias bt_get_fold_insert get_address_record_def bt_simps
        get_primary_address_def insert_address_record_def
        del: fold_Cons)
qed

lemma stop_worker_effect:
  assumes "get_primary_address (im (router w)) a = Some p" "get_address_record (im (router w)) p = Some r"
    and "reply_open w tx"
  shows "handle_msg (StopWorker a False tx) w = Inr (Inr False,
    (set_map (modify_record (im (router w)) p drop_sender) w)\<lparr>sent := sent w @ [(tx, reply_ok)]\<rparr>)"
  using assms by (simp add: run_bind_def stop_worker_exec_def reply_send_def with_map_def run_ok_def set_map_def)

text \<open>C32: the life of a worker.  Started on a running node with a fresh first address, every one of its
  local addresses resolves to its mailbox; stopped under any of its addresses, all of them answer
  that the worker is shutting down; when its relay acknowledges, none of them is known any more.\<close>

theorem worker_life_cycle:
  assumes "running (router w)" "bt_get (address_records_map (im (router w))) p = None"
    and "reply_open w tx" "reply_open w tx'"
  shows "\<exists>w1. handle_msg (StartWorker (p # as) senders det count tx) w = Inr (Inr False, w1)
     \<and> sent w1 = sent w @ [(tx, reply_ok)]
     \<and> (\<forall>a \<in> set (p # as). Address_is_local a \<longrightarrow> answers w1 a (reply_sender_of a (msgs senders)))
     \<and> (\<forall>b \<in> set (p # as). \<exists>w2. handle_msg (StopWorker b False tx') w1 = Inr (Inr False, w2)
          \<and> sent w2 = sent w1 @ [(tx', reply_ok)]
          \<and> (\<forall>a \<in> set (p # as). Address_is_local a \<longrightarrow> answers w2 a (worker_rejected WorkerShutdown))
          \<and> (\<exists>w3. handle_msg (StopAck p) w2 = Inr (Inr False, w3)
               \<and> (\<forall>a \<in> set (p # as). Address_is_local a \<longrightarrow> answers w3 a (no_such_address a))))"
proof -
  let ?r = "AddressRecord_new (p # as) (msgs senders) (ctrl senders) (Some count)
      \<lparr>processor = False, detached = det\<rparr>"
  obtain w1 where w1: "handle_msg (StartWorker (p # as) senders det count tx) w = Inr (Inr False, w1)"
      "sent w1 = sent w @ [(tx, reply_ok)]" "node_state (router w1) = node_state (router w)"
      "reply_open w1 = reply_open w" "get_address_record (im (router w1)) p = Some ?r"
      "\<And>a. a \<in> set (p # as) \<Longrightarrow> get_primary_address (im (router w1)) a = Some p"
    using start_worker_effect [OF assms(1-3)] by blast
  have up: "answers w1 a (reply_sender_of a (msgs senders))" if "a \<in> set (p # as)" "Address_is_local a" for a
    using answers_local [OF that(2), of w1] w1(5) w1(6) [OF that(1)]
    by (simp add: record_check_def AddressRecord_new_def)
  have down: "\<exists>w2. handle_msg (StopWorker b False tx') w1 = Inr (Inr False, w2)
      \<and> sent w2 = sent w1 @ [(tx', reply_ok)]
      \<and> (\<forall>a \<in> set (p # as). Address_is_local a \<longrightarrow> answers w2 a (worker_rejected WorkerShutdown))
      \<and> (\<exists>w3. handle_msg (StopAck p) w2 = Inr (Inr False, w3)
           \<and> (\<forall>a \<in> set (p # as). Address_is_local a \<longrightarrow> answers w3 a (no_such_address a)))"
    if b: "b \<in> set (p # as)" for b
  proof -
    define w2 where "w2 = (set_map (modify_record (im (router w1)) p drop_sender) w1)
        \<lparr>sent := sent w1 @ [(tx', reply_ok)]\<rparr>"
    define w3 where "w3 = set_map (free_address (im (router w2)) p) w2"
    have stop: "handle_msg (StopWorker b False tx') w1 = Inr (Inr False, w2)"
      unfolding w2_def by (rule stop_worker_effect) (use w1(4-6) b assms(4) in auto)
    have rec2: "get_address_record (im (router w2)) p = Some (drop_sender ?r)"
        "get_primary_address (im (router w2)) a = get_primary_address (im (router w1)) a" for a
      using w1(5) by (simp_all add: w2_def modify_record_def get_address_record_def
          get_primary_address_def bt_simps)
    have rejected: "answers w2 a (worker_rejected WorkerShutdown)"
      if "a \<in> set (p # as)" "Address_is_local a" for a
      using answers_local [OF that(2), of w2] rec2 w1(6) [OF that(1)]
      by (simp add: record_check_def drop_sender_def)
    have ack: "handle_msg (StopAck p) w2 = Inr (Inr False, w3)"
      using w1(3) assms(1) by (simp add: running_def run_simps w3_def w2_def run_ok_def)
    have gone: "answers w3 a (no_such_address a)" if "a \<in> set (p # as)" "Address_is_local a" for a
      using answers_local [OF that(2), of w3] rec2 that(1)
      by (simp add: w3_def free_address_alt get_address_record_def get_primary_address_def bt_simps
          AddressRecord_new_def drop_sender_def split: if_splits)
    show ?thesis
      using stop rejected ack gone by (intro exI [of _ w2] exI [of _ w3] conjI) (simp_all add: w2_def)
  qed
  from w1(1,2) up down show ?thesis by blast
qed

theorem worker_life_cycle_witness:
  "let p = Address_new LOCAL ''w''; q = Address_new LOCAL ''w2''
   in \<exists>w1 w2 w3. handle_msg (StartWorker [p, q] \<lparr>msgs = 7, ctrl = 8\<rparr> False 0 1) start_world = Inr (Inr False, w1)
        \<and> answers w1 q (reply_sender_of q 7)
        \<and> handle_msg (StopWorker q False 2) w1 = Inr (Inr False, w2)
        \<and> answers w2 p (worker_rejected WorkerShutdown)
        \<and> handle_msg (StopAck p) w2 = Inr (Inr False, w3) \<and> answers w3 q (no_such_address q)"
proof -
  let ?p = "Address_new LOCAL ''w''" and ?q = "Address_new LOCAL ''w2''"
  have run: "running (router start_world)" by (simp add: start_world_defs running_def)
  have fresh: "bt_get (address_records_map (im (router start_world))) ?p = None"
    by (simp add: start_world_defs bt_get_def Address_new_def)
  have loc: "Address_is_local ?p" "Address_is_local ?q"
    by (simp_all add: Address_is_local_def Address_new_def)
  have opn: "reply_open start_world tx" for tx by (simp add: start_world_def)
  show ?thesis unfolding Let_def
    using worker_life_cycle [OF run fresh opn [of 1] opn [of 2], of "[?q]" "\<lparr>msgs = 7, ctrl = 8\<rparr>" False 0] loc
    by (simp del: handle_msg.simps) blast
qed

subsection \<open>Readiness\<close>

lemma each_reply_send:
  assumes "\<forall>tx \<in> set txs. reply_open w tx"
  shows "run_then (run_each (\<lambda>tx. reply_send e tx r) txs) k w
           = k (w\<lparr>sent := sent w @ map (\<lambda>tx. (tx, r)) txs\<rparr>)"
  using assms
proof (induction txs arbitrary: w)
  case (Cons tx txs)
  then show ?case by (subst run_each.simps, subst run_bind_assoc) (simp add: run_simps)
qed (simp add: run_simps)

text \<open>Whoever asks whether a worker is ready gets exactly one answer, and only once it is: a
  question asked before is put in the queue and answered, in the order of the questions, by the
  message that marks the worker ready; one asked after is answered at once; marking it again
  answers nobody twice.\<close>

theorem readiness_answers:
  assumes "get_address_record (im (router w)) p = Some r" "ar_ready r = Initialising early"
    and "\<forall>tx \<in> set (early @ [tx, tx']). reply_open w tx"
  shows "\<exists>w1 w2 w3. handle_msg (CheckReady p tx) w = Inr (Inr False, w1) \<and> sent w1 = sent w
     \<and> handle_msg (SetReady p) w1 = Inr (Inr False, w2)
     \<and> sent w2 = sent w @ map (\<lambda>t. (t, reply_ok)) (early @ [tx])
     \<and> handle_msg (SetReady p) w2 = Inr (Inr False, w3) \<and> sent w3 = sent w2
     \<and> (\<exists>w4. handle_msg (CheckReady p tx') w3 = Inr (Inr False, w4)
            \<and> sent w4 = sent w3 @ [(tx', reply_ok)])"
proof -
  let ?m = "im (router w)"
  let ?m1 = "?m\<lparr>address_records_map := bt_insert p (r\<lparr>ar_ready := Initialising (early @ [tx])\<rparr>)
      (address_records_map ?m)\<rparr>"
  let ?m2 = "?m\<lparr>address_records_map := bt_insert p (r\<lparr>ar_ready := Ready\<rparr>)
      (bt_insert p (r\<lparr>ar_ready := Initialising (early @ [tx])\<rparr>) (address_records_map ?m))\<rparr>"
  let ?m3 = "?m2\<lparr>address_records_map := bt_insert p (r\<lparr>ar_ready := Ready\<rparr>) (address_records_map ?m2)\<rparr>"
  let ?m4 = "?m3\<lparr>address_records_map := bt_insert p (r\<lparr>ar_ready := Ready\<rparr>) (address_records_map ?m3)\<rparr>"
  let ?s = "sent w @ map (\<lambda>t. (t, reply_ok)) (early @ [tx])"
  have r: "bt_get (address_records_map ?m) p = Some r"
    using assms(1) by (simp add: get_address_record_def)
  have g1: "get_ready ?m p tx = (False, ?m1)"
    using r assms(2) by (simp add: get_ready_def modify_record_def record_ready_def)
  have g2: "set_ready ?m1 p = (Inr (early @ [tx]), ?m2)"
    by (simp add: set_ready_def modify_record_def record_set_ready_def bt_simps)
  have g3: "set_ready ?m2 p = (Inr [], ?m3)"
    by (simp add: set_ready_def modify_record_def record_set_ready_def bt_simps)
  have g4: "get_ready ?m3 p tx' = (True, ?m4)"
    by (simp add: get_ready_def modify_record_def record_ready_def bt_simps)
  have h1: "handle_msg (CheckReady p tx) w = Inr (Inr False, set_map ?m1 w)"
    using g1 by (simp add: run_ok_def)
  have h2: "handle_msg (SetReady p) (set_map ?m1 w) = Inr (Inr False, (set_map ?m2 w)\<lparr>sent := ?s\<rparr>)"
    using assms(3) by (simp add: g2 each_reply_send) (simp add: run_ok_def set_map_def)
  have h3: "handle_msg (SetReady p) ((set_map ?m2 w)\<lparr>sent := ?s\<rparr>)
      = Inr (Inr False, (set_map ?m3 w)\<lparr>sent := ?s\<rparr>)"
    by (simp add: g3 run_simps) (simp add: run_ok_def set_map_def)
  have h4: "handle_msg (CheckReady p tx') ((set_map ?m3 w)\<lparr>sent := ?s\<rparr>)
      = Inr (Inr False, (set_map ?m4 w)\<lparr>sent := ?s @ [(tx', reply_ok)]\<rparr>)"
    using assms(3) by (simp add: g4 [simplified] run_simps) (simp add: run_ok_def set_map_def)
  show ?thesis
    by (rule exI, rule exI, rule exI, intro conjI exI, rule h1, simp, rule h2, simp, rule h3, simp, rule h4, simp)
qed

theorem readiness_answers_witness:
  "\<exists>w1 w2. handle_msg (CheckReady (Address_new LOCAL ''app'') 1) start_world = Inr (Inr False, w1)
     \<and> sent w1 = [] \<and> handle_msg (SetReady (Address_new LOCAL ''app'')) w1 = Inr (Inr False, w2)
     \<and> sent w2 = [(1, reply_ok)]"
proof -
  let ?p = "Address_new LOCAL ''app''"
  let ?r = "AddressRecord_new [?p] 0 0 None \<lparr>processor = False, detached = True\<rparr>"
  have r: "get_address_record (im (router start_world)) ?p = Some ?r"
    by (simp add: start_world_defs get_address_record_def bt_get_def)
  have i: "ar_ready ?r = Initialising []" by (simp add: AddressRecord_new_def)
  have o: "\<forall>tx \<in> set ([] @ [1, 2]). reply_open start_world tx" by (simp add: start_world_def)
  have s: "sent start_world = []" by (simp add: start_world_def)
  show ?thesis using readiness_answers [OF r i o] s by (simp del: handle_msg.simps) blast
qed

subsection \<open>A shutdown nobody waits for\<close>

text \<open>C34: an immediate shutdown whose reply cannot be delivered does not end the loop: the router stays
  on, dead, and the next request to start a worker or a processor panics in code marked
  unreachable.\<close>

theorem failed_immediate_shutdown_panics:
  assumes "receiver_open (router w)" "\<not> reply_open w tx"
  shows "run_inner [StopNode Immediate tx, StartWorker as senders det count tx'] w
           = Inl (Panic ''internal error: entered unreachable code'')
     \<and> run_inner [StopNode Immediate tx, StartProcessor a senders tx'] w
           = Inl (Panic ''internal error: entered unreachable code'')"
  using assms
  by (simp add: immediate_def run_bind_assoc run_simps run_prim_defs run_bind_def state_kill_def
      start_worker_exec_def start_processor_exec_def)

theorem failed_immediate_shutdown_panics_witness:
  "run_inner [StopNode Immediate 1, StartProcessor (Address_new LOCAL ''p'') \<lparr>msgs = 1, ctrl = 1\<rparr> 2]
     (start_world\<lparr>reply_open := (\<lambda>_. False)\<rparr>) = Inl (Panic ''internal error: entered unreachable code'')"
  using failed_immediate_shutdown_panics [of "start_world\<lparr>reply_open := (\<lambda>_. False)\<rparr>" 1]
  by (simp add: start_world_defs)

end
