(* ===== verification/Node_Shutdown.thy ===== *)
theory Node_Shutdown
  imports Node_Router
begin

text \<open>
  The graceful shutdown of a node (\<open>shutdown.rs\<close>, \<open>handle_msg\<close>) as a whole: when it comes to its
  end, and when it does not.
\<close>

subsection \<open>Acknowledging\<close>

text \<open>Every cluster has a member that is alive, is not already being stopped and is in no other
  cluster.\<close>

definition clusters_live :: "InternalMap \<Rightarrow> bool" where
  "clusters_live m \<longleftrightarrow> (\<forall>l s. bt_get (clusters m) l = Some s \<longrightarrow>
     (\<exists>p \<in> set s. bt_get (address_records_map m) p \<noteq> None \<and> p \<notin> set (stopping m)
        \<and> (\<forall>l' s'. l' \<noteq> l \<longrightarrow> bt_get (clusters m) l' = Some s' \<longrightarrow> p \<notin> set s')))"

text \<open>The workers that are being stopped acknowledge one after the other, in an order of their
  choice.\<close>

fun acknowledge :: "(Address list \<Rightarrow> Address) \<Rightarrow> nat \<Rightarrow> World \<Rightarrow> World option" where
  "acknowledge pick 0 w = None"
| "acknowledge pick (Suc n) w =
     (case handle_msg (StopAck (pick (stopping (im (router w))))) w of
        Inr (Inr True, w') \<Rightarrow> Some w'
      | Inr (Inr False, w') \<Rightarrow> acknowledge pick n w'
      | _ \<Rightarrow> None)"

subsection \<open>Stopping records\<close>

definition same_shape :: "InternalMap \<Rightarrow> InternalMap \<Rightarrow> bool" where
  "same_shape m m' \<longleftrightarrow> clusters m' = clusters m \<and> cluster_order m' = cluster_order m
     \<and> stopping m' = stopping m
     \<and> (\<forall>p. bt_get (address_records_map m') p = None \<longleftrightarrow> bt_get (address_records_map m) p = None)"

definition quiet :: "World \<Rightarrow> World \<Rightarrow> bool" where
  "quiet w w' \<longleftrightarrow> same_shape (im (router w)) (im (router w'))
     \<and> node_state (router w') = node_state (router w) \<and> sent w' = sent w \<and> timers w' = timers w
     \<and> reply_open w' = reply_open w \<and> ctrl_open w' = ctrl_open w"

lemma quiet_refl: "quiet w w"
  by (simp add: quiet_def same_shape_def)

lemma quiet_trans: "quiet w w' \<Longrightarrow> quiet w' w'' \<Longrightarrow> quiet w w''"
  by (simp add: quiet_def same_shape_def)

lemma quiet_set_map: "same_shape (im (router w)) m \<Longrightarrow> quiet w (set_map m w)"
  by (simp add: quiet_def)

lemma same_shape_modify: "same_shape m (modify_record m p f)"
  by (simp add: same_shape_def modify_record_def bt_simps split: option.split)

lemma stop_record_quiet:
  assumes "\<forall>c. ctrl_open w c"
  shows "\<exists>w'. stop_record p w = Inr (Inr (), w') \<and> quiet w w'"
proof (cases "get_address_record (im (router w)) p")
  case None
  then show ?thesis by (simp add: stop_record_def run_ok_def quiet_refl)
next
  case (Some r)
  then show ?thesis
    using assms same_shape_modify [of "im (router w)" p mark_stopped]
    by (simp add: stop_record_def stop_signal_def run_simps) (simp add: with_map_def quiet_def)
qed

lemma each_quiet:
  assumes "\<And>p w. \<forall>c. ctrl_open w c \<Longrightarrow> \<exists>w'. f p w = Inr (Inr (), w') \<and> quiet w w'"
    and "\<forall>c. ctrl_open w c"
  shows "\<exists>w'. run_each f ps w = Inr (Inr (), w') \<and> quiet w w'"
  using assms(2)
proof (induction ps arbitrary: w)
  case (Cons p ps)
  obtain w1 where w1: "f p w = Inr (Inr (), w1)" "quiet w w1"
    using assms(1) Cons.prems by blast
  then have "\<forall>c. ctrl_open w1 c" using Cons.prems by (simp add: quiet_def)
  with Cons.IH obtain w2 where "run_each f ps w1 = Inr (Inr (), w2)" "quiet w1 w2" by blast
  with w1 show ?case by (auto simp: run_bind_def intro: quiet_trans)
qed (simp add: run_ok_def quiet_refl)

lemma graceful_stop_quiet:
  assumes "\<forall>c. ctrl_open w c"
  shows "\<exists>w'. graceful_stop p w = Inr (Inr (), w') \<and> quiet w w'"
  using stop_record_quiet [OF assms, of p] by (auto simp: graceful_stop_def run_ok_def quiet_refl)

lemma first_address_live:
  assumes "records_ok m" "list_all (\<lambda>p. bt_get (address_records_map m) p \<noteq> None) ps"
  shows "concat (map (first_address m) ps) = ps"
  using assms(2)
proof (induction ps)
  case (Cons p ps)
  then obtain r where r: "bt_get (address_records_map m) p = Some r" by auto
  with assms(1) have "take 1 (address_set r) = [p]"
    by (cases "address_set r") (fastforce simp: records_ok_def)+
  with Cons r show ?case by (simp add: first_address_def get_address_record_def)
qed simp

subsection \<open>The next cluster\<close>

lemma next_cluster_live:
  assumes "tables_ok m" "clusters_live m" "stopping m = []"
  shows "case next_cluster m of
      (None, m') \<Rightarrow> m' = m \<and> clusters m = []
    | (Some ps, m') \<Rightarrow> ps \<noteq> [] \<and> list_all (\<lambda>p. bt_get (address_records_map m) p \<noteq> None) ps
        \<and> address_records_map m' = address_records_map m \<and> stopping m' = []
        \<and> length (cluster_order m') < length (cluster_order m)
        \<and> clusters_live (init_stops ps m')"
proof (cases "cluster_order m" rule: rev_cases)
  case Nil
  with assms(1) show ?thesis by (simp add: next_cluster_def tables_ok_def bt_keys_def)
next
  case (snoc ord l)
  have "l \<in> set (bt_keys (clusters m))" using assms(1) snoc by (auto simp: tables_ok_def)
  then obtain s where s: "bt_get (clusters m) l = Some s" using bt_get_None_iff by fastforce
  let ?ps = "filter (bs_contains s) (bt_keys (address_records_map m))"
  let ?m' = "m\<lparr>cluster_order := ord, clusters := bt_remove l (clusters m)\<rparr>"
  have nc: "next_cluster m = (Some ?ps, ?m')" using snoc s by (simp add: next_cluster_def)
  obtain p where "p \<in> set s" "bt_get (address_records_map m) p \<noteq> None"
    using assms(2) s unfolding clusters_live_def by blast
  then have "p \<in> set ?ps" by (simp add: bt_get_None_iff)
  then have "?ps \<noteq> []" by (metis empty_iff empty_set)
  moreover have "list_all (\<lambda>p. bt_get (address_records_map m) p \<noteq> None) ?ps"
    by (simp add: list_all_iff bt_get_None_iff)
  moreover have "clusters_live (init_stops ?ps ?m')"
    unfolding clusters_live_def
  proof (intro allI impI)
    fix l1 s1
    assume "bt_get (clusters (init_stops ?ps ?m')) l1 = Some s1"
    then have l1: "l1 \<noteq> l" "bt_get (clusters m) l1 = Some s1"
      by (simp_all add: init_stops_def fold_init_stop bt_simps split: if_splits)
    then obtain q where q: "q \<in> set s1" "bt_get (address_records_map m) q \<noteq> None"
        "\<And>l' s'. l' \<noteq> l1 \<Longrightarrow> bt_get (clusters m) l' = Some s' \<Longrightarrow> q \<notin> set s'"
      using assms(2) unfolding clusters_live_def by blast
    then have "q \<notin> set s" using l1 s by metis
    with q l1 show "\<exists>p \<in> set s1. bt_get (address_records_map (init_stops ?ps ?m')) p \<noteq> None
        \<and> p \<notin> set (stopping (init_stops ?ps ?m'))
        \<and> (\<forall>l' s'. l' \<noteq> l1 \<longrightarrow> bt_get (clusters (init_stops ?ps ?m')) l' = Some s' \<longrightarrow> p \<notin> set s')"
      by (intro bexI [of _ q])
        (simp_all add: init_stops_def fold_init_stop set_fold_bs_insert bt_simps assms(3))
  qed
  ultimately show ?thesis using nc snoc assms(3) by simp
qed

lemma clusters_live_quiet:
  "same_shape m m' \<Longrightarrow> clusters_live m' = clusters_live m"
  by (simp add: same_shape_def clusters_live_def)

lemma same_shape_init_stops:
  "same_shape m m' \<Longrightarrow> same_shape (init_stops ps m) (init_stops ps m')"
  by (simp add: same_shape_def init_stops_def fold_init_stop)

lemma stop_next_cluster_live:
  assumes "tables_ok (im (router w))" "records_ok (im (router w))" "clusters_live (im (router w))"
    and "stopping (im (router w)) = []" "\<forall>c. ctrl_open w c"
  shows "\<exists>fin w'. stop_next_cluster w = Inr (Inr fin, w') \<and> sent w' = sent w
     \<and> node_state (router w') = node_state (router w) \<and> timers w' = timers w
     \<and> reply_open w' = reply_open w \<and> ctrl_open w' = ctrl_open w
     \<and> (if fin then clusters (im (router w')) = []
        else stopping (im (router w')) \<noteq> [] \<and> clusters_live (im (router w'))
          \<and> length (cluster_order (im (router w'))) < length (cluster_order (im (router w))))"
proof (cases "next_cluster (im (router w))")
  case (Pair nxt m)
  note nc = next_cluster_live [OF assms(1,3,4), unfolded Pair]
  show ?thesis
  proof (cases nxt)
    case None
    with nc Pair show ?thesis
      by (intro exI [of _ True] exI [of _ "set_map m w"]) (simp add: stop_next_cluster_def run_ok_def)
  next
    case (Some ps)
    with nc have ps: "ps \<noteq> []" "list_all (\<lambda>p. bt_get (address_records_map m) p \<noteq> None) ps"
        "stopping m = []" "length (cluster_order m) < length (cluster_order (im (router w)))"
        "clusters_live (init_stops ps m)"
      by simp_all
    have "records_ok m" using nc Some assms(2) by (simp add: records_ok_def)
    note first = first_address_live [OF this ps(2)]
    have "\<forall>c. ctrl_open (set_map m w) c" using assms(5) by simp
    then obtain w1 where w1: "run_each stop_record ps (set_map m w) = Inr (Inr (), w1)" "quiet (set_map m w) w1"
      using each_quiet [of stop_record] stop_record_quiet by blast
    let ?w' = "set_map (init_stops ps (im (router w1))) w1"
    have eq: "stop_next_cluster w = Inr (Inr False, ?w')"
      using Pair Some first w1(1) by (simp add: stop_next_cluster_def run_bind_def with_map_def run_ok_def)
    have shape: "same_shape m (im (router w1))" using w1(2) by (simp add: quiet_def)
    then have "clusters_live (im (router ?w'))"
      using clusters_live_quiet [OF same_shape_init_stops] ps(5) by simp
    moreover have "set (stopping (im (router ?w'))) = set ps"
      using shape ps(3) by (simp add: init_stops_def fold_init_stop set_fold_bs_insert same_shape_def)
    then have "stopping (im (router ?w')) \<noteq> []" using ps(1) by auto
    moreover have "cluster_order (im (router ?w')) = cluster_order m"
      using shape by (simp add: init_stops_def fold_init_stop same_shape_def)
    ultimately show ?thesis
      using eq w1(2) ps(4) by (intro exI [of _ False] exI [of _ ?w']) (simp add: quiet_def)
  qed
qed

text \<open>What a shutdown that is under way satisfies.\<close>

definition shutting_down :: "reply_sender \<Rightarrow> World \<Rightarrow> bool" where
  "shutting_down tx w \<longleftrightarrow> router_ok (router w) \<and> node_state (router w) = NodeStopping tx
     \<and> reply_open w tx \<and> (\<forall>c. ctrl_open w c) \<and> clusters_live (im (router w))
     \<and> stopping (im (router w)) \<noteq> []"

definition remaining :: "World \<Rightarrow> nat \<times> nat" where
  "remaining w = (length (cluster_order (im (router w))), length (stopping (im (router w))))"

lemma free_address_sel [simp]:
  "cluster_order (free_address m a) = cluster_order m" "clusters (free_address m a) = clusters m"
  by (simp_all add: free_address_alt)

lemma clusters_live_free:
  assumes "clusters_live m" "a \<in> set (stopping m)"
  shows "clusters_live (free_address m a)"
  unfolding clusters_live_def
proof (intro allI impI)
  fix l s assume "bt_get (clusters (free_address m a)) l = Some s"
  then have "bt_get (clusters m) l = Some s" by (simp add: free_address_alt)
  with assms(1) obtain q where "q \<in> set s" "bt_get (address_records_map m) q \<noteq> None" "q \<notin> set (stopping m)"
      "\<And>l' s'. l' \<noteq> l \<Longrightarrow> bt_get (clusters m) l' = Some s' \<Longrightarrow> q \<notin> set s'"
    unfolding clusters_live_def by blast
  moreover from this assms(2) have "q \<noteq> a" by blast
  ultimately show "\<exists>p \<in> set s. bt_get (address_records_map (free_address m a)) p \<noteq> None
      \<and> p \<notin> set (stopping (free_address m a))
      \<and> (\<forall>l' s'. l' \<noteq> l \<longrightarrow> bt_get (clusters (free_address m a)) l' = Some s' \<longrightarrow> p \<notin> set s')"
    by (intro bexI [of _ q]) (simp_all add: free_address_alt bt_simps)
qed

lemma finish_stop_stopping:
  assumes "node_state (router w) = NodeStopping tx" "reply_open w tx"
  shows "finish_stop w = Inr (Inr True, w\<lparr>sent := sent w @ [(tx, reply_ok)]\<rparr>)"
  using assms by (simp add: finish_stop_def stop_reply_def run_simps) (simp add: run_ok_def)

lemma ack_progress:
  assumes "shutting_down tx w" "a \<in> set (stopping (im (router w)))"
  shows "\<exists>fin w'. handle_msg (StopAck a) w = Inr (Inr fin, w')
     \<and> (if fin then sent w' = sent w @ [(tx, reply_ok)] \<and> clusters (im (router w')) = []
        else sent w' = sent w \<and> shutting_down tx w' \<and> (remaining w', remaining w) \<in> less_than <*lex*> less_than)"
proof -
  let ?m = "free_address (im (router w)) a"
  let ?w = "set_map ?m w"
  have w: "router_ok (router w)" "node_state (router w) = NodeStopping tx" "reply_open w tx"
      "\<forall>c. ctrl_open w c" "clusters_live (im (router w))"
    using assms(1) by (simp_all add: shutting_down_def)
  have live: "clusters_live ?m" using w(5) assms(2) by (rule clusters_live_free)
  have ok: "tables_ok ?m" "records_ok ?m" using w(1) by (simp_all add: router_ok_def wf_intros)
  have run: "handle_msg (StopAck a) w = (if stopping ?m \<noteq> [] then Inr (Inr False, ?w)
      else run_bind stop_next_cluster (\<lambda>done. if done then finish_stop else run_ok False) ?w)"
    using w(2) by (simp add: running_def shutdown_ack_def run_bind_assoc run_simps cluster_done_def)
      (simp add: run_bind_def run_ok_def)
  have kept: "router_ok (router w')" if "handle_msg (StopAck a) w = Inr (r, w')" for r w'
    using ri.keepsD [OF handle_msg_keeps [of "StopAck a" w]] w(1) that by simp
  show ?thesis
  proof (cases "stopping ?m = []")
    case False
    have "length (stopping ?m) < length (stopping (im (router w)))"
      using assms(2) by (simp add: free_address_alt bs_remove_def length_filter_less)
    moreover have h: "handle_msg (StopAck a) w = Inr (Inr False, ?w)" using run False by simp
    ultimately show ?thesis
      using False kept [OF h] live w
      by (intro exI [of _ False] exI [of _ ?w]) (simp add: shutting_down_def remaining_def del: handle_msg.simps)
  next
    case True
    then obtain fin w1 where w1: "stop_next_cluster ?w = Inr (Inr fin, w1)" "sent w1 = sent ?w"
        "node_state (router w1) = node_state (router ?w)" "reply_open w1 = reply_open ?w"
        "ctrl_open w1 = ctrl_open ?w"
        "if fin then clusters (im (router w1)) = []
         else stopping (im (router w1)) \<noteq> [] \<and> clusters_live (im (router w1))
           \<and> length (cluster_order (im (router w1))) < length (cluster_order (im (router ?w)))"
      using stop_next_cluster_live [of ?w] ok live w(4) unfolding set_map_sel by blast
    show ?thesis
    proof (cases fin)
      case True
      with run \<open>stopping ?m = []\<close> w1 w(2,3) show ?thesis
        by (intro exI [of _ True] exI [of _ "w1\<lparr>sent := sent w1 @ [(tx, reply_ok)]\<rparr>"])
          (simp add: run_bind_def finish_stop_stopping del: handle_msg.simps)
    next
      case False
      with run \<open>stopping ?m = []\<close> w1 have h: "handle_msg (StopAck a) w = Inr (Inr False, w1)"
        by (simp add: run_bind_def run_ok_def del: handle_msg.simps)
      with False w1 w kept [OF h] show ?thesis
        by (intro exI [of _ False] exI [of _ w1])
          (simp add: shutting_down_def remaining_def del: handle_msg.simps)
    qed
  qed
qed

lemma acknowledge_completes:
  assumes "shutting_down tx w" "\<And>s. s \<noteq> [] \<Longrightarrow> pick s \<in> set s"
  shows "\<exists>n w'. acknowledge pick n w = Some w' \<and> sent w' = sent w @ [(tx, reply_ok)]
     \<and> clusters (im (router w')) = []"
proof -
  have "wf (less_than <*lex*> less_than)" by auto
  from this assms(1) show ?thesis
  proof (induction "remaining w" arbitrary: w rule: wf_induct_rule)
    case less
    let ?a = "pick (stopping (im (router w)))"
    have "?a \<in> set (stopping (im (router w)))"
      using less.prems assms(2) by (simp add: shutting_down_def)
    from ack_progress [OF less.prems this] obtain fin w1 where
      step: "handle_msg (StopAck ?a) w = Inr (Inr fin, w1)"
        "if fin then sent w1 = sent w @ [(tx, reply_ok)] \<and> clusters (im (router w1)) = []
         else sent w1 = sent w \<and> shutting_down tx w1
           \<and> (remaining w1, remaining w) \<in> less_than <*lex*> less_than" by blast
    show ?case
    proof (cases fin)
      case True
      with step show ?thesis by (intro exI [of _ 1] exI [of _ w1]) (simp del: handle_msg.simps)
    next
      case False
      with step have "(remaining w1, remaining w) \<in> less_than <*lex*> less_than" "shutting_down tx w1"
        by simp_all
      from less.hyps [OF this] obtain n w2 where "acknowledge pick n w1 = Some w2"
          "sent w2 = sent w1 @ [(tx, reply_ok)] \<and> clusters (im (router w2)) = []" by blast
      with step False show ?thesis
        by (intro exI [of _ "Suc n"] exI [of _ w2]) (simp del: handle_msg.simps)
    qed
  qed
qed

subsection \<open>A graceful shutdown\<close>

lemma set_clustered: "set (clustered m) = (\<Union>p \<in> set (clusters m). set (snd p))"
proof -
  have "set (fold (\<lambda>p acc. fold bs_insert (snd p) acc) cs acc) = set acc \<union> (\<Union>p \<in> set cs. set (snd p))"
    for cs :: "(string \<times> Address list) list" and acc :: "Address list"
    by (induction cs arbitrary: acc) (auto simp: set_fold_bs_insert)
  then show ?thesis by (simp add: clustered_def)
qed

lemma non_cluster_workers_set:
  assumes "p \<in> set (non_cluster_workers m)" "bt_get (clusters m) l = Some s"
  shows "p \<notin> set s"
  using assms(1) bt_get_SomeD [OF assms(2)]
  by (fastforce simp: non_cluster_workers_def set_clustered)

lemma non_cluster_workers_live:
  "tables_ok m \<Longrightarrow> list_all (\<lambda>p. bt_get (address_records_map m) p \<noteq> None) (non_cluster_workers m)"
  by (auto simp: list_all_iff non_cluster_workers_def bt_get_None_iff bt_keys_def)

lemma clusters_live_init_stops:
  assumes "clusters_live m" "\<And>p l s. p \<in> set ps \<Longrightarrow> bt_get (clusters m) l = Some s \<Longrightarrow> p \<notin> set s"
  shows "clusters_live (init_stops ps m)"
  unfolding clusters_live_def
proof (intro allI impI)
  fix l s assume "bt_get (clusters (init_stops ps m)) l = Some s"
  then have s: "bt_get (clusters m) l = Some s" by (simp add: init_stops_def fold_init_stop)
  with assms(1) obtain q where "q \<in> set s" "bt_get (address_records_map m) q \<noteq> None" "q \<notin> set (stopping m)"
      "\<And>l' s'. l' \<noteq> l \<Longrightarrow> bt_get (clusters m) l' = Some s' \<Longrightarrow> q \<notin> set s'"
    unfolding clusters_live_def by blast
  moreover from this s assms(2) have "q \<notin> set ps" by blast
  ultimately show "\<exists>p \<in> set s. bt_get (address_records_map (init_stops ps m)) p \<noteq> None
      \<and> p \<notin> set (stopping (init_stops ps m))
      \<and> (\<forall>l' s'. l' \<noteq> l \<longrightarrow> bt_get (clusters (init_stops ps m)) l' = Some s' \<longrightarrow> p \<notin> set s')"
    by (intro bexI [of _ q]) (simp_all add: init_stops_def fold_init_stop set_fold_bs_insert)
qed

text \<open>The first step: the request is answered at once if there is nothing to stop, and otherwise a
  shutdown is under way.\<close>

lemma graceful_starts:
  assumes "router_ok (router w)" "clusters_live (im (router w))" "stopping (im (router w)) = []"
    and "reply_open w tx" "\<forall>c. ctrl_open w c"
  shows "\<exists>fin w'. handle_msg (StopNode (Graceful seconds) tx) w = Inr (Inr fin, w')
     \<and> (if fin then sent w' = sent w @ [(tx, reply_ok)] \<and> clusters (im (router w')) = []
        else sent w' = sent w \<and> shutting_down tx w')"
proof -
  let ?w0 = "state_shutdown tx w" and ?m = "im (router w)"
  let ?ps = "non_cluster_workers ?m"
  have m0: "im (router ?w0) = ?m" by (simp add: state_shutdown_def)
  have ok: "tables_ok ?m" "records_ok ?m" using assms(1) by (simp_all add: router_ok_def)
  have first: "concat (map (first_address ?m) ?ps) = ?ps"
    by (rule first_address_live [OF ok(2) non_cluster_workers_live [OF ok(1)]])
  have "\<forall>c. ctrl_open ?w0 c" using assms(5) by (simp add: state_shutdown_def)
  then obtain w1 where w1: "run_each graceful_stop ?ps ?w0 = Inr (Inr (), w1)" "quiet ?w0 w1"
    using each_quiet [of graceful_stop] graceful_stop_quiet by blast
  have frame: "same_shape ?m (im (router w1))" "node_state (router w1) = NodeStopping tx"
      "sent w1 = sent w" "reply_open w1 = reply_open w" "ctrl_open w1 = ctrl_open w"
    using w1(2) m0 by (simp_all add: quiet_def) (simp_all add: state_shutdown_def)
  have kept: "router_ok (router w')"
    if "handle_msg (StopNode (Graceful seconds) tx) w = Inr (r, w')" for r w'
    using ri.keepsD [OF handle_msg_keeps [of "StopNode (Graceful seconds) tx" w]] assms(1) that by simp
  have live1: "clusters_live (im (router w1))" using clusters_live_quiet [OF frame(1)] assms(2) by simp
  show ?thesis
  proof (cases "?ps = []")
    case True
    then have w1': "w1 = ?w0" using w1(1) by (simp add: run_ok_def)
    have live0: "clusters_live (im (router ?w0))" "stopping (im (router ?w0)) = []"
      using assms(2,3) m0 by simp_all
    obtain fin w2 where w2: "stop_next_cluster ?w0 = Inr (Inr fin, w2)" "sent w2 = sent ?w0"
        "node_state (router w2) = node_state (router ?w0)" "reply_open w2 = reply_open ?w0"
        "ctrl_open w2 = ctrl_open ?w0"
        "if fin then clusters (im (router w2)) = []
         else stopping (im (router w2)) \<noteq> [] \<and> clusters_live (im (router w2))
           \<and> length (cluster_order (im (router w2))) < length (cluster_order (im (router ?w0)))"
      using stop_next_cluster_live [OF _ _ live0] ok m0 \<open>\<forall>c. ctrl_open ?w0 c\<close> by metis
    have eq: "handle_msg (StopNode (Graceful seconds) tx) w
        = run_bind stop_next_cluster (\<lambda>done. if done then finish_stop else run_ok False) ?w0"
      using True m0 by (simp add: run_bind_def graceful_def run_ok_def)
    have fs: "finish_stop w2 = Inr (Inr True, w2\<lparr>sent := sent w @ [(tx, reply_ok)]\<rparr>)"
      using finish_stop_stopping [of w2 tx] w2 assms(4) by (simp add: state_shutdown_def)
    show ?thesis
    proof (cases fin)
      case True
      with eq w2 fs show ?thesis
        by (intro exI [of _ True] exI [of _ "w2\<lparr>sent := sent w @ [(tx, reply_ok)]\<rparr>"])
          (simp add: run_bind_def del: handle_msg.simps)
    next
      case False
      with eq w2 have h: "handle_msg (StopNode (Graceful seconds) tx) w = Inr (Inr False, w2)"
        by (simp add: run_bind_def run_ok_def del: handle_msg.simps)
      with False w2 kept [OF h] assms(4,5) show ?thesis
        by (intro exI [of _ False] exI [of _ w2])
          (simp add: shutting_down_def state_shutdown_def del: handle_msg.simps)
    qed
  next
    case False
    let ?w' = "(set_map (init_stops ?ps (im (router w1))) w1)\<lparr>timers := timers w1 @ [seconds]\<rparr>"
    have h: "handle_msg (StopNode (Graceful seconds) tx) w = Inr (Inr False, ?w')"
      using False m0 first w1(1)
      by (simp add: run_bind_def graceful_def with_map_def run_ok_def Let_def)
    have st: "set (stopping (im (router ?w'))) = set ?ps"
      using frame(1) assms(3)
      by (simp add: init_stops_def fold_init_stop set_fold_bs_insert same_shape_def)
    have "clusters_live (im (router ?w'))"
      using clusters_live_init_stops [OF live1, of ?ps] non_cluster_workers_set frame(1)
      by (simp add: same_shape_def)
    moreover have "stopping (im (router ?w')) \<noteq> []" using st False by auto
    ultimately show ?thesis
      using h kept [OF h] frame assms(4,5)
      by (intro exI [of _ False] exI [of _ ?w']) (simp add: shutting_down_def del: handle_msg.simps)
  qed
qed



text \<open>C33: a graceful shutdown can wait forever.  When every clustered worker of the youngest cluster has
  already gone and no clusterless worker is left, the request is not answered, no worker is told
  to stop, nothing is left to acknowledge and no timeout is started: unless a message that no
  part of the shutdown sends arrives, the node never stops.\<close>

theorem graceful_shutdown_stalls:
  assumes "non_cluster_workers (im (router w)) = []" "cluster_order (im (router w)) = ord @ [l]"
    and "bt_get (clusters (im (router w))) l = Some s"
    and "\<forall>p \<in> set s. bt_get (address_records_map (im (router w))) p = None"
    and "stopping (im (router w)) = []"
  shows "\<exists>w'. handle_msg (StopNode (Graceful seconds) tx) w = Inr (Inr False, w')
     \<and> sent w' = sent w \<and> signals w' = signals w \<and> timers w' = timers w
     \<and> stopping (im (router w')) = []
     \<and> address_records_map (im (router w')) = address_records_map (im (router w))"
proof -
  let ?m = "im (router w)"
  let ?m' = "?m\<lparr>cluster_order := ord, clusters := bt_remove l (clusters ?m)\<rparr>"
  have "filter (bs_contains s) (bt_keys (address_records_map ?m)) = []"
    using assms(4) by (auto simp: filter_empty_conv bt_get_None_iff)
  then have "next_cluster ?m = (Some [], ?m')"
    using assms(2,3) by (simp add: next_cluster_def)
  then have "handle_msg (StopNode (Graceful seconds) tx) w
      = Inr (Inr False, set_map ?m' (state_shutdown tx w))"
    using assms(1) by (simp add: run_bind_def graceful_def run_ok_def stop_next_cluster_def
        state_shutdown_def with_map_def init_stops_def set_map_def Let_def)
  then show ?thesis
    using assms(5) by (simp add: state_shutdown_def del: handle_msg.simps)
qed

theorem graceful_shutdown_stalls_witness:
  "let p = Address_new LOCAL ''w''
   in \<exists>w w'. run_inner [StartWorker [p] \<lparr>msgs = 7, ctrl = 8\<rparr> False 0 1, SetCluster p ''c'' 2, StopAck p]
          start_world = Inr (Inr False, w)
        \<and> handle_msg (StopNode (Graceful 1) 3) w = Inr (Inr False, w')
        \<and> sent w' = sent w \<and> signals w' = signals w \<and> timers w' = timers w
        \<and> stopping (im (router w')) = []"
proof -
  let ?p = "Address_new LOCAL ''w''"
  let ?ms = "[StartWorker [?p] \<lparr>msgs = 7, ctrl = 8\<rparr> False 0 1, SetCluster ?p ''c'' 2, StopAck ?p]"
  define res where "res = run_inner ?ms start_world"
  have c: "case res of
      Inr (Inr False, w) \<Rightarrow> non_cluster_workers (im (router w)) = [] \<and> cluster_order (im (router w)) = [''c'']
        \<and> map_of (clusters (im (router w))) ''c'' = Some [?p]
        \<and> bt_contains_key (address_records_map (im (router w))) ?p = False \<and> stopping (im (router w)) = []
    | _ \<Rightarrow> False"
    unfolding res_def by code_simp
  obtain w where r: "res = Inr (Inr False, w)"
  proof (cases res)
    case (Inr x)
    with c that show ?thesis by (cases x; cases "fst x") (auto split: bool.splits)
  qed (use c in simp)
  have w: "non_cluster_workers (im (router w)) = []" "cluster_order (im (router w)) = [] @ [''c'']"
      "bt_get (clusters (im (router w))) ''c'' = Some [?p]"
      "\<forall>p \<in> set [?p]. bt_get (address_records_map (im (router w))) p = None"
      "stopping (im (router w)) = []"
    using c unfolding r by (simp_all add: bt_get_def bt_contains_key_def map_of_eq_None_iff)
  from graceful_shutdown_stalls [OF w, of 1 3] r show ?thesis
    unfolding Let_def res_def by blast
qed

end
