(* ===== verification/Abac_Expr.thy ===== *)
theory Abac_Expr
  imports BTree
begin

text \<open>
  \<open>ockam_abac/src/{expr,env,error}.rs\<close>: policy expressions, their typed equality and
  comparison, and environments.  The loops of \<open>Expr::equals\<close> and \<open>Expr::compare\<close> work on an
  explicit stack; a stack is the list of its elements from the top down, so pushing the pairs of two
  sequences in reverse order puts them in front in order.

  An \<open>i64\<close> is a 64-bit word read as signed; an \<open>f64\<close> is its IEEE 754 bit pattern, with the
  equality and the partial order of that standard written out on the bits.
\<close>

subsection \<open>Numbers\<close>

type_synonym i64 = "64 word"
type_synonym f64 = "64 word"

datatype Ordering = Less | Equal | Greater

definition cmp :: "'a::linorder \<Rightarrow> 'a \<Rightarrow> Ordering" where
  "cmp a b = (if a < b then Less else if a = b then Equal else Greater)"

definition f64_magnitude :: "f64 \<Rightarrow> int" where
  "f64_magnitude x = uint x mod 2 ^ 63"

definition f64_sign_negative :: "f64 \<Rightarrow> bool" where
  "f64_sign_negative x = (2 ^ 63 \<le> uint x)"

text \<open>All exponent bits set and a non-zero fraction.\<close>

definition f64_is_nan :: "f64 \<Rightarrow> bool" where
  "f64_is_nan x = (0x7FF0000000000000 < f64_magnitude x)"

definition f64_is_infinite :: "f64 \<Rightarrow> bool" where
  "f64_is_infinite x = (0x7FF0000000000000 = f64_magnitude x)"

text \<open>Sign and magnitude: an order-preserving key of the numbers, the same for both zeros.\<close>

definition f64_key :: "f64 \<Rightarrow> int" where
  "f64_key x = (if f64_sign_negative x then - f64_magnitude x else f64_magnitude x)"

definition f64_eq :: "f64 \<Rightarrow> f64 \<Rightarrow> bool" where
  "f64_eq a b = (\<not> f64_is_nan a \<and> \<not> f64_is_nan b \<and> f64_key a = f64_key b)"

definition f64_partial_cmp :: "f64 \<Rightarrow> f64 \<Rightarrow> Ordering option" where
  "f64_partial_cmp a b =
     (if f64_is_nan a \<or> f64_is_nan b then None else Some (cmp (f64_key a) (f64_key b)))"

definition i64_cmp :: "i64 \<Rightarrow> i64 \<Rightarrow> Ordering" where
  "i64_cmp a b = cmp (sint a) (sint b)"

subsection \<open>Data\<close>

datatype Expr =
    EStr string
  | EInt i64
  | EFloat f64
  | EBool bool
  | EIdent string
  | ESeq "Expr list"
  | EList "Expr list"

datatype Val = VStr string | VInt i64 | VFloat f64 | VBool bool | VSeq "Val list"

datatype EvalError =
    Unbound string
  | Unknown string
  | InvalidType Expr string
  | TypeMismatch Expr Expr
  | Malformed string

datatype MergeError = BindingExists string

type_synonym Env = "(string, Expr) btree_map"

subsection \<open>Expressions\<close>

fun Expr_from_val :: "Val \<Rightarrow> Expr" where
  "Expr_from_val (VStr s) = EStr s"
| "Expr_from_val (VInt i) = EInt i"
| "Expr_from_val (VFloat f) = EFloat f"
| "Expr_from_val (VBool b) = EBool b"
| "Expr_from_val (VSeq s) = ESeq (map Expr_from_val s)"

fun is_true :: "Expr \<Rightarrow> bool" where
  "is_true (EBool b) = b"
| "is_true _ = False"

fun is_false :: "Expr \<Rightarrow> bool" where
  "is_false (EBool b) = (\<not> b)"
| "is_false _ = False"

fun is_unit :: "Expr \<Rightarrow> bool" where
  "is_unit (EList xs) = (xs = [])"
| "is_unit _ = False"

fun is_ident :: "Expr \<Rightarrow> bool" where
  "is_ident (EIdent _) = True"
| "is_ident _ = False"

function (sequential) equals_loop :: "(Expr \<times> Expr) list \<Rightarrow> EvalError + bool" where
  "equals_loop [] = Inr True"
| "equals_loop ((EStr a, EStr b) # ctrl) = (if a \<noteq> b then Inr False else equals_loop ctrl)"
| "equals_loop ((EBool a, EBool b) # ctrl) = (if a \<noteq> b then Inr False else equals_loop ctrl)"
| "equals_loop ((EIdent a, EIdent b) # ctrl) = (if a \<noteq> b then Inr False else equals_loop ctrl)"
| "equals_loop ((EInt a, EInt b) # ctrl) = (if a \<noteq> b then Inr False else equals_loop ctrl)"
| "equals_loop ((EFloat a, EFloat b) # ctrl) = (if \<not> f64_eq a b then Inr False else equals_loop ctrl)"
| "equals_loop ((ESeq a, ESeq b) # ctrl) =
     (if length a \<noteq> length b then Inr False else equals_loop (zip a b @ ctrl))"
| "equals_loop ((EList a, EList b) # ctrl) =
     (if length a \<noteq> length b then Inr False else equals_loop (zip a b @ ctrl))"
| "equals_loop ((a, b) # ctrl) = Inl (TypeMismatch a b)"
  by pat_completeness auto

definition ctrl_size :: "(Expr \<times> Expr) list \<Rightarrow> nat" where
  "ctrl_size ctrl = sum_list (map (\<lambda>p. size (fst p)) ctrl)"

lemma ctrl_size_zip: "ctrl_size (zip a b @ ctrl) \<le> size_list size a + ctrl_size ctrl"
proof (induction a arbitrary: b)
  case (Cons x xs)
  show ?case
  proof (cases b)
    case (Cons y ys)
    with Cons.IH [of ys] show ?thesis by (simp add: ctrl_size_def)
  qed (simp add: ctrl_size_def)
qed (simp add: ctrl_size_def)

lemma ctrl_size_Cons: "ctrl_size (p # ctrl) = size (fst p) + ctrl_size ctrl"
  by (simp add: ctrl_size_def)

termination equals_loop
proof (relation "measures [ctrl_size, length]", goal_cases)
  case (7 a b ctrl)
  then show ?case using ctrl_size_zip [of a b ctrl] by (simp add: ctrl_size_Cons)
next
  case (8 a b ctrl)
  then show ?case using ctrl_size_zip [of a b ctrl] by (simp add: ctrl_size_Cons)
qed (simp_all add: ctrl_size_Cons)

definition equals :: "Expr \<Rightarrow> Expr \<Rightarrow> EvalError + bool" where
  "equals self other = equals_loop [(self, other)]"

text \<open>The tail of the loop body: an unequal result ends the loop, an equal one continues it.\<close>

function (sequential) compare_loop ::
  "Ordering option \<Rightarrow> (Expr \<times> Expr) list \<Rightarrow> EvalError + Ordering option" where
  "compare_loop result [] = Inr result"
| "compare_loop result ((EStr a, EStr b) # ctrl) =
     (let r = Some (cmp a b) in if r \<noteq> Some Equal then Inr r else compare_loop r ctrl)"
| "compare_loop result ((EBool a, EBool b) # ctrl) =
     (let r = Some (cmp a b) in if r \<noteq> Some Equal then Inr r else compare_loop r ctrl)"
| "compare_loop result ((EIdent a, EIdent b) # ctrl) =
     (let r = Some (cmp a b) in if r \<noteq> Some Equal then Inr r else compare_loop r ctrl)"
| "compare_loop result ((EInt a, EInt b) # ctrl) =
     (let r = Some (i64_cmp a b) in if r \<noteq> Some Equal then Inr r else compare_loop r ctrl)"
| "compare_loop result ((EFloat a, EFloat b) # ctrl) =
     (let r = f64_partial_cmp a b in if r \<noteq> Some Equal then Inr r else compare_loop r ctrl)"
| "compare_loop result ((ESeq a, ESeq b) # ctrl) =
     (let r = Some (cmp (length a) (length b)) in
      if r = Some Equal then compare_loop r (zip a b @ ctrl) else Inr r)"
| "compare_loop result ((EList a, EList b) # ctrl) =
     (let r = Some (cmp (length a) (length b)) in
      if r = Some Equal then compare_loop r (zip a b @ ctrl) else Inr r)"
| "compare_loop result ((a, b) # ctrl) = Inl (TypeMismatch a b)"
  by pat_completeness auto

termination compare_loop
proof (relation "measures [ctrl_size \<circ> snd, length \<circ> snd]", goal_cases)
  case (7 result a b ctrl r)
  then show ?case using ctrl_size_zip [of a b ctrl] by (simp add: ctrl_size_Cons)
next
  case (8 result a b ctrl r)
  then show ?case using ctrl_size_zip [of a b ctrl] by (simp add: ctrl_size_Cons)
qed (simp_all add: ctrl_size_Cons)

definition compare :: "Expr \<Rightarrow> Expr \<Rightarrow> EvalError + Ordering option" where
  "compare self other = compare_loop None [(self, other)]"

definition with_op :: "Expr \<Rightarrow> Expr list \<Rightarrow> Expr" where
  "with_op op exprs = EList (op # exprs)"

definition unit_expr :: Expr where
  "unit_expr = EList []"

definition and_expr :: "Expr list \<Rightarrow> Expr" where
  "and_expr exprs = with_op (EIdent ''and'') exprs"

definition or_expr :: "Expr list \<Rightarrow> Expr" where
  "or_expr exprs = with_op (EIdent ''or'') exprs"

definition exists_expr :: "Expr list \<Rightarrow> Expr" where
  "exists_expr exprs = with_op (EIdent ''exists?'') exprs"

definition when_expr :: "Expr \<Rightarrow> Expr \<Rightarrow> Expr \<Rightarrow> Expr" where
  "when_expr test thn orelse = with_op (EIdent ''if'') [test, thn, orelse]"

definition eq_expr :: "Expr list \<Rightarrow> Expr" where
  "eq_expr exprs = with_op (EIdent ''='') exprs"

subsection \<open>Environments\<close>

definition Env_new :: Env where
  "Env_new = []"

definition Env_get :: "Env \<Rightarrow> string \<Rightarrow> EvalError + Expr" where
  "Env_get self k = ok_or (bt_get self k) (Unbound k)"

definition Env_contains :: "Env \<Rightarrow> string \<Rightarrow> bool" where
  "Env_contains self k = bt_contains_key self k"

definition Env_put :: "Env \<Rightarrow> string \<Rightarrow> Expr \<Rightarrow> Env" where
  "Env_put self k v = bt_insert k v self"

definition Env_del :: "Env \<Rightarrow> string \<Rightarrow> Env" where
  "Env_del self k = bt_remove k self"

definition Env_merge_right :: "Env \<Rightarrow> Env \<Rightarrow> Env" where
  "Env_merge_right self other = fold (\<lambda>(k, v) m. bt_insert k v m) other self"

definition Env_merge_left :: "Env \<Rightarrow> Env \<Rightarrow> Env" where
  "Env_merge_left self other =
     fold (\<lambda>(k, v) m. if bt_contains_key m k then m else bt_insert k v m) other self"

definition Env_merge :: "Env \<Rightarrow> Env \<Rightarrow> MergeError + Env" where
  "Env_merge self other =
     (case find (\<lambda>k. bt_contains_key self k) (bt_keys other) of
        Some k \<Rightarrow> Inl (BindingExists k)
      | None \<Rightarrow> Inr (fold (\<lambda>(k, v) m. bt_insert k v m) other self))"

subsection \<open>The two loops, one step at a time\<close>

text \<open>An expression has a shape, sub-expressions and a part that is compared at once; each loop
  compares that part and then goes on with the pairs of sub-expressions.\<close>

fun shape :: "Expr \<Rightarrow> nat" where
  "shape (EStr _) = 0" | "shape (EInt _) = 1" | "shape (EFloat _) = 2" | "shape (EBool _) = 3"
| "shape (EIdent _) = 4" | "shape (ESeq _) = 5" | "shape (EList _) = 6"

fun children :: "Expr \<Rightarrow> Expr list" where
  "children (ESeq xs) = xs" | "children (EList xs) = xs" | "children _ = []"

fun head_cmp :: "Expr \<Rightarrow> Expr \<Rightarrow> Ordering option" where
  "head_cmp (EStr a) (EStr b) = Some (cmp a b)"
| "head_cmp (EInt a) (EInt b) = Some (i64_cmp a b)"
| "head_cmp (EFloat a) (EFloat b) = f64_partial_cmp a b"
| "head_cmp (EBool a) (EBool b) = Some (cmp a b)"
| "head_cmp (EIdent a) (EIdent b) = Some (cmp a b)"
| "head_cmp a b = Some (cmp (length (children a)) (length (children b)))"

lemma cmp_eq_iff [simp]:
  "cmp a b = Equal \<longleftrightarrow> a = b" "cmp a b = Less \<longleftrightarrow> a < b" "cmp a b = Greater \<longleftrightarrow> b < a"
  by (auto simp: cmp_def)

lemma i64_cmp_eq_iff [simp]: "i64_cmp a b = Equal \<longleftrightarrow> a = b"
  by (auto simp: i64_cmp_def intro: signed_word_eqI)

lemma cmp_refl [simp]: "cmp a a = Equal" "i64_cmp i i = Equal"
  by simp_all

lemma f64_eq_iff: "f64_eq a b \<longleftrightarrow> f64_partial_cmp a b = Some Equal"
  by (auto simp: f64_eq_def f64_partial_cmp_def)

lemma compare_loop_step:
  "compare_loop r ((a, b) # ctrl) =
     (if shape a \<noteq> shape b then Inl (TypeMismatch a b)
      else if head_cmp a b \<noteq> Some Equal then Inr (head_cmp a b)
      else compare_loop (Some Equal) (zip (children a) (children b) @ ctrl))"
  by (cases a; cases b) (simp_all add: Let_def)

lemma equals_loop_step:
  "equals_loop ((a, b) # ctrl) =
     (if shape a \<noteq> shape b then Inl (TypeMismatch a b)
      else if head_cmp a b \<noteq> Some Equal then Inr False
      else equals_loop (zip (children a) (children b) @ ctrl))"
  by (cases a; cases b) (simp_all add: f64_eq_iff)

lemma head_cmp_Equal_length: "shape a = shape b \<Longrightarrow> head_cmp a b = Some Equal \<Longrightarrow> length (children a) = length (children b)"
  by (cases a; cases b) simp_all

definition weight :: "Expr list \<Rightarrow> nat" where
  "weight xs = sum_list (map (\<lambda>x. Suc (size x)) xs)"

lemma weight_children: "weight (children a @ xs) < weight (a # xs)"
proof -
  have "weight ys = size_list size ys" for ys by (induction ys) (simp_all add: weight_def)
  then show ?thesis by (cases a) (simp_all add: weight_def)
qed

lemma weight_children_zip:
  "weight (map fst (zip (children a) (children b) @ ctrl)) < weight (map fst ((a, b) # ctrl))"
proof -
  have "weight (map fst (zip xs ys @ ctrl)) \<le> weight (xs @ map fst ctrl)" for xs ys :: "Expr list"
  proof (induction xs arbitrary: ys)
    case (Cons x xs)
    show ?case
    proof (cases ys)
      case (Cons y ys')
      with Cons.IH [of ys'] show ?thesis by (simp add: weight_def)
    qed (simp add: weight_def)
  qed simp
  from this [of "children a" "children b"] weight_children [of a "map fst ctrl"]
  show ?thesis unfolding list.map fst_conv by (rule order_le_less_trans)
qed

lemma pairs_induct [case_names Nil Cons]:
  assumes "P []" "\<And>a b ctrl. P (zip (children a) (children b) @ ctrl) \<Longrightarrow> P ((a, b) # ctrl)"
  shows "P ctrl"
proof (induction ctrl rule: measure_induct_rule [where f = "\<lambda>c. weight (map fst c)"])
  case (less ctrl)
  show ?case
  proof (cases ctrl)
    case (Cons p rest)
    obtain a b where "p = (a, b)" by force
    with Cons less assms(2) weight_children_zip show ?thesis by metis
  qed (simp add: assms(1))
qed

subsection \<open>Equality and comparison\<close>

fun swap_mismatch :: "EvalError \<Rightarrow> EvalError" where
  "swap_mismatch (TypeMismatch a b) = TypeMismatch b a"
| "swap_mismatch e = e"

fun opposite :: "Ordering \<Rightarrow> Ordering" where
  "opposite Less = Greater" | "opposite Equal = Equal" | "opposite Greater = Less"

lemma opposite_cmp: "opposite (cmp a b) = cmp b a"
  by (auto simp: cmp_def)

lemma opposite_head_cmp: "shape a = shape b \<Longrightarrow> head_cmp b a = map_option opposite (head_cmp a b)"
  by (cases a; cases b) (simp_all add: opposite_cmp f64_partial_cmp_def i64_cmp_def)

lemma map_swap_zip: "map prod.swap (zip xs ys) = zip ys xs"
  by (induction xs ys rule: list_induct2') auto

lemma equals_loop_swap: "equals_loop (map prod.swap ctrl) = map_err swap_mismatch (equals_loop ctrl)"
proof (induction ctrl rule: pairs_induct)
  case (Cons a b ctrl)
  have "head_cmp b a = Some Equal \<longleftrightarrow> head_cmp a b = Some Equal" if "shape a = shape b"
    using opposite_head_cmp [OF that] by (cases "head_cmp a b"; cases "the (head_cmp a b)") auto
  with Cons show ?case by (auto simp: equals_loop_step map_swap_zip)
qed simp

lemma compare_loop_swap:
  "compare_loop (map_option opposite r) (map prod.swap ctrl)
     = map_err swap_mismatch (result_map (map_option opposite) (compare_loop r ctrl))"
proof (induction ctrl arbitrary: r rule: pairs_induct)
  case (Cons a b ctrl)
  have "head_cmp b a = Some Equal \<longleftrightarrow> head_cmp a b = Some Equal" if "shape a = shape b"
    using opposite_head_cmp [OF that] by (cases "head_cmp a b"; cases "the (head_cmp a b)") auto
  with Cons.IH [of "Some Equal"] show ?case
    using opposite_head_cmp [of a b] by (auto simp: compare_loop_step map_swap_zip)
qed simp

lemma compare_equals_loop:
  "r = Some Equal \<or> ctrl \<noteq> [] \<Longrightarrow>
     compare_loop r ctrl = Inr (Some Equal) \<longleftrightarrow> equals_loop ctrl = Inr True"
proof (induction ctrl arbitrary: r rule: pairs_induct)
  case (Cons a b ctrl)
  then show ?case by (simp add: compare_loop_step equals_loop_step)
qed simp

lemma compare_equals_error_loop: "compare_loop r ctrl = Inl e \<longleftrightarrow> equals_loop ctrl = Inl e"
  by (induction ctrl arbitrary: r rule: pairs_induct) (simp_all add: compare_loop_step equals_loop_step)

lemma head_cmp_trans:
  assumes "shape a = shape b" "shape b = shape c" "head_cmp a b = Some r1" "head_cmp b c = Some r2"
    and "r1 \<noteq> Greater" "r2 \<noteq> Greater"
  shows "head_cmp a c = Some (if r1 = Equal then r2 else Less)"
  using assms
  by (cases a; cases b; cases c)
     (auto simp: cmp_def f64_partial_cmp_def i64_cmp_def split: if_splits)

lemma triples_induct [case_names Nil Cons]:
  assumes "P []"
    and "\<And>a b c ts. P (zip (children a) (zip (children b) (children c)) @ ts) \<Longrightarrow> P ((a, b, c) # ts)"
  shows "P ts"
proof (induction ts rule: measure_induct_rule [where f = "\<lambda>c. weight (map fst c)"])
  case (less ts)
  show ?case
  proof (cases ts)
    case (Cons t rest)
    obtain a b c where t: "t = (a, b, c)" by (cases t)
    have zip_le: "weight (map fst (zip xs ys @ rest)) \<le> weight (xs @ map fst rest)"
      for xs and ys :: "(Expr \<times> Expr) list"
    proof (induction xs arbitrary: ys)
      case (Cons x xs)
      show ?case
      proof (cases ys)
        case (Cons y ys')
        with Cons.IH [of ys'] show ?thesis by (simp add: weight_def)
      qed (simp add: weight_def)
    qed simp
    have "weight (map fst (zip (children a) (zip (children b) (children c)) @ rest)) < weight (map fst ts)"
      unfolding Cons t list.map fst_conv using zip_le weight_children by (rule order_le_less_trans)
    with less assms(2) show ?thesis unfolding Cons t by blast
  qed (simp add: assms(1))
qed

abbreviation fst_snd :: "('a \<times> 'b \<times> 'c) list \<Rightarrow> ('a \<times> 'b) list" where
  "fst_snd \<equiv> map (\<lambda>t. (fst t, fst (snd t)))"

abbreviation snd_thd :: "('a \<times> 'b \<times> 'c) list \<Rightarrow> ('b \<times> 'c) list" where
  "snd_thd \<equiv> map snd"

abbreviation fst_thd :: "('a \<times> 'b \<times> 'c) list \<Rightarrow> ('a \<times> 'c) list" where
  "fst_thd \<equiv> map (\<lambda>t. (fst t, snd (snd t)))"

lemma zip3_projections:
  assumes "length xs = length ys" "length ys = length zs"
  shows "fst_snd (zip xs (zip ys zs)) = zip xs ys" "snd_thd (zip xs (zip ys zs)) = zip ys zs"
    "fst_thd (zip xs (zip ys zs)) = zip xs zs"
  using assms by (induction xs ys zs rule: list_induct3) auto

lemma compare_loop_trans:
  assumes "compare_loop (Some Equal) (fst_snd ts) = Inr (Some r1)"
    and "compare_loop (Some Equal) (snd_thd ts) = Inr (Some r2)" "r1 \<noteq> Greater" "r2 \<noteq> Greater"
  shows "compare_loop (Some Equal) (fst_thd ts) = Inr (Some (if r1 = Equal then r2 else Less))"
  using assms
proof (induction ts rule: triples_induct)
  case (Cons a b c ts)
  have sh: "shape a = shape b" "shape b = shape c"
    using Cons.prems by (auto simp: compare_loop_step split: if_splits)
  obtain h1 h2 where h: "head_cmp a b = Some h1" "head_cmp b c = Some h2" "h1 \<noteq> Greater" "h2 \<noteq> Greater"
    using Cons.prems sh by (auto simp: compare_loop_step split: if_splits)
  note ac = head_cmp_trans [OF sh h]
  show ?case
  proof (cases "h1 = Equal \<and> h2 = Equal")
    case True
    then have len: "length (children a) = length (children b)" "length (children b) = length (children c)"
      using sh h head_cmp_Equal_length by blast+
    with True Cons sh h ac show ?thesis by (simp add: compare_loop_step zip3_projections)
  next
    case False
    then have "h1 = Less \<or> h1 = Equal \<and> h2 = Less" using h by (cases h1; cases h2) auto
    with Cons.prems sh h ac show ?thesis by (auto simp: compare_loop_step split: if_splits)
  qed
qed auto

lemma compare_start: "compare a b = compare_loop (Some Equal) [(a, b)]"
  by (simp add: compare_def compare_loop_step)

lemma compare_equals: "compare a b = Inr (Some Equal) \<longleftrightarrow> equals a b = Inr True"
  by (simp add: compare_def equals_def compare_equals_loop)

lemma compare_error: "compare a b = Inl e \<longleftrightarrow> equals a b = Inl e"
  by (simp add: compare_def equals_def compare_equals_error_loop)

lemma compare_swap:
  "compare b a = map_err swap_mismatch (result_map (map_option opposite) (compare a b))"
  using compare_loop_swap [of None "[(a, b)]"] by (simp add: compare_def)

lemma compare_trans:
  "compare a b = Inr (Some Less) \<Longrightarrow> compare b c = Inr (Some Less) \<Longrightarrow> compare a c = Inr (Some Less)"
  using compare_loop_trans [of "[(a, b, c)]" Less Less] by (simp add: compare_start)

lemma compare_less_greater: "compare a b = Inr (Some Less) \<longleftrightarrow> compare b a = Inr (Some Greater)"
proof -
  have "map_option opposite x = Some Greater \<longleftrightarrow> x = Some Less" for x
    by (cases x; cases "the x") auto
  then show ?thesis unfolding compare_swap [of b a]
    by (cases "compare a b") auto
qed

text \<open>The typed comparison of policy expressions is a strict partial order that agrees with
  the typed equality: two expressions compare as equal exactly when \<open>equals\<close> holds of them, both
  operations refuse the same pairs with the same type error, less-than and greater-than are mirror
  images, and less-than is transitive.\<close>

theorem compare_is_partial_order:
  "(compare a b = Inr (Some Equal) \<longleftrightarrow> equals a b = Inr True)
   \<and> (compare a b = Inl e \<longleftrightarrow> equals a b = Inl e)
   \<and> (compare a b = Inr (Some Less) \<longleftrightarrow> compare b a = Inr (Some Greater))
   \<and> (compare a b = Inr (Some Less) \<longrightarrow> compare b c = Inr (Some Less) \<longrightarrow> compare a c = Inr (Some Less))"
  using compare_equals compare_error compare_less_greater compare_trans by blast

theorem compare_is_partial_order_witness:
  "compare (ESeq [EInt 1, EStr ''a'']) (ESeq [EInt 1, EStr ''b'']) = Inr (Some Less)
   \<and> compare (ESeq [EInt 1, EStr ''a'']) (ESeq [EInt 2, EStr ''a'']) = Inr (Some Less)"
proof -
  have "compare (ESeq [EInt 1, EStr ''a'']) (ESeq [EInt 1, EStr ''b'']) = Inr (Some Less)"
    "compare (ESeq [EInt 1, EStr ''b'']) (ESeq [EInt 2, EStr ''a'']) = Inr (Some Less)"
    by (simp_all add: compare_def cmp_def i64_cmp_def)
  then show ?thesis
    using compare_is_partial_order [of "ESeq [EInt 1, EStr ''a'']" "ESeq [EInt 1, EStr ''b'']"
        undefined "ESeq [EInt 2, EStr ''a'']"] by blast
qed

subsection \<open>Equality on values\<close>

text \<open>Expressions without floating point numbers, on which equality is identity.\<close>

fun float_free :: "Expr \<Rightarrow> bool" where
  "float_free (EFloat _) = False"
| "float_free (ESeq xs) = list_all float_free xs"
| "float_free (EList xs) = list_all float_free xs"
| "float_free _ = True"

lemma head_cmp_float_free:
  "float_free a \<Longrightarrow> shape a = shape b \<Longrightarrow>
     a = b \<longleftrightarrow> head_cmp a b = Some Equal \<and> children a = children b"
  by (cases a; cases b) auto

lemma float_free_children: "float_free a \<Longrightarrow> list_all float_free (children a)"
  by (cases a) auto

lemma equals_loop_float_free:
  "list_all (\<lambda>p. float_free (fst p)) ctrl \<Longrightarrow>
     equals_loop ctrl = Inr True \<longleftrightarrow> list_all (\<lambda>p. fst p = snd p) ctrl"
proof (induction ctrl rule: pairs_induct)
  case (Cons a b ctrl)
  have zip_eq: "list_all (\<lambda>p. fst p = snd p) (zip xs ys) \<longleftrightarrow> xs = ys"
    if "length xs = length ys" for xs ys :: "Expr list"
    using that by (induction xs ys rule: list_induct2) auto
  have "list_all (\<lambda>p. float_free (fst p)) (zip (children a) (children b) @ ctrl)"
    using Cons.prems float_free_children [of a]
    by (auto simp: list_all_iff dest!: set_zip_leftD)
  note IH = Cons.IH [OF this]
  show ?case
  proof (cases "shape a = shape b \<and> head_cmp a b = Some Equal")
    case True
    then show ?thesis
      using IH Cons.prems head_cmp_float_free [of a b] head_cmp_Equal_length [of a b]
      by (auto simp: equals_loop_step zip_eq)
  next
    case False
    then show ?thesis
      using Cons.prems head_cmp_float_free [of a b] by (auto simp: equals_loop_step)
  qed
qed simp

lemma equals_float_free: "float_free a \<Longrightarrow> equals a b = Inr True \<longleftrightarrow> a = b"
  by (simp add: equals_def equals_loop_float_free)

lemma equals_swap: "equals b a = map_err swap_mismatch (equals a b)"
  using equals_loop_swap [of "[(a, b)]"] by (simp add: equals_def)

text \<open>typed equality is symmetric (with the mismatched pair reported the other way round), and
  on expressions without floating point numbers it holds exactly between identical expressions,
  whatever their nesting.\<close>

theorem equals_is_identity:
  "equals b a = map_err swap_mismatch (equals a b)
   \<and> (float_free a \<longrightarrow> (equals a b = Inr True \<longleftrightarrow> a = b))"
  using equals_swap equals_float_free by blast

theorem equals_is_identity_witness:
  "equals (ESeq [EStr ''x'', ESeq [EInt 3]]) (ESeq [EStr ''x'', ESeq [EInt 3]]) = Inr True
   \<and> equals (EInt 1) (EStr ''1'') = Inl (TypeMismatch (EInt 1) (EStr ''1''))"
  using equals_is_identity [of "ESeq [EStr ''x'', ESeq [EInt 3]]" "ESeq [EStr ''x'', ESeq [EInt 3]]"]
  by (simp add: equals_def)

subsection \<open>Merging environments\<close>

lemma bt_get_fold_right:
  "distinct (map fst other) \<Longrightarrow>
     bt_get (fold (\<lambda>(k, v) m. bt_insert k v m) other self) k
       = (case bt_get other k of Some v \<Rightarrow> Some v | None \<Rightarrow> bt_get self k)"
proof (induction other arbitrary: self)
  case (Cons p other)
  obtain k' v' where p: "p = (k', v')" by force
  have "k = k' \<Longrightarrow> bt_get other k = None"
    using Cons.prems p by (simp add: bt_get_def map_of_eq_None_iff)
  moreover have "bt_get (p # other) k = (if k = k' then Some v' else bt_get other k)"
    using p by (simp add: bt_get_def)
  ultimately show ?case
    using Cons p by (auto simp: bt_get_insert split: option.split)
qed simp

lemma bt_get_fold_left:
  "bt_get (fold (\<lambda>(k, v) m. if bt_contains_key m k then m else bt_insert k v m) other self) k
     = (case bt_get self k of Some v \<Rightarrow> Some v | None \<Rightarrow> bt_get other k)"
proof (induction other arbitrary: self)
  case (Cons p other)
  obtain k' v' where p: "p = (k', v')" by force
  have get: "bt_get (p # other) k = (if k = k' then Some v' else bt_get other k)"
    using p by (simp add: bt_get_def)
  show ?case
    unfolding get unfolding p fold_simps case_prod_conv Cons.IH
    by (auto simp: bt_contains_key_iff bt_get_insert split: option.split)
qed (simp split: option.split)

text \<open>Merging environments: \<open>merge_right\<close> lets the other environment win, \<open>merge_left\<close> lets
  this one win, and \<open>merge\<close> succeeds exactly when no name is bound in both, in which case every
  binding of either environment is in the result; otherwise it names a doubly bound name.\<close>

theorem env_merge:
  assumes "bt_wf other"
  shows "bt_get (Env_merge_right self other) k
           = (case bt_get other k of Some v \<Rightarrow> Some v | None \<Rightarrow> bt_get self k)
     \<and> bt_get (Env_merge_left self other) k
           = (case bt_get self k of Some v \<Rightarrow> Some v | None \<Rightarrow> bt_get other k)
     \<and> (case Env_merge self other of
          Inr m \<Rightarrow> (\<forall>x. bt_get self x = None \<or> bt_get other x = None) \<and> m = Env_merge_right self other
        | Inl (BindingExists x) \<Rightarrow> bt_get self x \<noteq> None \<and> bt_get other x \<noteq> None)"
proof -
  have d: "distinct (map fst other)" using assms by (rule bt_wf_distinct)
  have "case Env_merge self other of
          Inr m \<Rightarrow> (\<forall>x. bt_get self x = None \<or> bt_get other x = None) \<and> m = Env_merge_right self other
        | Inl (BindingExists x) \<Rightarrow> bt_get self x \<noteq> None \<and> bt_get other x \<noteq> None"
  proof (cases "find (\<lambda>k. bt_contains_key self k) (bt_keys other)")
    case None
    then have "bt_get self x = None \<or> bt_get other x = None" for x
      by (auto simp: find_None_iff bt_simps bt_get_None_iff [of other])
    with None show ?thesis by (simp add: Env_merge_def Env_merge_right_def)
  next
    case (Some x)
    then have "x \<in> set (bt_keys other)" "bt_contains_key self x"
      by (auto simp: find_Some_iff)
    with Some bt_get_None_iff [of other x] show ?thesis
      by (simp add: Env_merge_def bt_contains_key_iff)
  qed
  then show ?thesis
    using bt_get_fold_right [OF d, of self k] bt_get_fold_left [of other self k]
    unfolding Env_merge_right_def Env_merge_left_def by blast
qed

theorem env_merge_witness:
  "bt_get (Env_merge_right [(''a'', EInt 1)] [(''a'', EInt 2), (''b'', EInt 3)]) ''a'' = Some (EInt 2)
   \<and> bt_get (Env_merge_left [(''a'', EInt 1)] [(''a'', EInt 2), (''b'', EInt 3)]) ''a'' = Some (EInt 1)"
  using env_merge [of "[(''a'', EInt 2), (''b'', EInt 3)]" "[(''a'', EInt 1)]" "''a''"]
  by (simp add: bt_wf_def bt_get_def)

end
