(* ===== verification/Abac_Parser.thy ===== *)
theory Abac_Parser
  imports Abac_Expr
begin

text \<open>
  \<open>ockam_abac/src/parser.rs\<close>: the parser of policy expressions, a machine with a control
  stack (from the top down) fed by the tokens of a third-party lexer.  The lexer is the list of the
  results its successive calls return, an error being the left alternative; the conversion of a
  decimal fraction to \<open>f64\<close> is the parameter \<open>parse_f64\<close>.  Quotation marks are left out of
  error messages.
\<close>

subsection \<open>Tokens\<close>

datatype Token =
    TWhitespace | TLineComment | TBlockComment
  | TInteger string nat
  | TFloatInf bool
  | TFloatNan
  | TFloatNanVal
  | TFloatNormal string
  | TString bytes
  | TLParen
  | TRParen
  | TReserved string
  | TKeyword string
  | TId string

datatype ParseError =
    PE_Utf8
  | PE_Int parse_int_error
  | PE_Float
  | PE_Other string
  | PE_Message string
  | PE_TypeMismatch Expr Expr

datatype POp = PNext | PValue Expr | PListStart | PListEnd | PSeqStart | PSeqEnd

subsection \<open>Numbers and identifiers\<close>

text \<open>\<open>i64::from_str_radix\<close>.\<close>

definition i64_range :: "int \<Rightarrow> bool" where
  "i64_range x = (- (2 ^ 63) \<le> x \<and> x < 2 ^ 63)"

fun signed_digits :: "bool \<Rightarrow> nat \<Rightarrow> int \<Rightarrow> string \<Rightarrow> parse_int_error + int" where
  "signed_digits neg r acc [] = Inr acc"
| "signed_digits neg r acc (c # cs) =
     (case radix_digit r c of
        None \<Rightarrow> Inl PIE_InvalidDigit
      | Some d \<Rightarrow>
          let acc1 = acc * int r; acc2 = (if neg then acc1 - int d else acc1 + int d) in
          if \<not> i64_range acc1 \<or> \<not> i64_range acc2
          then Inl (if neg then PIE_NegOverflow else PIE_PosOverflow)
          else signed_digits neg r acc2 cs)"

definition i64_from_str_radix :: "string \<Rightarrow> nat \<Rightarrow> parse_int_error + i64" where
  "i64_from_str_radix s r =
     result_map word_of_int
       (if s = [] then Inl PIE_Empty
        else if s = ''+'' \<or> s = ''-'' then Inl PIE_InvalidDigit
        else if hd s = CHR ''+'' then signed_digits False r 0 (tl s)
        else if hd s = CHR ''-'' then signed_digits True r 0 (tl s)
        else signed_digits False r 0 s)"

text \<open>The regular expression of \<open>ident_pattern\<close>; the class ends with the range from \<open>+\<close> to
  \<open>@\<close>.\<close>

definition ident_start :: "char \<Rightarrow> bool" where
  "ident_start c = (in_range 97 122 c \<or> in_range 65 90 c \<or> c \<in> set ''!$%&*/<=>?~_^'')"

definition ident_rest :: "char \<Rightarrow> bool" where
  "ident_rest c = (in_range 97 122 c \<or> in_range 65 90 c \<or> in_range 48 57 c
                     \<or> c \<in> set ''!$%&*/<=>?~_^.'' \<or> in_range 43 64 c)"

definition ident_pattern :: "string \<Rightarrow> bool" where
  "ident_pattern s = (case s of [] \<Rightarrow> False | c # cs \<Rightarrow> ident_start c \<and> list_all ident_rest cs)"

definition f64_infinity :: f64 where
  "f64_infinity = 0x7FF0000000000000"

definition f64_neg_infinity :: f64 where
  "f64_neg_infinity = 0xFFF0000000000000"

definition f64_nan :: f64 where
  "f64_nan = 0x7FF8000000000000"

subsection \<open>The machine\<close>

text \<open>What a token pushes on the control stack, the new top first.\<close>

definition token_ops :: "(string \<Rightarrow> f64 option) \<Rightarrow> Token \<Rightarrow> ParseError + POp list" where
  "token_ops parse_f64 t =
     (case t of
        TWhitespace \<Rightarrow> Inr [PNext]
      | TLineComment \<Rightarrow> Inr [PNext]
      | TBlockComment \<Rightarrow> Inr [PNext]
      | TInteger s r \<Rightarrow>
          result_map (\<lambda>x. [PNext, PValue (EInt x)]) (map_err PE_Int (i64_from_str_radix s r))
      | TFloatInf negative \<Rightarrow>
          Inr [PNext, PValue (EFloat (if negative then f64_neg_infinity else f64_infinity))]
      | TFloatNan \<Rightarrow> Inr [PNext, PValue (EFloat f64_nan)]
      | TFloatNanVal \<Rightarrow> Inr [PNext, PValue (EFloat f64_nan)]
      | TFloatNormal s \<Rightarrow>
          (case parse_f64 s of
             None \<Rightarrow> Inl PE_Float | Some x \<Rightarrow> Inr [PNext, PValue (EFloat x)])
      | TString bs \<Rightarrow>
          (case from_utf8 bs of
             None \<Rightarrow> Inl PE_Utf8 | Some s \<Rightarrow> Inr [PNext, PValue (EStr s)])
      | TLParen \<Rightarrow> Inr [PNext, PListStart]
      | TRParen \<Rightarrow> Inr [PListEnd]
      | TReserved s \<Rightarrow>
          if s = '']'' then Inr [PSeqEnd]
          else if s = ''['' then Inr [PNext, PSeqStart]
          else if ident_pattern s then Inr [PNext, PValue (EIdent s)]
          else Inl (PE_Message ''invalid reserved token'')
      | TKeyword s \<Rightarrow>
          if s = ''true'' then Inr [PNext, PValue (EBool True)]
          else if s = ''false'' then Inr [PNext, PValue (EBool False)]
          else if ident_pattern s then Inr [PNext, PValue (EIdent s)]
          else Inl (PE_Message ''invalid keyword token'')
      | TId s \<Rightarrow> Inr [PNext, PValue (EIdent s)])"

text \<open>The inner loops: pop values up to the opening bracket, or until the stack is empty.\<close>

fun close_list :: "POp list \<Rightarrow> Expr list \<Rightarrow> panic + (ParseError + (Expr list \<times> POp list))" where
  "close_list [] v = Inr (Inr (v, []))"
| "close_list (PListStart # ctrl) v = Inr (Inr (v, ctrl))"
| "close_list (PValue x # ctrl) v = close_list ctrl (v @ [x])"
| "close_list (PListEnd # ctrl) v = Inr (Inl (PE_Message '') without matching (''))"
| "close_list (PSeqStart # ctrl) v = Inr (Inl (PE_Message ''[ without matching ]''))"
| "close_list (PSeqEnd # ctrl) v = Inr (Inl (PE_Message ''] without matching [''))"
| "close_list (PNext # ctrl) v = Inl (Panic ''consecutive next operations are impossible'')"

fun close_seq :: "POp list \<Rightarrow> Expr list \<Rightarrow> panic + (ParseError + (Expr list \<times> POp list))" where
  "close_seq [] v = Inr (Inr (v, []))"
| "close_seq (PSeqStart # ctrl) v = Inr (Inr (v, ctrl))"
| "close_seq (PValue x # ctrl) v = close_seq ctrl (v @ [x])"
| "close_seq (PListEnd # ctrl) v = Inr (Inl (PE_Message '') without matching (''))"
| "close_seq (PListStart # ctrl) v = Inr (Inl (PE_Message ''( without matching )''))"
| "close_seq (PSeqEnd # ctrl) v = Inr (Inl (PE_Message ''] without matching [''))"
| "close_seq (PNext # ctrl) v = Inl (Panic ''consecutive next operations are impossible'')"

fun check_pairs :: "(Expr \<times> Expr) list \<Rightarrow> ParseError + unit" where
  "check_pairs [] = Inr ()"
| "check_pairs ((x, y) # ps) =
     (case equals x y of
        Inl (TypeMismatch a b) \<Rightarrow> Inl (PE_TypeMismatch a b)
      | _ \<Rightarrow> check_pairs ps)"

definition ends_in :: "POp list \<Rightarrow> nat" where
  "ends_in ctrl = length (filter (\<lambda>op. op = PListEnd \<or> op = PSeqEnd) ctrl)"

lemma close_list_ends: "close_list ctrl v = Inr (Inr (v', ctrl')) \<Longrightarrow> ends_in ctrl' \<le> ends_in ctrl"
  by (induction ctrl v rule: close_list.induct) (auto simp: ends_in_def)

lemma close_seq_ends: "close_seq ctrl v = Inr (Inr (v', ctrl')) \<Longrightarrow> ends_in ctrl' \<le> ends_in ctrl"
  by (induction ctrl v rule: close_seq.induct) (auto simp: ends_in_def)

function parse_loop ::
  "(string \<Rightarrow> f64 option) \<Rightarrow> (string + Token) list \<Rightarrow> POp list \<Rightarrow> Expr list
     \<Rightarrow> panic + (ParseError + Expr list)" where
  "parse_loop pf toks [] vals = Inr (Inr vals)"
| "parse_loop pf toks (PNext # ctrl) vals =
     (case toks of
        [] \<Rightarrow> parse_loop pf [] ctrl vals
      | Inl msg # _ \<Rightarrow> Inr (Inl (PE_Other msg))
      | Inr t # toks' \<Rightarrow>
          (case token_ops pf t of
             Inl e \<Rightarrow> Inr (Inl e)
           | Inr ops \<Rightarrow> parse_loop pf toks' (ops @ ctrl) vals))"
| "parse_loop pf toks (PValue x # ctrl) vals = parse_loop pf toks ctrl (vals @ [x])"
| "parse_loop pf toks (PListEnd # ctrl) vals =
     (case close_list ctrl [] of
        Inl p \<Rightarrow> Inl p
      | Inr (Inl e) \<Rightarrow> Inr (Inl e)
      | Inr (Inr (v, ctrl')) \<Rightarrow> parse_loop pf toks (PNext # PValue (EList (rev v)) # ctrl') vals)"
| "parse_loop pf toks (PSeqEnd # ctrl) vals =
     (case close_seq ctrl [] of
        Inl p \<Rightarrow> Inl p
      | Inr (Inl e) \<Rightarrow> Inr (Inl e)
      | Inr (Inr (v, ctrl')) \<Rightarrow>
          (case check_pairs (zip (rev v) (tl (rev v))) of
             Inl e \<Rightarrow> Inr (Inl e)
           | Inr _ \<Rightarrow> parse_loop pf toks (PNext # PValue (ESeq (rev v)) # ctrl') vals))"
| "parse_loop pf toks (PListStart # ctrl) vals = Inr (Inl (PE_Message ''unclosed (''))"
| "parse_loop pf toks (PSeqStart # ctrl) vals = Inr (Inl (PE_Message ''unclosed [''))"
  by pat_completeness auto
termination
  by (relation "measures [\<lambda>(_, toks, _, _). length toks, \<lambda>(_, _, ctrl, _). ends_in ctrl,
       \<lambda>(_, _, ctrl, _). length ctrl]")
     (auto simp: ends_in_def less_Suc_eq_le
       dest!: close_list_ends [unfolded ends_in_def] close_seq_ends [unfolded ends_in_def])

definition parse :: "(string \<Rightarrow> f64 option) \<Rightarrow> (string + Token) list \<Rightarrow> panic + (ParseError + Expr option)" where
  "parse pf toks =
     result_map (result_map (\<lambda>vals.
         if length vals = 0 then None
         else if length vals = 1 then Some (vals ! 0)
         else Some (EList (rev vals))))
       (parse_loop pf toks [PNext] [])"

definition Expr_try_from :: "(string \<Rightarrow> f64 option) \<Rightarrow> (string + Token) list \<Rightarrow> panic + (ParseError + Expr)" where
  "Expr_try_from pf toks =
     result_map (\<lambda>r. result_bind r (\<lambda>x. ok_or x (PE_Message ''empty expression value''))) (parse pf toks)"

subsection \<open>The parser never panics\<close>

text \<open>A pending \<open>Next\<close> is only ever on top of the control stack.\<close>

abbreviation next_on_top :: "POp list \<Rightarrow> bool" where
  "next_on_top ctrl \<equiv> PNext \<notin> set (tl ctrl)"

lemma close_list_total:
  "PNext \<notin> set ctrl \<Longrightarrow> \<exists>r. close_list ctrl v = Inr r \<and> (\<forall>v' ctrl'. r = Inr (v', ctrl') \<longrightarrow> PNext \<notin> set ctrl')"
  by (induction ctrl v rule: close_list.induct) auto

lemma close_seq_total:
  "PNext \<notin> set ctrl \<Longrightarrow> \<exists>r. close_seq ctrl v = Inr r \<and> (\<forall>v' ctrl'. r = Inr (v', ctrl') \<longrightarrow> PNext \<notin> set ctrl')"
  by (induction ctrl v rule: close_seq.induct) auto

lemma token_ops_next: "token_ops pf t = Inr ops \<Longrightarrow> PNext \<notin> set (tl ops) \<and> ops \<noteq> []"
  by (cases t) (auto simp: token_ops_def result_map_def map_err_def split: sum.splits option.splits if_splits)

lemma parse_loop_total: "next_on_top ctrl \<Longrightarrow> \<exists>r. parse_loop pf toks ctrl vals = Inr r"
proof (induction pf toks ctrl vals rule: parse_loop.induct)
  case (2 pf toks ctrl vals)
  show ?case
  proof (cases toks)
    case Nil
    with 2 show ?thesis by (cases ctrl) auto
  next
    case (Cons t toks')
    show ?thesis
    proof (cases t)
      case (Inr tok)
      show ?thesis
      proof (cases "token_ops pf tok")
        case ops: (Inr ops)
        then have "next_on_top (ops @ ctrl)"
          using token_ops_next [OF ops] 2 by (cases ops) auto
        then show ?thesis using 2 Cons Inr ops by simp
      qed (use Cons Inr in simp)
    qed (use Cons in simp)
  qed
next
  case (3 pf toks x ctrl vals)
  then show ?case by (cases ctrl) auto
next
  case (4 pf toks ctrl vals)
  then show ?case
    using close_list_total [of ctrl "[]"] by (auto split: sum.split)
next
  case (5 pf toks ctrl vals)
  then show ?case
    using close_seq_total [of ctrl "[]"] by (auto split: sum.split)
qed auto

text \<open>C28: the parser is total: on every sequence of tokens, with or without a lexer error in it, it
  stops and returns an expression, nothing, or a parse error; the branch the code marks as
  unreachable is never taken.\<close>

theorem parse_never_panics: "\<exists>r. parse pf toks = Inr r"
  using parse_loop_total [of "[PNext]" pf toks "[]"] by (auto simp: parse_def)

subsection \<open>Parsing what is printed\<close>

definition show_i64 :: "i64 \<Rightarrow> string" where
  "show_i64 i = (if sint i < 0 then CHR ''-'' # show_nat (nat (- sint i)) else show_nat (nat (sint i)))"

fun join_tokens :: "Token list list \<Rightarrow> Token list" where
  "join_tokens [] = []"
| "join_tokens [ts] = ts"
| "join_tokens (ts # us # uss) = ts @ TWhitespace # join_tokens (us # uss)"

text \<open>The tokens of a printed expression without floating point numbers.\<close>

fun expr_tokens :: "Expr \<Rightarrow> Token list" where
  "expr_tokens (EStr s) = [TString s]"
| "expr_tokens (EInt i) = [TInteger (show_i64 i) 10]"
| "expr_tokens (EFloat f) = []"
| "expr_tokens (EBool b) = [TKeyword (if b then ''true'' else ''false'')]"
| "expr_tokens (EIdent s) = [TKeyword s]"
| "expr_tokens (ESeq xs) = TReserved ''['' # join_tokens (map expr_tokens xs) @ [TReserved '']'']"
| "expr_tokens (EList xs) = TLParen # join_tokens (map expr_tokens xs) @ [TRParen]"

fun parsable :: "Expr \<Rightarrow> bool" where
  "parsable (EStr s) = utf8_valid s"
| "parsable (EInt i) = True"
| "parsable (EFloat f) = False"
| "parsable (EBool b) = True"
| "parsable (EIdent s) = (ident_pattern s \<and> s \<noteq> ''true'' \<and> s \<noteq> ''false'')"
| "parsable (ESeq xs) = (list_all parsable xs \<and> check_pairs (zip xs (tl xs)) = Inr ())"
| "parsable (EList xs) = list_all parsable xs"

lemma radix_digit_10: "d < 10 \<Longrightarrow> radix_digit 10 (digit_char d) = Some d"
  by (simp add: radix_digit_def in_range_def str_simps)

lemma signed_digits_append:
  "signed_digits neg r acc (xs @ ys) = result_bind (signed_digits neg r acc xs) (\<lambda>a. signed_digits neg r a ys)"
  by (induction xs arbitrary: acc) (auto simp: Let_def split: option.split)

lemma signed_digits_show_nat:
  "i64_range (if neg then - int n else int n) \<Longrightarrow>
     signed_digits neg 10 0 (show_nat n) = Inr (if neg then - int n else int n)"
proof (induction n rule: show_nat.induct)
  case (1 n)
  show ?case
  proof (cases "n < 10")
    case True
    with 1 show ?thesis
      by (subst show_nat.simps) (auto simp: radix_digit_10 i64_range_def)
  next
    case False
    have "int (n div 10 * 10 + n mod 10) = int n" by (simp only: div_mult_mod_eq)
    then have split_n: "int n = int (n div 10) * 10 + int (n mod 10)"
      by (simp only: of_nat_add of_nat_mult of_nat_numeral)
    have range: "i64_range (if neg then - int (n div 10) else int (n div 10))"
      using "1.prems" by (cases neg) (auto simp: i64_range_def)
    with 1 False have "signed_digits neg 10 0 (show_nat (n div 10))
        = Inr (if neg then - int (n div 10) else int (n div 10))" by blast
    moreover have "signed_digits neg 10 (if neg then - int (n div 10) else int (n div 10))
        [digit_char (n mod 10)] = Inr (if neg then - int n else int n)"
      using "1.prems" split_n by (cases neg) (auto simp: radix_digit_10 i64_range_def)
    ultimately show ?thesis
      using False by (subst show_nat.simps) (simp add: signed_digits_append)
  qed
qed

lemma sint_range: "i64_range (sint (i :: i64))"
  using sint_ge [of i] sint_lt [of i] by (simp add: i64_range_def)

lemma i64_parse_show: "i64_from_str_radix (show_i64 i) 10 = Inr i"
proof (cases "sint i < 0")
  case True
  then have "signed_digits True 10 0 (show_nat (nat (- sint i))) = Inr (sint i)"
    using signed_digits_show_nat [of True "nat (- sint i)"] sint_range [of i] by simp
  with True show ?thesis by (simp add: i64_from_str_radix_def show_i64_def)
next
  case False
  obtain c cs where c: "show_nat (nat (sint i)) = c # cs" by (cases "show_nat (nat (sint i))") auto
  then have "in_range 48 57 c" using show_nat_in_range [of c "nat (sint i)"] by simp
  then have "c \<noteq> CHR ''+''" "c \<noteq> CHR ''-''" by (auto simp: in_range_def)
  moreover have "signed_digits False 10 0 (show_nat (nat (sint i))) = Inr (sint i)"
    using False signed_digits_show_nat [of False "nat (sint i)"] sint_range [of i] by simp
  ultimately show ?thesis using False c by (simp add: i64_from_str_radix_def show_i64_def)
qed

lemma parse_loop_token:
  "parse_loop pf (Inr t # toks) (PNext # ctrl) vals =
     (case token_ops pf t of
        Inl e \<Rightarrow> Inr (Inl e)
      | Inr ops \<Rightarrow> parse_loop pf toks (ops @ ctrl) vals)"
  by simp

lemma close_list_values:
  "close_list (map PValue xs @ PListStart # ctrl) v = Inr (Inr (v @ xs, ctrl))"
  "close_list (map PValue xs) v = Inr (Inr (v @ xs, []))"
  by (induction xs arbitrary: v) simp_all

lemma close_seq_values: "close_seq (map PValue xs @ PSeqStart # ctrl) v = Inr (Inr (v @ xs, ctrl))"
  by (induction xs arbitrary: v) simp_all

definition reads :: "(string \<Rightarrow> f64 option) \<Rightarrow> Token list \<Rightarrow> Expr list \<Rightarrow> bool" where
  "reads pf ts xs \<longleftrightarrow> (\<forall>toks ctrl vals. parse_loop pf (map Inr ts @ toks) (PNext # ctrl) vals
     = parse_loop pf toks (PNext # map PValue (rev xs) @ ctrl) vals)"

lemma reads_append: "reads pf ts xs \<Longrightarrow> reads pf us ys \<Longrightarrow> reads pf (ts @ us) (xs @ ys)"
  by (simp add: reads_def)

lemma reads_space: "reads pf [TWhitespace] []"
  by (simp add: reads_def parse_loop_token token_ops_def del: parse_loop.simps(2))

lemma reads_join:
  "(\<And>x. x \<in> set xs \<Longrightarrow> reads pf (expr_tokens x) [x]) \<Longrightarrow> reads pf (join_tokens (map expr_tokens xs)) xs"
proof (induction xs rule: induct_list012)
  case 1
  show ?case by (simp add: reads_def)
next
  case (2 x)
  then show ?case by simp
next
  case (3 x y zs)
  then have "reads pf (expr_tokens x @ [TWhitespace] @ join_tokens (map expr_tokens (y # zs)))
      ([x] @ [] @ (y # zs))"
    by (intro reads_append reads_space) auto
  then show ?case by simp
qed

lemma reads_list: "reads pf ts xs \<Longrightarrow> reads pf (TLParen # ts @ [TRParen]) [EList xs]"
  unfolding reads_def
  by (simp add: parse_loop_token token_ops_def close_list_values del: parse_loop.simps(2))

lemma reads_seq:
  "reads pf ts xs \<Longrightarrow> check_pairs (zip xs (tl xs)) = Inr () \<Longrightarrow>
     reads pf (TReserved ''['' # ts @ [TReserved '']'']) [ESeq xs]"
  unfolding reads_def
  by (simp add: parse_loop_token token_ops_def close_seq_values del: parse_loop.simps(2))

lemma reads_expr: "parsable e \<Longrightarrow> reads pf (expr_tokens e) [e]"
proof (induction e)
  case (ESeq xs)
  then show ?case using reads_seq [OF reads_join [of xs pf]] by (simp add: list_all_iff)
next
  case (EList xs)
  then show ?case using reads_list [OF reads_join [of xs pf]] by (simp add: list_all_iff)
qed (simp_all add: reads_def parse_loop_token token_ops_def i64_parse_show from_utf8_def
      del: parse_loop.simps(2))

lemma parse_reads:
  assumes "reads pf ts xs"
  shows "parse pf (map Inr ts) =
    Inr (Inr (if xs = [] then None else if length xs = 1 then Some (xs ! 0) else Some (EList xs)))"
proof -
  have "parse_loop pf [] (PNext # map PValue ys) vals = Inr (Inr (vals @ ys))" for ys vals
    by (induction ys arbitrary: vals) simp_all
  then have "parse_loop pf (map Inr ts) [PNext] [] = Inr (Inr (rev xs))"
    using assms [unfolded reads_def, rule_format, of "[]" "[]"] by simp
  then show ?thesis by (cases xs) (auto simp: parse_def)
qed



text \<open>C29: a closing parenthesis without an opening one is not refused: an expression whose first
  parenthesis is missing parses to the same expression as the complete text.\<close>

theorem parse_accepts_unmatched_close:
  assumes "list_all parsable xs"
  shows "parse pf (map Inr (join_tokens (map expr_tokens xs) @ [TRParen]))
           = parse pf (map Inr (expr_tokens (EList xs)))"
proof -
  have r: "reads pf (join_tokens (map expr_tokens xs)) xs"
    using assms by (intro reads_join reads_expr) (simp add: list_all_iff)
  have "parse_loop pf (map Inr (join_tokens (map expr_tokens xs)) @ [Inr TRParen]) [PNext] []
      = parse_loop pf [Inr TRParen] (PNext # map PValue (rev xs)) []"
    using r [unfolded reads_def, rule_format, of "[Inr TRParen]" "[]" "[]"] by simp
  also have "\<dots> = Inr (Inr [EList xs])"
    by (simp add: token_ops_def close_list_values)
  finally have "parse pf (map Inr (join_tokens (map expr_tokens xs) @ [TRParen])) = Inr (Inr (Some (EList xs)))"
    by (simp add: parse_def)
  moreover have "parse pf (map Inr (expr_tokens (EList xs))) = Inr (Inr (Some (EList xs)))"
    using parse_reads [OF reads_list [OF r]] by simp
  ultimately show ?thesis by simp
qed

theorem parse_accepts_unmatched_close_witness:
  "parse (\<lambda>_. None) [Inr TRParen] = Inr (Inr (Some (EList [])))"
  using parse_accepts_unmatched_close [of "[]" "\<lambda>_. None"] by (simp add: parse_def token_ops_def)

end
