(* ===== verification/Abac_Eval.thy ===== *)
theory Abac_Eval
  imports Abac_Expr
begin

text \<open>
  \<open>ockam_abac/src/eval.rs\<close>: the evaluator of policy expressions, a machine with a control
  stack and an argument stack (both from the top down).  A step either panics (a pop from an empty
  stack, an argument count larger than the stack), returns an evaluation error, or gives the next
  state; the loop is a partial function, since an identifier bound to itself keeps it running.
  \<open>eval_den\<close> is the recursive meaning of expressions the machine is compared with.
\<close>

subsection \<open>The machine\<close>

datatype Op =
    OpEval Expr
  | OpAnd nat
  | OpOr nat
  | OpNot
  | OpIf
  | OpEq nat
  | OpGt nat
  | OpLt nat
  | OpMember
  | OpSeq nat

type_synonym machine = "Op list \<times> Expr list"
type_synonym step_result = "panic + (EvalError + machine)"

abbreviation continue_with :: "Op list \<Rightarrow> Expr list \<Rightarrow> step_result" where
  "continue_with ctrl args \<equiv> Inr (Inr (ctrl, args))"

abbreviation fail_with :: "EvalError \<Rightarrow> step_result" where
  "fail_with e \<equiv> Inr (Inl e)"

definition pop :: "'a list \<Rightarrow> panic + 'a \<times> 'a list" where
  "pop s = (case s of [] \<Rightarrow> Inl (Panic ''stack is not empty'') | x # s' \<Rightarrow> Inr (x, s'))"

fun pop_n :: "nat \<Rightarrow> 'a list \<Rightarrow> panic + 'a list" where
  "pop_n 0 s = Inr s"
| "pop_n (Suc n) s = result_bind (pop s) (\<lambda>(_, s'). pop_n n s')"

text \<open>The loop over the adjacent pairs of arguments, left to right.\<close>

fun predicate_loop :: "(Expr \<Rightarrow> Expr \<Rightarrow> EvalError + bool) \<Rightarrow> (Expr \<times> Expr) list \<Rightarrow> EvalError + bool" where
  "predicate_loop f [] = Inr True"
| "predicate_loop f ((x, y) # ps) =
     (case f x y of Inl e \<Rightarrow> Inl e | Inr b \<Rightarrow> if \<not> b then Inr False else predicate_loop f ps)"

definition eval_predicate ::
  "nat \<Rightarrow> Expr list \<Rightarrow> (Expr \<Rightarrow> Expr \<Rightarrow> EvalError + bool) \<Rightarrow> panic + (EvalError + Expr list)" where
  "eval_predicate n args f =
     (if length args < n then Inl (Panic ''attempt to subtract with overflow'')
      else let xs = rev (take n args) in
        case predicate_loop f (zip xs (tl xs)) of
          Inl e \<Rightarrow> Inr (Inl e)
        | Inr b \<Rightarrow> Inr (Inr (EBool b # drop n args)))"

fun member_loop :: "Expr \<Rightarrow> Expr list \<Rightarrow> EvalError + bool" where
  "member_loop y [] = Inr False"
| "member_loop y (x # xs) =
     (case equals y x of Inl e \<Rightarrow> Inl e | Inr b \<Rightarrow> if b then Inr True else member_loop y xs)"

fun exists_loop :: "Env \<Rightarrow> Expr list \<Rightarrow> EvalError + bool" where
  "exists_loop env [] = Inr True"
| "exists_loop env (EIdent i # xs) =
     (if \<not> Env_contains env i then Inr False else exists_loop env xs)"
| "exists_loop env (other # xs) = Inl (InvalidType other ''exists? expects identifiers as arguments'')"

definition lt_predicate :: "Expr \<Rightarrow> Expr \<Rightarrow> EvalError + bool" where
  "lt_predicate x y = result_map (\<lambda>r. r = Some Less) (compare x y)"

definition gt_predicate :: "Expr \<Rightarrow> Expr \<Rightarrow> EvalError + bool" where
  "gt_predicate x y = result_map (\<lambda>r. r = Some Greater) (compare x y)"

text \<open>Evaluating the list \<open>(op x1 ... xn)\<close>: the lazy operators and \<open>exists?\<close> arrange the
  control stack themselves, the others push their operation below the arguments.\<close>

definition push_args :: "Op list \<Rightarrow> Expr list \<Rightarrow> Op list \<Rightarrow> Expr list \<Rightarrow> step_result" where
  "push_args ops xs ctrl args = continue_with (map OpEval xs @ ops @ ctrl) args"

definition eval_list :: "Env \<Rightarrow> string \<Rightarrow> Expr list \<Rightarrow> Op list \<Rightarrow> Expr list \<Rightarrow> step_result" where
  "eval_list env op xs ctrl args =
     (let nargs = length xs in
      if op = ''and'' then
        (case xs of
           [] \<Rightarrow> continue_with ctrl (EBool True # args)
         | x # rest \<Rightarrow> continue_with (OpEval x # OpAnd (nargs - 1) # map OpEval rest @ ctrl) args)
      else if op = ''or'' then
        (case xs of
           [] \<Rightarrow> continue_with ctrl (EBool False # args)
         | x # rest \<Rightarrow> continue_with (OpEval x # OpOr (nargs - 1) # map OpEval rest @ ctrl) args)
      else if op = ''not'' then
        (if nargs \<noteq> 1 then fail_with (Malformed ''not requires one argument'')
         else push_args [OpNot] xs ctrl args)
      else if op = ''if'' then
        (if nargs \<noteq> 3 then fail_with (Malformed ''if requires three arguments'')
         else continue_with
                (OpEval (xs ! 0) # OpIf # OpEval (xs ! 1) # OpEval (xs ! 2) # ctrl) args)
      else if op = ''<'' then
        (if nargs < 2 then fail_with (Malformed ''< requires at least two arguments'')
         else push_args [OpLt nargs] xs ctrl args)
      else if op = ''>'' then
        (if nargs < 2 then fail_with (Malformed ''> requires at least two arguments'')
         else push_args [OpGt nargs] xs ctrl args)
      else if op = ''='' then
        (if nargs < 2 then fail_with (Malformed ''= requires at least two arguments'')
         else push_args [OpEq nargs] xs ctrl args)
      else if op = ''!='' then push_args [OpEq nargs, OpNot] xs ctrl args
      else if op = ''member?'' then
        (if nargs \<noteq> 2 then fail_with (Malformed ''member? requires two arguments'')
         else push_args [OpMember] xs ctrl args)
      else if op = ''exists?'' then
        (case exists_loop env xs of
           Inl e \<Rightarrow> fail_with e
         | Inr b \<Rightarrow> continue_with ctrl (EBool b # args))
      else fail_with (Unknown op))"

fun eval_step :: "Env \<Rightarrow> Op \<Rightarrow> Op list \<Rightarrow> Expr list \<Rightarrow> step_result" where
  "eval_step env (OpEval e) ctrl args =
     (case e of
        EIdent i \<Rightarrow>
          (case Env_get env i of Inl err \<Rightarrow> fail_with err | Inr v \<Rightarrow> continue_with (OpEval v # ctrl) args)
      | EList [] \<Rightarrow> continue_with ctrl (unit_expr # args)
      | EList (EIdent op # xs) \<Rightarrow> eval_list env op xs ctrl args
      | EList (other # xs) \<Rightarrow> fail_with (InvalidType other ''expected (op ...)'')
      | ESeq xs \<Rightarrow> continue_with (map OpEval xs @ OpSeq (length xs) # ctrl) args
      | _ \<Rightarrow> continue_with ctrl (e # args))"
| "eval_step env (OpAnd n) ctrl args =
     (if n = 0 then continue_with ctrl args
      else case pop args of Inl p \<Rightarrow> Inl p | Inr (v, args') \<Rightarrow>
        (case v of
           EBool True \<Rightarrow>
             (case pop ctrl of Inl p \<Rightarrow> Inl p
              | Inr (x, ctrl') \<Rightarrow> continue_with (x # OpAnd (n - 1) # ctrl') args')
         | EBool False \<Rightarrow>
             (case pop_n n ctrl of Inl p \<Rightarrow> Inl p
              | Inr ctrl' \<Rightarrow> continue_with ctrl' (EBool False # args'))
         | other \<Rightarrow> fail_with (InvalidType other ''and expects boolean arguments'')))"
| "eval_step env (OpOr n) ctrl args =
     (if n = 0 then continue_with ctrl args
      else case pop args of Inl p \<Rightarrow> Inl p | Inr (v, args') \<Rightarrow>
        (case v of
           EBool False \<Rightarrow>
             (case pop ctrl of Inl p \<Rightarrow> Inl p
              | Inr (x, ctrl') \<Rightarrow> continue_with (x # OpOr (n - 1) # ctrl') args')
         | EBool True \<Rightarrow>
             (case pop_n n ctrl of Inl p \<Rightarrow> Inl p
              | Inr ctrl' \<Rightarrow> continue_with ctrl' (EBool True # args'))
         | other \<Rightarrow> fail_with (InvalidType other ''or expects boolean arguments'')))"
| "eval_step env OpNot ctrl args =
     (case pop args of Inl p \<Rightarrow> Inl p | Inr (v, args') \<Rightarrow>
        (case v of
           EBool b \<Rightarrow> continue_with ctrl (EBool (\<not> b) # args')
         | other \<Rightarrow> fail_with (InvalidType other ''not expects boolean arguments'')))"
| "eval_step env OpIf ctrl args =
     (case pop ctrl of Inl p \<Rightarrow> Inl p | Inr (t, ctrl') \<Rightarrow>
      case pop ctrl' of Inl p \<Rightarrow> Inl p | Inr (f, ctrl'') \<Rightarrow>
      case pop args of Inl p \<Rightarrow> Inl p | Inr (v, args') \<Rightarrow>
        (case v of
           EBool True \<Rightarrow> continue_with (t # ctrl'') args'
         | EBool False \<Rightarrow> continue_with (f # ctrl'') args'
         | other \<Rightarrow> fail_with (InvalidType other ''if expects test to evaluate to bool'')))"
| "eval_step env (OpEq n) ctrl args =
     result_map (result_map (Pair ctrl)) (eval_predicate n args equals)"
| "eval_step env (OpLt n) ctrl args =
     result_map (result_map (Pair ctrl)) (eval_predicate n args lt_predicate)"
| "eval_step env (OpGt n) ctrl args =
     result_map (result_map (Pair ctrl)) (eval_predicate n args gt_predicate)"
| "eval_step env OpMember ctrl args =
     (case pop args of Inl p \<Rightarrow> Inl p | Inr (s, args') \<Rightarrow>
      case pop args' of Inl p \<Rightarrow> Inl p | Inr (y, args'') \<Rightarrow>
        (case s of
           ESeq xs \<Rightarrow>
             (case member_loop y xs of
                Inl e \<Rightarrow> fail_with e
              | Inr b \<Rightarrow> continue_with ctrl (EBool b # args''))
         | other \<Rightarrow> fail_with (InvalidType other ''member? expects sequence as second argument'')))"
| "eval_step env (OpSeq n) ctrl args =
     (if length args < n then Inl (Panic ''attempt to subtract with overflow'')
      else continue_with ctrl (ESeq (rev (take n args)) # drop n args))"

partial_function (option) eval_loop :: "Env \<Rightarrow> Op list \<Rightarrow> Expr list \<Rightarrow> (panic + (EvalError + Expr)) option" where
  "eval_loop env ctrl args =
     (case ctrl of
        [] \<Rightarrow> (if length args \<noteq> 1 then Some (Inl (Panic ''assertion failed''))
               else Some (result_map (\<lambda>(v, _). Inr v) (pop args)))
      | x # ctrl' \<Rightarrow>
          (case eval_step env x ctrl' args of
             Inl p \<Rightarrow> Some (Inl p)
           | Inr (Inl e) \<Rightarrow> Some (Inr (Inl e))
           | Inr (Inr (c, a)) \<Rightarrow> eval_loop env c a))"

definition eval :: "Expr \<Rightarrow> Env \<Rightarrow> (panic + (EvalError + Expr)) option" where
  "eval expr env = eval_loop env [OpEval expr] []"

subsection \<open>The meaning of expressions\<close>

text \<open>Arguments of the strict operators are checked for their number, evaluated from left to right,
  and then combined.\<close>

definition arity_error :: "string \<Rightarrow> nat \<Rightarrow> EvalError option" where
  "arity_error op nargs =
     (if op = ''not'' then if nargs \<noteq> 1 then Some (Malformed ''not requires one argument'') else None
      else if op = ''<'' then if nargs < 2 then Some (Malformed ''< requires at least two arguments'') else None
      else if op = ''>'' then if nargs < 2 then Some (Malformed ''> requires at least two arguments'') else None
      else if op = ''='' then if nargs < 2 then Some (Malformed ''= requires at least two arguments'') else None
      else if op = ''!='' then None
      else if op = ''member?'' then if nargs \<noteq> 2 then Some (Malformed ''member? requires two arguments'') else None
      else Some (Unknown op))"

fun not_value :: "Expr \<Rightarrow> EvalError + Expr" where
  "not_value (EBool b) = Inr (EBool (\<not> b))"
| "not_value other = Inl (InvalidType other ''not expects boolean arguments'')"

fun member_value :: "Expr \<Rightarrow> Expr \<Rightarrow> EvalError + Expr" where
  "member_value y (ESeq xs) = result_map EBool (member_loop y xs)"
| "member_value y other = Inl (InvalidType other ''member? expects sequence as second argument'')"

definition chain_value :: "(Expr \<Rightarrow> Expr \<Rightarrow> EvalError + bool) \<Rightarrow> Expr list \<Rightarrow> EvalError + Expr" where
  "chain_value f vs = result_map EBool (predicate_loop f (zip vs (tl vs)))"

definition apply_strict :: "string \<Rightarrow> Expr list \<Rightarrow> EvalError + Expr" where
  "apply_strict op vs =
     (if op = ''not'' then not_value (vs ! 0)
      else if op = ''<'' then chain_value lt_predicate vs
      else if op = ''>'' then chain_value gt_predicate vs
      else if op = ''='' then chain_value equals vs
      else if op = ''!='' then result_bind (chain_value equals vs) not_value
      else member_value (vs ! 0) (vs ! 1))"

type_synonym 'a outcome = "(EvalError + 'a) option"

definition bind_outcome :: "'a outcome \<Rightarrow> ('a \<Rightarrow> 'b outcome) \<Rightarrow> 'b outcome" where
  "bind_outcome x f = (case x of None \<Rightarrow> None | Some (Inl e) \<Rightarrow> Some (Inl e) | Some (Inr a) \<Rightarrow> f a)"

text \<open>\<open>n\<close> bounds the nesting of identifier lookups; everything else is structural.\<close>

function (sequential) eval_den :: "nat \<Rightarrow> Env \<Rightarrow> Expr \<Rightarrow> Expr outcome"
  and list_den :: "nat \<Rightarrow> Env \<Rightarrow> Expr list \<Rightarrow> Expr list outcome"
  and and_den :: "nat \<Rightarrow> Env \<Rightarrow> Expr list \<Rightarrow> Expr outcome"
  and or_den :: "nat \<Rightarrow> Env \<Rightarrow> Expr list \<Rightarrow> Expr outcome"
  and if_den :: "nat \<Rightarrow> Env \<Rightarrow> Expr list \<Rightarrow> Expr outcome" where
  "eval_den n env (EIdent i) =
     (case Env_get env i of
        Inl e \<Rightarrow> Some (Inl e)
      | Inr v \<Rightarrow> (case n of 0 \<Rightarrow> None | Suc m \<Rightarrow> eval_den m env v))"
| "eval_den n env (EList []) = Some (Inr unit_expr)"
| "eval_den n env (EList (EIdent op # xs)) =
     (if op = ''and'' then and_den n env xs
      else if op = ''or'' then or_den n env xs
      else if op = ''if'' then if_den n env xs
      else if op = ''exists?'' then Some (result_map EBool (exists_loop env xs))
      else case arity_error op (length xs) of
             Some e \<Rightarrow> Some (Inl e)
           | None \<Rightarrow> bind_outcome (list_den n env xs) (\<lambda>vs. Some (apply_strict op vs)))"
| "eval_den n env (EList (other # xs)) = Some (Inl (InvalidType other ''expected (op ...)''))"
| "eval_den n env (ESeq xs) = bind_outcome (list_den n env xs) (\<lambda>vs. Some (Inr (ESeq vs)))"
| "eval_den n env e = Some (Inr e)"
| "list_den n env [] = Some (Inr [])"
| "list_den n env (x # xs) =
     bind_outcome (eval_den n env x) (\<lambda>v.
       bind_outcome (list_den n env xs) (\<lambda>vs. Some (Inr (v # vs))))"
| "and_den n env [] = Some (Inr (EBool True))"
| "and_den n env [x] = eval_den n env x"
| "and_den n env (x # y # ys) =
     bind_outcome (eval_den n env x) (\<lambda>v.
       case v of
         EBool True \<Rightarrow> and_den n env (y # ys)
       | EBool False \<Rightarrow> Some (Inr (EBool False))
       | other \<Rightarrow> Some (Inl (InvalidType other ''and expects boolean arguments'')))"
| "or_den n env [] = Some (Inr (EBool False))"
| "or_den n env [x] = eval_den n env x"
| "or_den n env (x # y # ys) =
     bind_outcome (eval_den n env x) (\<lambda>v.
       case v of
         EBool False \<Rightarrow> or_den n env (y # ys)
       | EBool True \<Rightarrow> Some (Inr (EBool True))
       | other \<Rightarrow> Some (Inl (InvalidType other ''or expects boolean arguments'')))"
| "if_den n env [t, a, b] =
     bind_outcome (eval_den n env t) (\<lambda>v.
       case v of
         EBool True \<Rightarrow> eval_den n env a
       | EBool False \<Rightarrow> eval_den n env b
       | other \<Rightarrow> Some (Inl (InvalidType other ''if expects test to evaluate to bool'')))"
| "if_den n env xs = Some (Inl (Malformed ''if requires three arguments''))"
  by pat_completeness auto

termination
  by (relation "measures
       [\<lambda>x. case x of Inl (Inl (n, _, _)) \<Rightarrow> n | Inl (Inr (n, _, _)) \<Rightarrow> n
          | Inr (Inl (n, _, _)) \<Rightarrow> n | Inr (Inr (Inl (n, _, _))) \<Rightarrow> n | Inr (Inr (Inr (n, _, _))) \<Rightarrow> n,
        \<lambda>x. case x of Inl (Inl (_, _, e)) \<Rightarrow> size e | Inl (Inr (_, _, xs)) \<Rightarrow> size_list size xs
          | Inr (Inl (_, _, xs)) \<Rightarrow> size_list size xs | Inr (Inr (Inl (_, _, xs))) \<Rightarrow> size_list size xs
          | Inr (Inr (Inr (_, _, xs))) \<Rightarrow> size_list size xs]") auto

subsection \<open>The machine computes the meaning\<close>

text \<open>What the machine does once the expression on top of the control stack has its outcome.\<close>

definition resume ::
  "Env \<Rightarrow> Op list \<Rightarrow> Expr list \<Rightarrow> EvalError + Expr \<Rightarrow> (panic + (EvalError + Expr)) option" where
  "resume env ctrl args r =
     (case r of Inl e \<Rightarrow> Some (Inr (Inl e)) | Inr v \<Rightarrow> eval_loop env ctrl (v # args))"

lemma resume_simps [simp]:
  "resume env ctrl args (Inl e) = Some (Inr (Inl e))"
  "resume env ctrl args (Inr v) = eval_loop env ctrl (v # args)"
  by (simp_all add: resume_def)

lemma eval_loop_Cons:
  "eval_loop env (x # ctrl) args =
     (case eval_step env x ctrl args of
        Inl p \<Rightarrow> Some (Inl p)
      | Inr (Inl e) \<Rightarrow> Some (Inr (Inl e))
      | Inr (Inr (c, a)) \<Rightarrow> eval_loop env c a)"
  by (subst eval_loop.simps) simp

lemma eval_loop_done: "eval_loop env [] [v] = Some (Inr (Inr v))"
  by (subst eval_loop.simps) (simp add: pop_def)

lemma bind_outcome_eq_Some_iff:
  "bind_outcome x f = Some r \<longleftrightarrow>
     (\<exists>e. x = Some (Inl e) \<and> r = Inl e) \<or> (\<exists>v. x = Some (Inr v) \<and> f v = Some r)"
  by (auto simp: bind_outcome_def split: option.splits sum.splits)

lemma pop_simps [simp]: "pop (x # xs) = Inr (x, xs)"
  by (simp add: pop_def)

lemma pop_n_map_append [simp]: "pop_n (length xs) (map f xs @ ys) = Inr ys"
  by (induction xs) simp_all

definition strict_ops :: "string \<Rightarrow> nat \<Rightarrow> Op list" where
  "strict_ops op k =
     (if op = ''not'' then [OpNot] else if op = ''<'' then [OpLt k] else if op = ''>'' then [OpGt k]
      else if op = ''='' then [OpEq k] else if op = ''!='' then [OpEq k, OpNot] else [OpMember])"

lemma eval_list_strict:
  assumes "op \<notin> {''and'', ''or'', ''if'', ''exists?''}"
  shows "eval_list env op xs ctrl args =
     (case arity_error op (length xs) of
        Some e \<Rightarrow> fail_with e
      | None \<Rightarrow> continue_with (map OpEval xs @ strict_ops op (length xs) @ ctrl) args)"
  using assms by (auto simp: eval_list_def arity_error_def strict_ops_def push_args_def Let_def)

lemma eval_predicate_top:
  "eval_predicate (length vs) (rev vs @ args) f =
     (case chain_value f vs of Inl e \<Rightarrow> Inr (Inl e) | Inr v \<Rightarrow> Inr (Inr (v # args)))"
  by (cases "predicate_loop f (zip vs (tl vs))")
     (simp_all add: eval_predicate_def chain_value_def Let_def)

lemma eval_loop_not: "eval_loop env (OpNot # ctrl) (v # args) = resume env ctrl args (not_value v)"
  by (cases v) (simp_all add: eval_loop_Cons)

lemma eval_loop_chain:
  "eval_loop env (OpEq (length vs) # ctrl) (rev vs @ args) = resume env ctrl args (chain_value equals vs)"
  "eval_loop env (OpLt (length vs) # ctrl) (rev vs @ args) = resume env ctrl args (chain_value lt_predicate vs)"
  "eval_loop env (OpGt (length vs) # ctrl) (rev vs @ args) = resume env ctrl args (chain_value gt_predicate vs)"
  by (simp_all add: eval_loop_Cons eval_predicate_top resume_def split: sum.split)

lemma eval_loop_member:
  "eval_loop env (OpMember # ctrl) (s # y # args) = resume env ctrl args (member_value y s)"
  by (cases s) (simp_all add: eval_loop_Cons resume_def split: sum.split)

lemma length_2_nth: "length vs = Suc (Suc 0) \<Longrightarrow> vs = [vs ! 0, vs ! 1]"
  by (cases vs; cases "tl vs") auto

lemma length_1_nth: "length vs = Suc 0 \<Longrightarrow> vs = [vs ! 0]"
  by (cases vs) auto

lemma strict_ops_apply:
  assumes "arity_error op (length vs) = None"
  shows "eval_loop env (strict_ops op (length vs) @ ctrl) (rev vs @ args)
           = resume env ctrl args (apply_strict op vs)"
proof -
  consider "op = ''not''" "length vs = 1" | "op = ''member?''" "length vs = 2" | "op = ''<''" | "op = ''>''"
    | "op = ''=''" | "op = ''!=''"
    using assms by (auto simp: arity_error_def split: if_splits)
  then show ?thesis
  proof cases
    case 1
    then obtain v where "vs = [v]" using length_1_nth [of vs] by (auto simp: numeral_eq_Suc)
    with 1 show ?thesis by (simp add: strict_ops_def apply_strict_def eval_loop_not)
  next
    case 2
    then obtain v w where "vs = [v, w]" using length_2_nth [of vs] by (auto simp: numeral_eq_Suc)
    with 2 show ?thesis by (simp add: strict_ops_def apply_strict_def eval_loop_member)
  next
    case 6
    then show ?thesis
      by (cases "chain_value equals vs")
         (simp_all add: strict_ops_def apply_strict_def eval_loop_chain eval_loop_not)
  qed (simp_all add: strict_ops_def apply_strict_def eval_loop_chain)
qed

lemma eval_loop_strict:
  assumes "op \<notin> {''and'', ''or'', ''if'', ''exists?''}" "arity_error op (length xs) = None"
    and "\<And>ctrl args. eval_loop env (map OpEval xs @ ctrl) args =
           (case r of Inl e \<Rightarrow> Some (Inr (Inl e)) | Inr vs \<Rightarrow> eval_loop env ctrl (rev vs @ args))"
    and "\<And>vs. r = Inr vs \<Longrightarrow> length vs = length xs"
  shows "eval_loop env (OpEval (EList (EIdent op # xs)) # ctrl) args
           = resume env ctrl args (result_bind r (apply_strict op))"
proof -
  have "eval_loop env (OpEval (EList (EIdent op # xs)) # ctrl) args
      = eval_loop env (map OpEval xs @ strict_ops op (length xs) @ ctrl) args"
    using assms(1,2) by (simp add: eval_loop_Cons eval_list_strict)
  also have "\<dots> = resume env ctrl args (result_bind r (apply_strict op))"
  proof (cases r)
    case (Inr vs)
    then have "length xs = length vs" using assms(4) by simp
    then show ?thesis
      using strict_ops_apply [of op vs env ctrl args] assms(2) Inr
      unfolding assms(3) by simp
  qed (simp add: assms(3))
  finally show ?thesis .
qed

lemma eval_loop_lazy:
  "eval_loop env (OpEval (EList [EIdent ''and'']) # ctrl) args = eval_loop env ctrl (EBool True # args)"
  "eval_loop env (OpEval (EList [EIdent ''or'']) # ctrl) args = eval_loop env ctrl (EBool False # args)"
  "eval_loop env (OpEval (EList (EIdent ''and'' # x # xs)) # ctrl) args
     = eval_loop env (OpEval x # OpAnd (length xs) # map OpEval xs @ ctrl) args"
  "eval_loop env (OpEval (EList (EIdent ''or'' # x # xs)) # ctrl) args
     = eval_loop env (OpEval x # OpOr (length xs) # map OpEval xs @ ctrl) args"
  "eval_loop env (OpEval (EList [EIdent ''if'', t, a, b]) # ctrl) args
     = eval_loop env (OpEval t # OpIf # OpEval a # OpEval b # ctrl) args"
  "length xs \<noteq> 3 \<Longrightarrow> eval_loop env (OpEval (EList (EIdent ''if'' # xs)) # ctrl) args
     = Some (Inr (Inl (Malformed ''if requires three arguments'')))"
  "eval_loop env (OpEval (EList (EIdent ''exists?'' # xs)) # ctrl) args
     = resume env ctrl args (result_map EBool (exists_loop env xs))"
  by (subst eval_loop_Cons, simp add: eval_list_def split: sum.split)+

lemma eval_loop_and_step:
  "eval_loop env (OpAnd 0 # ctrl) args = eval_loop env ctrl args"
  "eval_loop env (OpAnd (Suc (length xs)) # OpEval x # map OpEval xs @ ctrl) (v # args) =
     (case v of
        EBool True \<Rightarrow> eval_loop env (OpEval x # OpAnd (length xs) # map OpEval xs @ ctrl) args
      | EBool False \<Rightarrow> eval_loop env ctrl (EBool False # args)
      | other \<Rightarrow> Some (Inr (Inl (InvalidType other ''and expects boolean arguments''))))"
  by (subst eval_loop_Cons, simp split: Expr.split bool.split)+

lemma eval_loop_or_step:
  "eval_loop env (OpOr 0 # ctrl) args = eval_loop env ctrl args"
  "eval_loop env (OpOr (Suc (length xs)) # OpEval x # map OpEval xs @ ctrl) (v # args) =
     (case v of
        EBool False \<Rightarrow> eval_loop env (OpEval x # OpOr (length xs) # map OpEval xs @ ctrl) args
      | EBool True \<Rightarrow> eval_loop env ctrl (EBool True # args)
      | other \<Rightarrow> Some (Inr (Inl (InvalidType other ''or expects boolean arguments''))))"
  by (subst eval_loop_Cons, simp split: Expr.split bool.split)+

lemma eval_loop_if_step:
  "eval_loop env (OpIf # t # f # ctrl) (v # args) =
     (case v of
        EBool True \<Rightarrow> eval_loop env (t # ctrl) args
      | EBool False \<Rightarrow> eval_loop env (f # ctrl) args
      | other \<Rightarrow> Some (Inr (Inl (InvalidType other ''if expects test to evaluate to bool''))))"
  by (subst eval_loop_Cons, simp split: Expr.split bool.split)

lemma eval_loop_seq_step:
  "length vs = k \<Longrightarrow> eval_loop env (OpSeq k # ctrl) (rev vs @ args) = eval_loop env ctrl (ESeq vs # args)"
  by (subst eval_loop_Cons) auto

lemma eval_loop_seq:
  "eval_loop env (OpEval (ESeq xs) # ctrl) args
     = eval_loop env (map OpEval xs @ OpSeq (length xs) # ctrl) args"
  by (subst eval_loop_Cons) simp

text \<open>The machine, started on an expression above any stacks, ends up where the outcome of the
  expression says.\<close>

definition sim_expr :: "nat \<Rightarrow> Env \<Rightarrow> Expr \<Rightarrow> bool" where
  "sim_expr n env e \<longleftrightarrow> (\<forall>r ctrl args. eval_den n env e = Some r \<longrightarrow>
     eval_loop env (OpEval e # ctrl) args = resume env ctrl args r)"

definition sim_list :: "nat \<Rightarrow> Env \<Rightarrow> Expr list \<Rightarrow> bool" where
  "sim_list n env xs \<longleftrightarrow> (\<forall>rs. list_den n env xs = Some rs \<longrightarrow>
     (\<forall>vs. rs = Inr vs \<longrightarrow> length vs = length xs)
     \<and> (\<forall>ctrl args. eval_loop env (map OpEval xs @ ctrl) args =
          (case rs of Inl err \<Rightarrow> Some (Inr (Inl err)) | Inr vs \<Rightarrow> eval_loop env ctrl (rev vs @ args))))"

definition sim_and :: "nat \<Rightarrow> Env \<Rightarrow> Expr list \<Rightarrow> bool" where
  "sim_and n env xs \<longleftrightarrow> (\<forall>x ys r ctrl args. xs = x # ys \<longrightarrow> and_den n env xs = Some r \<longrightarrow>
     eval_loop env (OpEval x # OpAnd (length ys) # map OpEval ys @ ctrl) args = resume env ctrl args r)"

definition sim_or :: "nat \<Rightarrow> Env \<Rightarrow> Expr list \<Rightarrow> bool" where
  "sim_or n env xs \<longleftrightarrow> (\<forall>x ys r ctrl args. xs = x # ys \<longrightarrow> or_den n env xs = Some r \<longrightarrow>
     eval_loop env (OpEval x # OpOr (length ys) # map OpEval ys @ ctrl) args = resume env ctrl args r)"

definition sim_if :: "nat \<Rightarrow> Env \<Rightarrow> Expr list \<Rightarrow> bool" where
  "sim_if n env xs \<longleftrightarrow> (\<forall>t a b r ctrl args. xs = [t, a, b] \<longrightarrow> if_den n env xs = Some r \<longrightarrow>
     eval_loop env (OpEval t # OpIf # OpEval a # OpEval b # ctrl) args = resume env ctrl args r)"

lemma sim_value: "eval_den n env e = Some (Inr e) \<Longrightarrow> eval_step env (OpEval e) = (\<lambda>ctrl args. continue_with ctrl (e # args)) \<Longrightarrow> sim_expr n env e"
  by (simp add: sim_expr_def eval_loop_Cons)

lemma sim_atoms:
  "sim_expr n env (EStr s)" "sim_expr n env (EInt i)" "sim_expr n env (EFloat f)" "sim_expr n env (EBool b)"
  "sim_expr n env (EList [])"
  by (auto intro!: sim_value simp: fun_eq_iff unit_expr_def)

lemma sim_no_operator: "\<not> is_ident x \<Longrightarrow> sim_expr n env (EList (x # xs))"
  by (cases x) (simp_all add: sim_expr_def eval_loop_Cons)

lemma sim_ident:
  assumes "\<And>v m. Env_get env i = Inr v \<Longrightarrow> n = Suc m \<Longrightarrow> sim_expr m env v"
  shows "sim_expr n env (EIdent i)"
proof (cases "Env_get env i")
  case (Inl e)
  then show ?thesis by (simp add: sim_expr_def eval_loop_Cons)
next
  case (Inr v)
  show ?thesis
  proof (cases n)
    case (Suc m)
    then have "sim_expr m env v" using assms Inr by blast
    with Inr Suc show ?thesis by (simp add: sim_expr_def eval_loop_Cons [of _ "OpEval (EIdent _)"])
  qed (simp add: sim_expr_def Inr)
qed

lemma sim_strict:
  assumes "op \<notin> {''and'', ''or'', ''if'', ''exists?''}"
    and "arity_error op (length xs) = None \<Longrightarrow> sim_list n env xs"
  shows "sim_expr n env (EList (EIdent op # xs))"
proof (cases "arity_error op (length xs)")
  case None
  show ?thesis
    unfolding sim_expr_def
  proof (intro allI impI)
    fix r ctrl args
    assume "eval_den n env (EList (EIdent op # xs)) = Some r"
    with assms(1) None obtain rs
      where rs: "list_den n env xs = Some rs" "r = result_bind rs (apply_strict op)"
      by (auto simp: bind_outcome_eq_Some_iff)
    show "eval_loop env (OpEval (EList (EIdent op # xs)) # ctrl) args = resume env ctrl args r"
      unfolding rs(2) using assms(1) None assms(2) [OF None] rs(1)
      by (intro eval_loop_strict) (simp_all add: sim_list_def)
  qed
next
  case (Some e)
  with assms(1) show ?thesis by (auto simp: sim_expr_def eval_loop_Cons eval_list_strict)
qed

lemma sim_lazy:
  "sim_and n env xs \<Longrightarrow> sim_expr n env (EList (EIdent ''and'' # xs))"
  "sim_or n env xs \<Longrightarrow> sim_expr n env (EList (EIdent ''or'' # xs))"
  "sim_expr n env (EList (EIdent ''exists?'' # xs))"
  by (cases xs; auto simp: sim_expr_def sim_and_def sim_or_def eval_loop_lazy)+

lemma sim_conditional: "sim_if n env xs \<Longrightarrow> sim_expr n env (EList (EIdent ''if'' # xs))"
proof (cases "length xs = 3")
  case True
  assume "sim_if n env xs"
  moreover obtain t a b where "xs = [t, a, b]"
    using True by (auto simp: numeral_3_eq_3 length_Suc_conv)
  ultimately show ?thesis by (simp add: sim_expr_def sim_if_def eval_loop_lazy del: if_den.simps)
next
  case False
  then have "if_den n env xs = Some (Inl (Malformed ''if requires three arguments''))"
    by (cases "(n, env, xs)" rule: if_den.cases) auto
  with False show ?thesis by (simp add: sim_expr_def eval_loop_lazy)
qed

lemma sim_operator:
  assumes "op = ''and'' \<Longrightarrow> sim_and n env xs" "op = ''or'' \<Longrightarrow> sim_or n env xs" "op = ''if'' \<Longrightarrow> sim_if n env xs"
    and "op \<notin> {''and'', ''or'', ''if'', ''exists?''} \<Longrightarrow> arity_error op (length xs) = None \<Longrightarrow> sim_list n env xs"
  shows "sim_expr n env (EList (EIdent op # xs))"
  using assms sim_lazy sim_conditional sim_strict
  by (cases "op \<in> {''and'', ''or'', ''if'', ''exists?''}") auto

lemma sim_seq:
  assumes "sim_list n env xs"
  shows "sim_expr n env (ESeq xs)"
  unfolding sim_expr_def
proof (intro allI impI)
  fix r ctrl args
  assume "eval_den n env (ESeq xs) = Some r"
  then obtain rs where rs: "list_den n env xs = Some rs" "r = result_map ESeq rs"
    by (auto simp: bind_outcome_eq_Some_iff)
  with assms show "eval_loop env (OpEval (ESeq xs) # ctrl) args = resume env ctrl args r"
    by (cases rs) (auto simp: sim_list_def eval_loop_seq eval_loop_seq_step)
qed

lemma sim_list_Cons:
  assumes "sim_expr n env x" "sim_list n env xs"
  shows "sim_list n env (x # xs)"
  using assms unfolding sim_list_def sim_expr_def
  by (auto simp: bind_outcome_eq_Some_iff)

lemma sim_and_Cons:
  assumes "sim_expr n env x" "sim_and n env (y # ys)"
  shows "sim_and n env (x # y # ys)"
proof -
  have "eval_loop env (OpEval x # OpAnd (Suc (length ys)) # OpEval y # map OpEval ys @ ctrl) args
      = resume env ctrl args r" if d: "and_den n env (x # y # ys) = Some r" for r ctrl args
  proof -
    consider (err) e where "eval_den n env x = Some (Inl e)" "r = Inl e"
      | (val) v where "eval_den n env x = Some (Inr v)"
      using d by (auto simp: bind_outcome_eq_Some_iff)
    then show ?thesis
    proof cases
      case err
      with assms(1) show ?thesis by (simp add: sim_expr_def)
    next
      case val
      with assms(1) have
        "eval_loop env (OpEval x # OpAnd (Suc (length ys)) # OpEval y # map OpEval ys @ ctrl) args
          = eval_loop env (OpAnd (Suc (length ys)) # OpEval y # map OpEval ys @ ctrl) (v # args)"
        by (simp add: sim_expr_def)
      with val d assms(2) show ?thesis
        by (cases v) (auto simp: bind_outcome_def eval_loop_and_step sim_and_def split: bool.splits)
    qed
  qed
  then show ?thesis by (simp add: sim_and_def)
qed

lemma sim_or_Cons:
  assumes "sim_expr n env x" "sim_or n env (y # ys)"
  shows "sim_or n env (x # y # ys)"
proof -
  have "eval_loop env (OpEval x # OpOr (Suc (length ys)) # OpEval y # map OpEval ys @ ctrl) args
      = resume env ctrl args r" if d: "or_den n env (x # y # ys) = Some r" for r ctrl args
  proof -
    consider (err) e where "eval_den n env x = Some (Inl e)" "r = Inl e"
      | (val) v where "eval_den n env x = Some (Inr v)"
      using d by (auto simp: bind_outcome_eq_Some_iff)
    then show ?thesis
    proof cases
      case err
      with assms(1) show ?thesis by (simp add: sim_expr_def)
    next
      case val
      with assms(1) have
        "eval_loop env (OpEval x # OpOr (Suc (length ys)) # OpEval y # map OpEval ys @ ctrl) args
          = eval_loop env (OpOr (Suc (length ys)) # OpEval y # map OpEval ys @ ctrl) (v # args)"
        by (simp add: sim_expr_def)
      with val d assms(2) show ?thesis
        by (cases v) (auto simp: bind_outcome_def eval_loop_or_step sim_or_def split: bool.splits)
    qed
  qed
  then show ?thesis by (simp add: sim_or_def)
qed

lemma sim_single:
  "sim_expr n env x \<Longrightarrow> sim_and n env [x]" "sim_expr n env x \<Longrightarrow> sim_or n env [x]"
  by (auto simp: sim_and_def sim_or_def sim_expr_def eval_loop_and_step eval_loop_or_step resume_def
      split: sum.splits)

lemma sim_if_three:
  assumes "sim_expr n env t" "sim_expr n env a" "sim_expr n env b"
  shows "sim_if n env [t, a, b]"
proof -
  have "eval_loop env (OpEval t # OpIf # OpEval a # OpEval b # ctrl) args = resume env ctrl args r"
    if d: "if_den n env [t, a, b] = Some r" for r ctrl args
  proof -
    consider (err) e where "eval_den n env t = Some (Inl e)" "r = Inl e"
      | (val) v where "eval_den n env t = Some (Inr v)"
      using d by (auto simp: bind_outcome_eq_Some_iff)
    then show ?thesis
    proof cases
      case err
      with assms(1) show ?thesis by (simp add: sim_expr_def)
    next
      case val
      with assms(1) have "eval_loop env (OpEval t # OpIf # OpEval a # OpEval b # ctrl) args
          = eval_loop env (OpIf # OpEval a # OpEval b # ctrl) (v # args)"
        by (simp add: sim_expr_def)
      with val d assms(2,3) show ?thesis
        by (cases v) (auto simp: bind_outcome_def eval_loop_if_step sim_expr_def split: bool.splits)
    qed
  qed
  then show ?thesis by (simp add: sim_if_def)
qed

lemma sim_trivial:
  "sim_list n env []" "sim_and n env []" "sim_or n env []" "sim_if n env []" "sim_if n env [v]"
  "sim_if n env [v, w]" "sim_if n env (v # w # x # y # ys)"
  by (simp_all add: sim_list_def sim_and_def sim_or_def sim_if_def)

lemmas sim_intros = sim_trivial sim_atoms sim_no_operator sim_seq sim_list_Cons sim_and_Cons
  sim_or_Cons sim_single sim_if_three

lemma sim_all:
  "sim_expr n env e" "sim_list n env xs" "sim_and n env xs" "sim_or n env xs" "sim_if n env xs"
proof (induction n env e and n env xs and n env xs and n env xs and n env xs
    rule: eval_den_list_den_and_den_or_den_if_den.induct)
  case (1 n env i)
  then show ?case by (rule sim_ident)
next
  case (3 n env op xs)
  then show ?case by (intro sim_operator) auto
qed (simp_all add: sim_intros)

lemma eval_den_machine: "eval_den n env e = Some r \<Longrightarrow> eval e env = Some (Inr r)"
  using sim_all(1) [of n env e]
  by (cases r) (auto simp: sim_expr_def eval_def eval_loop_done)

subsection \<open>Termination\<close>

fun idents :: "Expr \<Rightarrow> string list" where
  "idents (EIdent i) = [i]"
| "idents (ESeq xs) = concat (map idents xs)"
| "idents (EList xs) = concat (map idents xs)"
| "idents _ = []"

text \<open>An environment without cycles: what a name is bound to mentions only bound names of lower
  rank (unbound names are reported, not followed).\<close>

definition ranks_below :: "(string \<Rightarrow> nat) \<Rightarrow> Env \<Rightarrow> nat \<Rightarrow> Expr \<Rightarrow> bool" where
  "ranks_below rank env n e = list_all (\<lambda>i. Env_contains env i \<longrightarrow> rank i < n) (idents e)"

definition env_ranked :: "(string \<Rightarrow> nat) \<Rightarrow> Env \<Rightarrow> bool" where
  "env_ranked rank env = list_all (\<lambda>p. ranks_below rank env (rank (fst p)) (snd p)) env"

lemma ranks_below_simps [simp]:
  "ranks_below rank env n (ESeq xs) \<longleftrightarrow> list_all (ranks_below rank env n) xs"
  "ranks_below rank env n (EList xs) \<longleftrightarrow> list_all (ranks_below rank env n) xs"
  "ranks_below rank env n (EIdent i) \<longleftrightarrow> (Env_contains env i \<longrightarrow> rank i < n)"
  by (auto simp: ranks_below_def list_all_iff)

lemma ranks_below_mono: "ranks_below rank env m e \<Longrightarrow> m \<le> n \<Longrightarrow> ranks_below rank env n e"
  by (auto simp: ranks_below_def list_all_iff)

lemma Env_get_contains: "Env_get env i = Inr v \<Longrightarrow> Env_contains env i \<and> (i, v) \<in> set env"
  by (cases "bt_get env i") (auto simp: Env_get_def Env_contains_def bt_simps dest: bt_get_SomeD)

lemma eval_den_total:
  assumes "env_ranked rank env"
  shows "ranks_below rank env n e \<Longrightarrow> eval_den n env e \<noteq> None"
    and "list_all (ranks_below rank env n) xs \<Longrightarrow> list_den n env xs \<noteq> None"
    and "list_all (ranks_below rank env n) xs \<Longrightarrow> and_den n env xs \<noteq> None"
    and "list_all (ranks_below rank env n) xs \<Longrightarrow> or_den n env xs \<noteq> None"
    and "list_all (ranks_below rank env n) xs \<Longrightarrow> if_den n env xs \<noteq> None"
  using assms
proof (induction n env e and n env xs and n env xs and n env xs and n env xs
    rule: eval_den_list_den_and_den_or_den_if_den.induct)
  case (1 n env i)
  show ?case
  proof (cases "Env_get env i")
    case (Inr v)
    note c = Env_get_contains [OF Inr]
    then have "rank i < n" using 1 by simp
    then obtain m where m: "n = Suc m" "rank i \<le> m" by (cases n) auto
    have "ranks_below rank env (rank i) v"
      using 1 c by (auto simp: env_ranked_def list_all_iff)
    then have "ranks_below rank env m v" using m ranks_below_mono by blast
    with 1 Inr m show ?thesis by simp
  qed simp
next
  case (3 n env op xs)
  then show ?case
    by (cases "op = ''and''"; cases "op = ''or''"; cases "op = ''if''"; cases "op = ''exists?''";
        cases "arity_error op (length xs)")
       (auto simp: bind_outcome_def split: option.split sum.split)
qed (auto simp: bind_outcome_def split: sum.split Expr.split bool.split)

text \<open>C18: the two-stack machine computes the recursive meaning of policy expressions: under an
  environment without cyclic bindings it always stops, never panics, and returns exactly the value
  or the error the meaning gives, with the lookups nested no deeper than the rank bound.\<close>

theorem eval_machine_meaning:
  assumes "env_ranked rank env" "ranks_below rank env n e"
  shows "\<exists>r. eval_den n env e = Some r \<and> eval e env = Some (Inr r)"
proof -
  obtain r where "eval_den n env e = Some r" using eval_den_total(1) [OF assms] by blast
  then show ?thesis using eval_den_machine by blast
qed

theorem eval_machine_meaning_witness:
  "eval (EList [EIdent ''='', EIdent ''a'', EIdent ''b''])
        [(''a'', EIdent ''b''), (''b'', EStr ''x'')] = Some (Inr (Inr (EBool True)))"
proof -
  let ?env = "[(''a'', EIdent ''b''), (''b'', EStr ''x'')]"
  let ?e = "EList [EIdent ''='', EIdent ''a'', EIdent ''b'']"
  let ?rank = "\<lambda>i. if i = ''a'' then 1 else 0 :: nat"
  have "env_ranked ?rank ?env" "ranks_below ?rank ?env 2 ?e"
    by (simp_all add: env_ranked_def ranks_below_def Env_contains_def bt_contains_key_def)
  then have "\<exists>r. eval_den 2 ?env ?e = Some r \<and> eval ?e ?env = Some (Inr r)"
    by (rule eval_machine_meaning)
  moreover have "eval_den 2 ?env ?e = Some (Inr (EBool True))"
    by (simp add: numeral_2_eq_2 Env_get_def bt_get_def bind_outcome_def arity_error_def
        apply_strict_def chain_value_def equals_def)
  ultimately show ?thesis by simp
qed

text \<open>C27: the loop need not stop: an identifier bound to itself is looked up for ever.\<close>

theorem eval_diverges:
  assumes "Env_get env i = Inr (EIdent i)"
  shows "eval (EIdent i) env = None"
proof -
  have "\<not> (env' = env \<and> ctrl = [OpEval (EIdent i)])" if "eval_loop env' ctrl args = Some out"
    for env' ctrl args out
    by (rule eval_loop.raw_induct
          [where P = "\<lambda>e c a r. \<not> (e = env \<and> c = [OpEval (EIdent i)])", OF _ that])
       (use assms in fastforce)
  from this [of env "[OpEval (EIdent i)]" "[]"] show ?thesis
    unfolding eval_def by (cases "eval_loop env [OpEval (EIdent i)] []") auto
qed

theorem eval_diverges_witness: "eval (EIdent ''x'') [(''x'', EIdent ''x'')] = None"
  by (rule eval_diverges) (simp add: Env_get_def bt_get_def)

text \<open>\<open>and\<close>, \<open>or\<close> and \<open>if\<close> are lazy: once the outcome is decided, the remaining arguments
  are not evaluated, whatever they are and whether or not their evaluation would end.\<close>

theorem eval_lazy:
  "eval (and_expr (EBool False # x # xs)) env = Some (Inr (Inr (EBool False)))
   \<and> eval (or_expr (EBool True # x # xs)) env = Some (Inr (Inr (EBool True)))
   \<and> eval (when_expr (EBool True) x y) env = eval x env
   \<and> eval (when_expr (EBool False) x y) env = eval y env"
proof -
  have atom: "eval_loop env (OpEval (EBool b) # ctrl) args = eval_loop env ctrl (EBool b # args)" for b ctrl args
    by (simp add: eval_loop_Cons)
  show ?thesis
    using eval_loop_and_step(2) [of env xs x "[]"] eval_loop_or_step(2) [of env xs x "[]"]
    by (simp add: eval_def and_expr_def or_expr_def when_expr_def with_op_def eval_loop_lazy atom
        eval_loop_if_step eval_loop_done)
qed

subsection \<open>Values\<close>

lemma list_den_values:
  "(\<And>x. x \<in> set xs \<Longrightarrow> eval_den n env x = Some (Inr x)) \<Longrightarrow> list_den n env xs = Some (Inr xs)"
  by (induction xs) (simp_all add: bind_outcome_def)

lemma eval_den_value: "eval_den n env (Expr_from_val v) = Some (Inr (Expr_from_val v))"
proof (induction v)
  case (VSeq vs)
  then have "list_den n env (map Expr_from_val vs) = Some (Inr (map Expr_from_val vs))"
    by (intro list_den_values) auto
  then show ?case by (simp add: bind_outcome_def)
qed simp_all

text \<open>Attribute values evaluate to themselves in every environment.\<close>

theorem eval_value: "eval (Expr_from_val v) env = Some (Inr (Inr (Expr_from_val v)))"
  using eval_den_machine [OF eval_den_value [of 0]] .

end
