(* ===== verification/Identity_Error.thy ===== *)
theory Identity_Error
  imports Error_Code
begin

text \<open>
  The errors of the identity crate (\<open>ockam_identity/src/error.rs\<close>) and their conversion to an
  error code.
\<close>

datatype IdentityError =
    BareError
  | InvalidInternalState
  | ConsistencyError
  | SecureChannelVerificationFailed
  | SecureChannelTrustCheckFailed
  | UnknownChannelMsgDestination
  | InvalidLocalInfoType
  | IdentityVerificationFailed
  | InvalidIdentityId
  | UnknownAuthority
  | DuplicateSecureChannel
  | InvalidNonce
  | NonceOverflow

definition identity_error :: "IdentityError \<Rightarrow> error" where
  "identity_error err = ErrorCode_new OriginIdentity KindUnknown"

end
