(* ===== verification/Local_Info.thy ===== *)
theory Local_Info
  imports Identity_Error Route BTree
begin

text \<open>
  \<open>ockam_identity/src/secure_channel/local_info.rs\<close>: the local information a secure channel
  attaches to a message to tell who sent it.  Its codec is a third-party serializer: the
  parameters \<open>encode\<close> and \<open>decode\<close>.  With it, \<open>identities/storage/attributes_entry.rs\<close>: what is
  known about a sender.
\<close>

type_synonym IdentityIdentifier = string

type_synonym Timestamp = u64

record AttributesEntry =
  ae_attrs :: "(string, bytes) btree_map"
  ae_added :: Timestamp
  ae_expires :: "Timestamp option"
  ae_attested_by :: "IdentityIdentifier option"

definition IDENTITY_SECURE_CHANNEL_IDENTIFIER :: string where
  "IDENTITY_SECURE_CHANNEL_IDENTIFIER = ''IDENTITY_SECURE_CHANNEL_IDENTIFIER''"

record IdentitySecureChannelLocalInfo =
  their_identity_id :: IdentityIdentifier

definition from_local_info ::
  "(bytes \<Rightarrow> error + IdentitySecureChannelLocalInfo) \<Rightarrow> LocalInfo \<Rightarrow> error + IdentitySecureChannelLocalInfo" where
  "from_local_info decode value =
     (if type_identifier value \<noteq> IDENTITY_SECURE_CHANNEL_IDENTIFIER then Inl (identity_error InvalidLocalInfoType)
      else case decode (info_data value) of
             Inr info \<Rightarrow> Inr info
           | Inl _ \<Rightarrow> Inl (identity_error InvalidLocalInfoType))"

definition to_local_info ::
  "(IdentitySecureChannelLocalInfo \<Rightarrow> error + bytes) \<Rightarrow> IdentitySecureChannelLocalInfo \<Rightarrow> error + LocalInfo" where
  "to_local_info encode self =
     result_map (LocalInfo_new IDENTITY_SECURE_CHANNEL_IDENTIFIER) (encode self)"

definition find_info_from_list ::
  "(bytes \<Rightarrow> error + IdentitySecureChannelLocalInfo) \<Rightarrow> LocalInfo list \<Rightarrow> error + IdentitySecureChannelLocalInfo" where
  "find_info_from_list decode infos =
     (case find (\<lambda>x. type_identifier x = IDENTITY_SECURE_CHANNEL_IDENTIFIER) infos of
        Some info \<Rightarrow> from_local_info decode info
      | None \<Rightarrow> Inl (identity_error InvalidLocalInfoType))"

definition find_info ::
  "(bytes \<Rightarrow> error + IdentitySecureChannelLocalInfo) \<Rightarrow> LocalMessage \<Rightarrow> error + IdentitySecureChannelLocalInfo" where
  "find_info decode msg = find_info_from_list decode (local_info msg)"

definition mark ::
  "(IdentitySecureChannelLocalInfo \<Rightarrow> error + bytes) \<Rightarrow> LocalInfo list \<Rightarrow> IdentityIdentifier \<Rightarrow> error + LocalInfo list" where
  "mark encode infos i =
     (let infos' = filter (\<lambda>x. type_identifier x \<noteq> IDENTITY_SECURE_CHANNEL_IDENTIFIER) infos
      in result_map (\<lambda>info. infos' @ [info]) (to_local_info encode \<lparr>their_identity_id = i\<rparr>))"

subsection \<open>Marking messages with the sender\<close>

text \<open>the mark a secure channel puts on a message is the one found: whatever local information
  the message carried before, forged marks included, after marking the lookup gives exactly the
  authenticated identity, other entries are kept in order, and there is one mark only.  (The codec
  decodes what it encodes.)\<close>

theorem mark_then_find:
  assumes "encode \<lparr>their_identity_id = i\<rparr> = Inr bs" "decode bs = Inr \<lparr>their_identity_id = i\<rparr>"
  shows "\<exists>infos'. mark encode infos i = Inr infos'
     \<and> find_info_from_list decode infos' = Inr \<lparr>their_identity_id = i\<rparr>
     \<and> filter (\<lambda>x. type_identifier x \<noteq> IDENTITY_SECURE_CHANNEL_IDENTIFIER) infos'
         = filter (\<lambda>x. type_identifier x \<noteq> IDENTITY_SECURE_CHANNEL_IDENTIFIER) infos
     \<and> length (filter (\<lambda>x. type_identifier x = IDENTITY_SECURE_CHANNEL_IDENTIFIER) infos') = 1"
proof -
  let ?P = "\<lambda>x :: LocalInfo. type_identifier x = IDENTITY_SECURE_CHANNEL_IDENTIFIER"
  let ?info = "LocalInfo_new IDENTITY_SECURE_CHANNEL_IDENTIFIER bs"
  have "mark encode infos i = Inr (filter (\<lambda>x. \<not> ?P x) infos @ [?info])"
    using assms(1) by (simp add: mark_def to_local_info_def Let_def)
  moreover have "find ?P (filter (\<lambda>x. \<not> ?P x) infos @ [?info]) = Some ?info"
    by (induction infos) (auto simp: LocalInfo_new_def)
  then have "find_info_from_list decode (filter (\<lambda>x. \<not> ?P x) infos @ [?info]) = Inr \<lparr>their_identity_id = i\<rparr>"
    using assms(2) by (simp add: find_info_from_list_def from_local_info_def LocalInfo_new_def)
  moreover have "filter ?P (filter (\<lambda>x. \<not> ?P x) infos @ [?info]) = [?info]"
    by (simp add: LocalInfo_new_def filter_empty_conv)
  ultimately show ?thesis by (simp add: LocalInfo_new_def)
qed

theorem mark_then_find_witness:
  "let encode = (\<lambda>info. Inr (their_identity_id info)); decode = (\<lambda>bs. Inr \<lparr>their_identity_id = bs\<rparr>);
       forged = LocalInfo_new IDENTITY_SECURE_CHANNEL_IDENTIFIER ''Pmallory''
   in \<exists>infos. mark encode [forged] ''Palice'' = Inr infos
        \<and> find_info_from_list decode infos = Inr \<lparr>their_identity_id = ''Palice''\<rparr>"
  unfolding Let_def
  using mark_then_find [of "\<lambda>info. Inr (their_identity_id info)" "''Palice''" "''Palice''"
      "\<lambda>bs. Inr \<lparr>their_identity_id = bs\<rparr>"
      "[LocalInfo_new IDENTITY_SECURE_CHANNEL_IDENTIFIER ''Pmallory'']"]
  by auto

end
