(* ===== verification/Abac_Policy.thy ===== *)
theory Abac_Policy
  imports Abac_Eval Access_Control Local_Info
begin

text \<open>
  \<open>ockam_abac/src/{types,mem,policy,attribute_access_control}.rs\<close>: the policy store and the access
  controls that evaluate policies against the attributes of the sender.  The repository of
  attributes is a trait object: the function its \<open>get_attributes\<close> method computes.
\<close>

subsection \<open>Names of resources and actions\<close>

text \<open>\<open>Either<String, StrBuf>\<close> with its derived order.\<close>

datatype PolicyName = LeftName (name_str: string) | RightName (name_str: string)

instantiation PolicyName :: linorder
begin

fun less_eq_PolicyName :: "PolicyName \<Rightarrow> PolicyName \<Rightarrow> bool" where
  "less_eq_PolicyName (LeftName a) (LeftName b) = (a \<le> b)"
| "less_eq_PolicyName (LeftName a) (RightName b) = True"
| "less_eq_PolicyName (RightName a) (LeftName b) = False"
| "less_eq_PolicyName (RightName a) (RightName b) = (a \<le> b)"

definition less_PolicyName :: "PolicyName \<Rightarrow> PolicyName \<Rightarrow> bool" where
  "less_PolicyName a b = (a \<le> b \<and> \<not> b \<le> a)"

instance
proof
  fix x y z :: PolicyName
  show "x < y \<longleftrightarrow> x \<le> y \<and> \<not> y \<le> x" by (rule less_PolicyName_def)
  show "x \<le> x" by (cases x) auto
  show "x \<le> y \<Longrightarrow> y \<le> z \<Longrightarrow> x \<le> z" by (cases x; cases y; cases z) auto
  show "x \<le> y \<Longrightarrow> y \<le> x \<Longrightarrow> x = y" by (cases x; cases y) auto
  show "x \<le> y \<or> y \<le> x" by (cases x; cases y) auto
qed

end

type_synonym Resource = PolicyName
type_synonym Action = PolicyName

definition MAX_INLINE_SIZE :: nat where
  "MAX_INLINE_SIZE = 24"

definition PolicyName_new :: "string \<Rightarrow> PolicyName" where
  "PolicyName_new s = (if length s \<le> MAX_INLINE_SIZE then RightName s else LeftName s)"

subsection \<open>The policy store\<close>

type_synonym Memory = "(Resource, (Action, Expr) btree_map) btree_map"

definition Memory_new :: Memory where
  "Memory_new = []"

definition del_policy :: "Memory \<Rightarrow> Resource \<Rightarrow> Action \<Rightarrow> Memory" where
  "del_policy self r a =
     (case bt_get self r of
        None \<Rightarrow> self
      | Some p \<Rightarrow>
          let p' = bt_remove a p in
          if p' = [] then bt_remove r self else bt_insert r p' self)"

definition get_policy :: "Memory \<Rightarrow> Resource \<Rightarrow> Action \<Rightarrow> Expr option" where
  "get_policy self r a = (case bt_get self r of None \<Rightarrow> None | Some p \<Rightarrow> bt_get p a)"

definition set_policy :: "Memory \<Rightarrow> Resource \<Rightarrow> Action \<Rightarrow> Expr \<Rightarrow> Memory" where
  "set_policy self r a p =
     (let actions = (case bt_get self r of None \<Rightarrow> [] | Some q \<Rightarrow> q)
      in bt_insert r (bt_insert a p actions) self)"

definition policies :: "Memory \<Rightarrow> Resource \<Rightarrow> (Action \<times> Expr) list" where
  "policies self r = (case bt_get self r of Some p \<Rightarrow> p | None \<Rightarrow> [])"

definition memory_wf :: "Memory \<Rightarrow> bool" where
  "memory_wf m \<longleftrightarrow> bt_wf m \<and> list_all (\<lambda>(_, p). bt_wf p \<and> p \<noteq> []) m"

text \<open>The \<open>PolicyStorage\<close> interface of \<open>Memory\<close>.\<close>

definition Memory_get_policy :: "Memory \<Rightarrow> Resource \<Rightarrow> Action \<Rightarrow> error + Expr option" where
  "Memory_get_policy self r a = Inr (get_policy self r a)"

definition Memory_set_policy :: "Memory \<Rightarrow> Resource \<Rightarrow> Action \<Rightarrow> Expr \<Rightarrow> error + Memory" where
  "Memory_set_policy self r a p = Inr (set_policy self r a p)"

definition Memory_del_policy :: "Memory \<Rightarrow> Resource \<Rightarrow> Action \<Rightarrow> error + Memory" where
  "Memory_del_policy self r a = Inr (del_policy self r a)"

definition Memory_policies :: "Memory \<Rightarrow> Resource \<Rightarrow> error + (Action \<times> Expr) list" where
  "Memory_policies self r = Inr (policies self r)"

subsection \<open>Attribute-based access control\<close>

type_synonym repository = "IdentityIdentifier \<Rightarrow> error + AttributesEntry option"

record AbacAccessControl =
  abac_repository :: repository
  expression :: Expr
  environment :: Env

definition AbacAccessControl_new :: "repository \<Rightarrow> Expr \<Rightarrow> Env \<Rightarrow> AbacAccessControl" where
  "AbacAccessControl_new repo e env = \<lparr>abac_repository = repo, expression = e, environment = env\<rparr>"

definition AbacAccessControl_create :: "repository \<Rightarrow> string \<Rightarrow> string \<Rightarrow> AbacAccessControl" where
  "AbacAccessControl_create repo name val =
     AbacAccessControl_new repo
       (EList [EIdent ''='', EIdent (''subject.'' @ name), EStr val]) Env_new"

text \<open>The body of the loop over the attributes: one that is not UTF-8 is skipped, and so is one
  whose bare key is already bound.\<close>

definition put_attribute :: "Env \<Rightarrow> string \<times> bytes \<Rightarrow> Env" where
  "put_attribute env kv =
     (case kv of (key, val) \<Rightarrow>
        (case from_utf8 val of
           Some s \<Rightarrow> if Env_contains env key then env else Env_put env (''subject.'' @ key) (EStr s)
         | None \<Rightarrow> env))"

definition subject_environment :: "Env \<Rightarrow> AttributesEntry option \<Rightarrow> IdentityIdentifier \<Rightarrow> Env" where
  "subject_environment env entry i =
     (let env1 = (case entry of
                    Some e \<Rightarrow> fold (\<lambda>kv env'. put_attribute env' kv) (ae_attrs e) env
                  | None \<Rightarrow> env)
      in Env_put env1 ''subject.identifier'' (EStr i))"

type_synonym decision = "(panic + (error + bool)) option"

definition is_identity_authorized :: "AbacAccessControl \<Rightarrow> IdentityIdentifier \<Rightarrow> decision" where
  "is_identity_authorized self i =
     (case abac_repository self i of
        Inl e \<Rightarrow> Some (Inr (Inl e))
      | Inr entry \<Rightarrow>
          (case eval (expression self) (subject_environment (environment self) entry i) of
             None \<Rightarrow> None
           | Some (Inl p) \<Rightarrow> Some (Inl p)
           | Some (Inr (Inr (EBool b))) \<Rightarrow> Some (Inr (Inr b))
           | Some (Inr (Inr x)) \<Rightarrow> Some (Inr (Inr False))
           | Some (Inr (Inl e)) \<Rightarrow> Some (Inr (Inr False))))"

definition abac_is_authorized ::
  "(bytes \<Rightarrow> error + IdentitySecureChannelLocalInfo) \<Rightarrow> AbacAccessControl \<Rightarrow> RelayMessage \<Rightarrow> decision" where
  "abac_is_authorized decode self msg =
     (case find_info decode (local_msg msg) of
        Inr info \<Rightarrow> is_identity_authorized self (their_identity_id info)
      | Inl _ \<Rightarrow> Some (Inr (Inr False)))"

record 's PolicyAccessControl =
  pac_resource :: Resource
  pac_action :: Action
  pac_policies :: 's
  pac_repository :: repository
  pac_environment :: Env

definition policy_is_authorized ::
  "('s \<Rightarrow> Resource \<Rightarrow> Action \<Rightarrow> error + Expr option)
     \<Rightarrow> (bytes \<Rightarrow> error + IdentitySecureChannelLocalInfo) \<Rightarrow> 's PolicyAccessControl \<Rightarrow> RelayMessage \<Rightarrow> decision" where
  "policy_is_authorized get_pol decode self msg =
     (case get_pol (pac_policies self) (pac_resource self) (pac_action self) of
        Inl e \<Rightarrow> Some (Inr (Inl e))
      | Inr None \<Rightarrow> Some (Inr (Inr False))
      | Inr (Some (EBool b)) \<Rightarrow> Some (Inr (Inr b))
      | Inr (Some expr) \<Rightarrow>
          abac_is_authorized decode
            (AbacAccessControl_new (pac_repository self) expr (pac_environment self)) msg)"

subsection \<open>The store keeps one policy per resource and action\<close>

lemma memory_wf_new [wf_intros]: "memory_wf Memory_new"
  by (simp add: memory_wf_def Memory_new_def)

lemma memory_wf_get: "memory_wf m \<Longrightarrow> bt_get m r = Some p \<Longrightarrow> bt_wf p \<and> p \<noteq> []"
  by (auto simp: memory_wf_def list_all_iff dest!: bt_get_SomeD)

lemma bt_insert_not_Nil [simp]: "bt_insert k v m \<noteq> []"
  by (induction k v m rule: bt_insert.induct) auto

lemma memory_wf_set [wf_intros]:
  assumes "memory_wf m"
  shows "memory_wf (set_policy m r a p)"
proof -
  have "bt_wf (case bt_get m r of None \<Rightarrow> [] | Some q \<Rightarrow> q)"
    using memory_wf_get [OF assms] by (simp split: option.split)
  with assms show ?thesis
    by (simp add: memory_wf_def set_policy_def Let_def wf_intros)
qed

lemma memory_wf_del [wf_intros]:
  assumes "memory_wf m"
  shows "memory_wf (del_policy m r a)"
proof (cases "bt_get m r")
  case (Some p)
  have "bt_wf (bt_remove a p)" using memory_wf_get [OF assms Some] by (simp add: wf_intros)
  with assms Some show ?thesis
    by (simp add: memory_wf_def del_policy_def Let_def wf_intros)
qed (use assms in \<open>simp add: del_policy_def\<close>)

lemma get_set_policy:
  "get_policy (set_policy m r a p) r' a' = (if r' = r \<and> a' = a then Some p else get_policy m r' a')"
  by (simp add: get_policy_def set_policy_def Let_def bt_simps split: option.split)

lemma get_del_policy:
  "get_policy (del_policy m r a) r' a' = (if r' = r \<and> a' = a then None else get_policy m r' a')"
proof (cases "bt_get m r")
  case (Some p)
  have "bt_remove a p = [] \<Longrightarrow> a' \<noteq> a \<Longrightarrow> bt_get p a' = None"
    using bt_get_remove [of a p a'] by simp
  with Some show ?thesis by (auto simp: get_policy_def del_policy_def Let_def bt_simps)
qed (simp add: get_policy_def del_policy_def)

subsection \<open>Decisions over any policy storage\<close>

locale policy_storage =
  fixes get_op :: "'s \<Rightarrow> Resource \<Rightarrow> Action \<Rightarrow> error + Expr option"
    and set_op :: "'s \<Rightarrow> Resource \<Rightarrow> Action \<Rightarrow> Expr \<Rightarrow> error + 's"
    and del_op :: "'s \<Rightarrow> Resource \<Rightarrow> Action \<Rightarrow> error + 's"
    and invar :: "'s \<Rightarrow> bool"
  assumes get_set: "invar s \<Longrightarrow> set_op s r a p = Inr s' \<Longrightarrow>
        get_op s' r' a' = (if r' = r \<and> a' = a then Inr (Some p) else get_op s r' a')"
    and get_del: "invar s \<Longrightarrow> del_op s r a = Inr s' \<Longrightarrow>
        get_op s' r' a' = (if r' = r \<and> a' = a then Inr None else get_op s r' a')"
    and invar_set: "invar s \<Longrightarrow> set_op s r a p = Inr s' \<Longrightarrow> invar s'"
    and invar_del: "invar s \<Longrightarrow> del_op s r a = Inr s' \<Longrightarrow> invar s'"
begin

abbreviation decide :: "(bytes \<Rightarrow> error + IdentitySecureChannelLocalInfo) \<Rightarrow> 's PolicyAccessControl \<Rightarrow> RelayMessage \<Rightarrow> decision" where
  "decide \<equiv> policy_is_authorized get_op"

lemma denied_after_delete:
  "invar s \<Longrightarrow> del_op s (pac_resource ac) (pac_action ac) = Inr s' \<Longrightarrow>
     decide decode (ac\<lparr>pac_policies := s'\<rparr>) msg = Some (Inr (Inr False))"
  by (simp add: policy_is_authorized_def get_del)

lemma constant_policy_decides:
  "invar s \<Longrightarrow> set_op s (pac_resource ac) (pac_action ac) (EBool b) = Inr s' \<Longrightarrow>
     decide decode (ac\<lparr>pac_policies := s'\<rparr>) msg = Some (Inr (Inr b))"
  by (simp add: policy_is_authorized_def get_set)

lemma other_policies_irrelevant:
  assumes "invar s" "r \<noteq> pac_resource ac \<or> a \<noteq> pac_action ac"
    and "set_op s r a p = Inr s' \<or> del_op s r a = Inr s'"
  shows "decide decode (ac\<lparr>pac_policies := s'\<rparr>) msg = decide decode (ac\<lparr>pac_policies := s\<rparr>) msg"
  using assms
  by (auto simp: policy_is_authorized_def get_set get_del
      cong: sum.case_cong option.case_cong Expr.case_cong)

end

interpretation memory_storage:
  policy_storage Memory_get_policy Memory_set_policy Memory_del_policy memory_wf
  by unfold_locales
     (auto simp: Memory_get_policy_def Memory_set_policy_def Memory_del_policy_def
       get_set_policy get_del_policy intro: wf_intros)

text \<open>C31: the in-memory policy store is a map from resource and action to policy: setting a policy
  replaces exactly that entry, deleting removes exactly that entry, the store never keeps a resource
  without policies, and the listing of a resource is what lookups find.\<close>

theorem memory_store_is_map:
  assumes "memory_wf m"
  shows "get_policy (set_policy m r a p) r' a' = (if r' = r \<and> a' = a then Some p else get_policy m r' a')
     \<and> get_policy (del_policy m r a) r' a' = (if r' = r \<and> a' = a then None else get_policy m r' a')
     \<and> memory_wf (set_policy m r a p) \<and> memory_wf (del_policy m r a)
     \<and> (get_policy m r a = Some p \<longleftrightarrow> (a, p) \<in> set (policies m r))"
proof -
  have "get_policy m r a = Some p \<longleftrightarrow> (a, p) \<in> set (policies m r)"
  proof (cases "bt_get m r")
    case (Some q)
    then show ?thesis
      using memory_wf_get [OF assms Some] by (simp add: get_policy_def policies_def bt_get_eq_Some_iff)
  qed (simp add: get_policy_def policies_def)
  then show ?thesis
    using assms get_set_policy get_del_policy memory_wf_set memory_wf_del by blast
qed

theorem memory_store_is_map_witness:
  "let r = PolicyName_new ''/a''; w = PolicyName_new ''w''; q = PolicyName_new ''r'';
       m = set_policy (set_policy Memory_new r w (EBool False)) r q (EBool True)
   in get_policy (del_policy m r w) r q = Some (EBool True) \<and> get_policy (del_policy m r w) r w = None"
proof -
  let ?r = "PolicyName_new ''/a''" and ?w = "PolicyName_new ''w''" and ?q = "PolicyName_new ''r''"
  let ?m = "set_policy (set_policy Memory_new ?r ?w (EBool False)) ?r ?q (EBool True)"
  have wf: "memory_wf ?m" by (intro wf_intros)
  have "?q \<noteq> ?w" by (simp add: PolicyName_new_def MAX_INLINE_SIZE_def)
  then show ?thesis
    using memory_store_is_map [OF wf, of ?r ?w _ ?r ?q] memory_store_is_map [OF wf, of ?r ?w _ ?r ?w]
      get_set_policy [of "set_policy Memory_new ?r ?w (EBool False)" ?r ?q "EBool True" ?r ?q]
    unfolding Let_def by simp
qed



subsection \<open>The environment of a subject\<close>

definition ground_env :: "Env \<Rightarrow> bool" where
  "ground_env env = list_all (\<lambda>p. idents (snd p) = []) env"

lemma ground_env_put: "ground_env env \<Longrightarrow> ground_env (Env_put env k (EStr s))"
  by (simp add: ground_env_def Env_put_def wf_intros)

lemma ground_put_attribute: "ground_env env \<Longrightarrow> ground_env (put_attribute env kv)"
  by (cases kv) (simp add: put_attribute_def ground_env_put split: option.split)

lemma ground_fold_attributes:
  "ground_env env \<Longrightarrow> ground_env (fold (\<lambda>kv env'. put_attribute env' kv) kvs env)"
  by (induction kvs arbitrary: env) (simp_all add: ground_put_attribute)

lemma ground_subject_environment: "ground_env env \<Longrightarrow> ground_env (subject_environment env entry i)"
  by (simp add: subject_environment_def ground_env_put ground_fold_attributes split: option.split)

lemma ground_env_ranked: "ground_env env \<Longrightarrow> env_ranked (\<lambda>_. 0) env"
  by (simp add: ground_env_def env_ranked_def ranks_below_def list_all_iff)

lemma eval_ground: "ground_env env \<Longrightarrow> \<exists>r. eval_den 1 env e = Some r \<and> eval e env = Some (Inr r)"
proof -
  assume "ground_env env"
  then have "eval_den 1 env e \<noteq> None"
    by (intro eval_den_total(1) [of "\<lambda>_. 0"] ground_env_ranked)
       (simp_all add: ranks_below_def list_all_iff)
  then obtain r where "eval_den 1 env e = Some r" by blast
  then show ?thesis using eval_den_machine by blast
qed

lemma subject_identifier: "bt_get (subject_environment env entry i) ''subject.identifier'' = Some (EStr i)"
  by (simp add: subject_environment_def Env_put_def bt_get_insert Let_def)

text \<open>C30: a decision about an identity always comes: with an environment of plain values, whatever
  the policy and the attributes are, the check stops without a panic and answers with the
  repository's error or with a yes or no, and a yes means that the policy evaluates to true in an
  environment that binds the subject's identifier to the identity the secure channel
  authenticated, even if the attributes try to bind it to something else.\<close>

theorem identity_decision:
  assumes "ground_env (environment ac)"
  shows "case abac_repository ac i of
           Inl e \<Rightarrow> is_identity_authorized ac i = Some (Inr (Inl e))
         | Inr entry \<Rightarrow>
             (\<exists>b. is_identity_authorized ac i = Some (Inr (Inr b))
                  \<and> (b \<longleftrightarrow> eval (expression ac) (subject_environment (environment ac) entry i)
                               = Some (Inr (Inr (EBool True)))))
             \<and> bt_get (subject_environment (environment ac) entry i) ''subject.identifier'' = Some (EStr i)"
proof (cases "abac_repository ac i")
  case (Inr entry)
  let ?env = "subject_environment (environment ac) entry i"
  obtain r where r: "eval (expression ac) ?env = Some (Inr r)"
    using eval_ground [OF ground_subject_environment [OF assms]] by blast
  then have "\<exists>b. is_identity_authorized ac i = Some (Inr (Inr b))
      \<and> (b \<longleftrightarrow> eval (expression ac) ?env = Some (Inr (Inr (EBool True))))"
    using Inr by (auto simp: is_identity_authorized_def split: sum.split Expr.split)
  with Inr subject_identifier show ?thesis by simp
qed (simp add: is_identity_authorized_def)

theorem identity_decision_witness:
  "let entry = \<lparr>ae_attrs = [(''identifier'', ''Pmallory'')], ae_added = 0, ae_expires = None, ae_attested_by = None\<rparr>;
       ac = AbacAccessControl_new (\<lambda>_. Inr (Some entry))
              (EList [EIdent ''='', EIdent ''subject.identifier'', EStr ''Palice'']) Env_new
   in bt_get (subject_environment Env_new (Some entry) ''Palice'') ''subject.identifier''
        = Some (EStr ''Palice'')
      \<and> (\<exists>b. is_identity_authorized ac ''Palice'' = Some (Inr (Inr b)))"
proof -
  let ?entry = "\<lparr>ae_attrs = [(''identifier'', ''Pmallory'')], ae_added = 0, ae_expires = None, ae_attested_by = None\<rparr>"
  let ?ac = "AbacAccessControl_new (\<lambda>_. Inr (Some ?entry))
      (EList [EIdent ''='', EIdent ''subject.identifier'', EStr ''Palice'']) Env_new"
  have "ground_env (environment ?ac)"
    by (simp add: ground_env_def AbacAccessControl_new_def Env_new_def)
  note d = identity_decision [OF this, of "''Palice''"]
  show ?thesis unfolding Let_def using d by (auto simp: AbacAccessControl_new_def)
qed

subsection \<open>Requiring an attribute\<close>

abbreviation subject_key :: "string \<Rightarrow> string" where
  "subject_key name \<equiv> ''subject.'' @ name"

lemma put_attribute_other:
  "key \<noteq> name \<Longrightarrow> bt_get (put_attribute env (key, val)) (subject_key name) = bt_get env (subject_key name)"
  by (simp add: put_attribute_def Env_put_def bt_get_insert split: option.split)

lemma put_attribute_contains:
  "\<not> prefix ''subject.'' name \<Longrightarrow> Env_contains (put_attribute env kv) name = Env_contains env name"
  by (cases kv) (auto simp: put_attribute_def Env_put_def Env_contains_def bt_contains_key_iff
      bt_get_insert split: option.split)

lemma fold_put_attribute:
  assumes "\<not> prefix ''subject.'' name" "distinct (map fst kvs)" "\<not> Env_contains env name"
  shows "bt_get (fold (\<lambda>kv env'. put_attribute env' kv) kvs env) (subject_key name) =
    (case map_of kvs name of
       Some v \<Rightarrow> if utf8_valid v then Some (EStr v) else bt_get env (subject_key name)
     | None \<Rightarrow> bt_get env (subject_key name))"
  using assms(2,3)
proof (induction kvs arbitrary: env)
  case (Cons kv kvs)
  obtain key val where kv: "kv = (key, val)" by force
  have env': "\<not> Env_contains (put_attribute env kv) name"
    using Cons.prems(2) put_attribute_contains [OF assms(1)] by simp
  note IH = Cons.IH [OF _ env']
  show ?case
  proof (cases "key = name")
    case True
    then have "map_of kvs name = None"
      using Cons.prems(1) kv by (simp add: map_of_eq_None_iff)
    with True kv IH Cons.prems show ?thesis
      by (simp add: put_attribute_def from_utf8_def Env_put_def bt_get_insert)
  next
    case False
    with kv IH Cons.prems show ?thesis
      by (simp add: put_attribute_other del: append_Cons append_Nil split: option.split)
  qed
qed simp

lemma eval_equality:
  assumes "bt_get env k = (case v of None \<Rightarrow> None | Some s \<Rightarrow> Some (EStr s))"
  shows "eval (EList [EIdent ''='', EIdent k, EStr val]) env
           = Some (Inr (case v of None \<Rightarrow> Inl (Unbound k) | Some s \<Rightarrow> Inr (EBool (s = val))))"
proof -
  have "eval_den 1 env (EList [EIdent ''='', EIdent k, EStr val])
      = Some (case v of None \<Rightarrow> Inl (Unbound k) | Some s \<Rightarrow> Inr (EBool (s = val)))"
    using assms by (cases v) (auto simp: Env_get_def bind_outcome_def arity_error_def
        apply_strict_def chain_value_def equals_def)
  then show ?thesis by (rule eval_den_machine)
qed

text \<open>an access control made for one attribute lets in exactly the identities the repository
  holds that attribute with that value for: for every attribute name other than the reserved
  \<open>identifier\<close> (and not itself starting with \<open>subject.\<close>), whatever other attributes there are.\<close>

theorem attribute_access_control:
  assumes "repo i = Inr (Some entry)" "bt_wf (ae_attrs entry)"
    and "name \<noteq> ''identifier''" "\<not> prefix ''subject.'' name" "utf8_valid val"
  shows "is_identity_authorized (AbacAccessControl_create repo name val) i
           = Some (Inr (Inr (bt_get (ae_attrs entry) name = Some val)))"
proof -
  let ?env = "subject_environment Env_new (Some entry) i"
  have d: "distinct (map fst (ae_attrs entry))" using assms(2) by (rule bt_wf_distinct)
  have "bt_get ?env (subject_key name) = bt_get (fold (\<lambda>kv env'. put_attribute env' kv)
      (ae_attrs entry) Env_new) (subject_key name)"
    using assms(3) by (simp add: subject_environment_def Env_put_def bt_get_insert Let_def)
  also have "\<dots> = (case (case bt_get (ae_attrs entry) name of Some v \<Rightarrow> if utf8_valid v then Some v else None
      | None \<Rightarrow> None) of None \<Rightarrow> None | Some s \<Rightarrow> Some (EStr s))"
    using fold_put_attribute [OF assms(4) d, of Env_new]
    by (simp add: Env_contains_def Env_new_def bt_contains_key_def bt_get_def split: option.split)
  finally have "eval (EList [EIdent ''='', EIdent (subject_key name), EStr val]) ?env
      = Some (Inr (case (case bt_get (ae_attrs entry) name of Some v \<Rightarrow> if utf8_valid v then Some v else None
          | None \<Rightarrow> None) of None \<Rightarrow> Inl (Unbound (subject_key name)) | Some s \<Rightarrow> Inr (EBool (s = val))))"
    by (rule eval_equality)
  then show ?thesis
    using assms(1,5) unfolding is_identity_authorized_def AbacAccessControl_create_def AbacAccessControl_new_def
    by (auto split: option.split)
qed

theorem attribute_access_control_witness:
  "let entry = \<lparr>ae_attrs = [(''role'', ''admin'')], ae_added = 0, ae_expires = None, ae_attested_by = None\<rparr>
   in is_identity_authorized (AbacAccessControl_create (\<lambda>_. Inr (Some entry)) ''role'' ''admin'') ''P1''
        = Some (Inr (Inr True))
      \<and> is_identity_authorized (AbacAccessControl_create (\<lambda>_. Inr (Some entry)) ''role'' ''user'') ''P1''
        = Some (Inr (Inr False))"
  unfolding Let_def
  by (simp add: attribute_access_control [where entry = "\<lparr>ae_attrs = [(''role'', ''admin'')], ae_added = 0,
        ae_expires = None, ae_attested_by = None\<rparr>"] bt_wf_def bt_get_def in_range_def)

end
