(* ===== verification/Vault.thy ===== *)
theory Vault
  imports BTree Error_Code State_Exec
begin

text \<open>
  The vault (\<open>ockam_vault/src\<close>): secrets with their attributes, the in-memory stores of ephemeral
  and persistent secrets, symmetric encryption, Diffie-Hellman, key derivation and signatures, as
  \<open>Vault::builder\<close> assembles them by default.

  The algorithms themselves come from third-party crates and are the fields of a record
  \<open>Crypto\<close> the operations take.  The random generator of a vault is the stream \<open>rng\<close>; every
  draw advances \<open>draws\<close>.  A refused array conversion or slice is a panic.
\<close>

subsection \<open>Secrets\<close>

type_synonym KeyId = string
type_synonym Secret = bytes

datatype SecretAttributes = Buffer u32 | Aes128 | Aes256 | Ed25519 | X25519 | NistP256

datatype SecretType = BufferType | AesType | X25519Type | Ed25519Type | NistP256Type

fun secret_type :: "SecretAttributes \<Rightarrow> SecretType" where
  "secret_type (Buffer _) = BufferType"
| "secret_type Aes128 = AesType"
| "secret_type Aes256 = AesType"
| "secret_type Ed25519 = Ed25519Type"
| "secret_type X25519 = X25519Type"
| "secret_type NistP256 = NistP256Type"

definition CURVE25519_SECRET_LENGTH_U32 :: u32 where "CURVE25519_SECRET_LENGTH_U32 = 32"
definition CURVE25519_PUBLIC_LENGTH_USIZE :: nat where "CURVE25519_PUBLIC_LENGTH_USIZE = 32"
definition AES256_SECRET_LENGTH_U32 :: u32 where "AES256_SECRET_LENGTH_U32 = 32"
definition AES128_SECRET_LENGTH_U32 :: u32 where "AES128_SECRET_LENGTH_U32 = 16"
definition NISTP256_SECRET_LENGTH_U32 :: u32 where "NISTP256_SECRET_LENGTH_U32 = 32"

lemmas vault_constants =
  CURVE25519_SECRET_LENGTH_U32_def CURVE25519_PUBLIC_LENGTH_USIZE_def AES256_SECRET_LENGTH_U32_def
  AES128_SECRET_LENGTH_U32_def NISTP256_SECRET_LENGTH_U32_def

fun attributes_length :: "SecretAttributes \<Rightarrow> u32" where
  "attributes_length (Buffer s) = s"
| "attributes_length Aes128 = AES128_SECRET_LENGTH_U32"
| "attributes_length Aes256 = AES256_SECRET_LENGTH_U32"
| "attributes_length Ed25519 = CURVE25519_SECRET_LENGTH_U32"
| "attributes_length X25519 = CURVE25519_SECRET_LENGTH_U32"
| "attributes_length NistP256 = NISTP256_SECRET_LENGTH_U32"

subsection \<open>Errors\<close>

text \<open>The message of \<open>EntryNotFound\<close> is diagnostic text and is left out.\<close>

datatype VaultError =
    SecretFromAnotherVault | InvalidPublicKey | UnknownEcdhKeyType | InvalidKeyType
  | EntryNotFound | InvalidAesKeyLength | InvalidSecretLength SecretType nat u32
  | InvalidHkdfOutputType | InvalidPrivateKeyLen | AeadAesGcmEncrypt | AeadAesGcmDecrypt
  | HkdfExpandError | SecretNotFound | InvalidX25519SecretLength | InvalidEd25519Secret
  | InvalidSecretAttributes | StorageError | InvalidStorageData

definition vault_error :: "VaultError \<Rightarrow> error" where
  "vault_error err = ErrorCode_new OriginVault
     (if err \<in> {SecretFromAnotherVault, InvalidPublicKey, InvalidKeyType, InvalidAesKeyLength,
                InvalidHkdfOutputType, InvalidPrivateKeyLen, InvalidX25519SecretLength}
      then KindMisuse
      else if err \<in> {UnknownEcdhKeyType, EntryNotFound, SecretNotFound} then KindNotFound
      else KindInvalid)"

text \<open>\<open>from_ecdsa\<close>, \<open>from_pkcs8\<close> and \<open>from_ecurve\<close> give the same code.\<close>

definition backend_error :: error where
  "backend_error = ErrorCode_new OriginVault KindUnknown"

subsection \<open>Stored secrets\<close>

record StoredSecret =
  secret :: Secret
  attributes :: SecretAttributes

definition StoredSecret_check :: "Secret \<Rightarrow> SecretAttributes \<Rightarrow> error + unit" where
  "StoredSecret_check s att =
     (if length s < unat (attributes_length att)
      then Inl (vault_error (InvalidSecretLength (secret_type att) (length s) (attributes_length att)))
      else Inr ())"

definition StoredSecret_create :: "Secret \<Rightarrow> SecretAttributes \<Rightarrow> error + StoredSecret" where
  "StoredSecret_create s att =
     result_map (\<lambda>_. \<lparr>secret = s, attributes = att\<rparr>) (StoredSecret_check s att)"

record PublicKey =
  data :: bytes
  stype :: SecretType

definition PublicKey_new :: "bytes \<Rightarrow> SecretType \<Rightarrow> PublicKey" where
  "PublicKey_new d t = \<lparr>data = d, stype = t\<rparr>"

subsection \<open>Third-party algorithms\<close>

record Crypto =
  hex_encode :: "bytes \<Rightarrow> string"
  sha256_digest :: "bytes \<Rightarrow> bytes"
  aes128_gcm_encrypt :: "bytes \<Rightarrow> bytes \<Rightarrow> bytes \<Rightarrow> bytes \<Rightarrow> bytes option"
  aes128_gcm_decrypt :: "bytes \<Rightarrow> bytes \<Rightarrow> bytes \<Rightarrow> bytes \<Rightarrow> bytes option"
  aes256_gcm_encrypt :: "bytes \<Rightarrow> bytes \<Rightarrow> bytes \<Rightarrow> bytes \<Rightarrow> bytes option"
  aes256_gcm_decrypt :: "bytes \<Rightarrow> bytes \<Rightarrow> bytes \<Rightarrow> bytes \<Rightarrow> bytes option"
  x25519_public_key :: "bytes \<Rightarrow> bytes"
  x25519_diffie_hellman :: "bytes \<Rightarrow> bytes \<Rightarrow> bytes"
  hkdf_sha256_expand :: "bytes \<Rightarrow> bytes \<Rightarrow> bytes \<Rightarrow> nat \<Rightarrow> bytes option"
  ed25519_verifying_key :: "bytes \<Rightarrow> bytes"
  ed25519_sign :: "bytes \<Rightarrow> bytes \<Rightarrow> bytes"
  ed25519_accepts_key :: "bytes \<Rightarrow> bool"
  ed25519_verify :: "bytes \<Rightarrow> bytes \<Rightarrow> bytes \<Rightarrow> bool"
  p256_random_pkcs8 :: "nat \<Rightarrow> bytes option"
  p256_public_der :: "bytes \<Rightarrow> bytes option"
  p256_sign :: "bytes \<Rightarrow> bytes \<Rightarrow> bytes option"
  p256_accepts_key :: "bytes \<Rightarrow> bool"
  p256_accepts_signature :: "bytes \<Rightarrow> bool"
  p256_verify :: "bytes \<Rightarrow> bytes \<Rightarrow> bytes \<Rightarrow> bool"

subsection \<open>The vault\<close>

type_synonym secret_storage = "(KeyId, StoredSecret) btree_map"

record Vault =
  ephemeral_secrets :: secret_storage
  persistent_secrets :: secret_storage
  rng :: "nat \<Rightarrow> nat \<Rightarrow> bytes"
  draws :: nat

type_synonym 'a vault_run = "(Vault, error, 'a) state_exec"

definition fill_bytes :: "nat \<Rightarrow> bytes vault_run" where
  "fill_bytes n v = run_ok (rng v (draws v) n) (v\<lparr>draws := Suc (draws v)\<rparr>)"

text \<open>\<open>array_ref![bytes, 0, n]\<close>.\<close>

definition array_ref :: "bytes \<Rightarrow> nat \<Rightarrow> bytes vault_run" where
  "array_ref b n = (if length b < n then run_panic ''range end index out of range'' else run_ok (take n b))"

text \<open>\<open>InMemoryKeyValueStorage\<close>.\<close>

definition storage_put :: "KeyId \<Rightarrow> StoredSecret \<Rightarrow> secret_storage \<Rightarrow> secret_storage" where
  "storage_put k s m = bt_insert k s m"

definition storage_get :: "secret_storage \<Rightarrow> KeyId \<Rightarrow> StoredSecret option" where
  "storage_get m k = bt_get m k"

definition storage_delete :: "KeyId \<Rightarrow> secret_storage \<Rightarrow> StoredSecret option \<times> secret_storage" where
  "storage_delete k m = (bt_get m k, bt_remove k m)"

definition storage_keys :: "secret_storage \<Rightarrow> KeyId list" where
  "storage_keys m = bt_keys m"

lemmas storage_defs = storage_put_def storage_get_def storage_delete_def storage_keys_def

subsection \<open>The security module\<close>

definition create_secret_from_attributes :: "Crypto \<Rightarrow> SecretAttributes \<Rightarrow> Secret vault_run" where
  "create_secret_from_attributes c att = (case secret_type att of
     NistP256Type \<Rightarrow> (\<lambda>v. run_result (ok_or (p256_random_pkcs8 c (draws v)) backend_error)
                            (v\<lparr>draws := Suc (draws v)\<rparr>))
   | _ \<Rightarrow> fill_bytes (unat (attributes_length att)))"

definition p256_public_key :: "Crypto \<Rightarrow> bytes \<Rightarrow> error + PublicKey" where
  "p256_public_key c s =
     result_map (\<lambda>d. PublicKey_new d NistP256Type) (ok_or (p256_public_der c s) backend_error)"

definition compute_public_key_from_secret :: "Crypto \<Rightarrow> StoredSecret \<Rightarrow> PublicKey vault_run" where
  "compute_public_key_from_secret c s = (case secret_type (attributes s) of
     X25519Type \<Rightarrow> run_bind (array_ref (secret s) (unat CURVE25519_SECRET_LENGTH_U32))
       (\<lambda>sk. run_ok (PublicKey_new (x25519_public_key c sk) X25519Type))
   | Ed25519Type \<Rightarrow> run_bind (array_ref (secret s) 32)
       (\<lambda>sk. run_ok (PublicKey_new (ed25519_verifying_key c sk) Ed25519Type))
   | NistP256Type \<Rightarrow> run_result (p256_public_key c (secret s))
   | _ \<Rightarrow> run_err (vault_error InvalidKeyType))"

definition compute_key_id_for_public_key :: "Crypto \<Rightarrow> PublicKey \<Rightarrow> KeyId" where
  "compute_key_id_for_public_key c p = hex_encode c (sha256_digest c (data p))"

definition compute_key_id :: "Crypto \<Rightarrow> Secret \<Rightarrow> SecretAttributes \<Rightarrow> KeyId vault_run" where
  "compute_key_id c s att = (case secret_type att of
     X25519Type \<Rightarrow> run_bind (array_ref s (unat CURVE25519_SECRET_LENGTH_U32)) (\<lambda>sk.
       run_ok (compute_key_id_for_public_key c (PublicKey_new (x25519_public_key c sk) X25519Type)))
   | Ed25519Type \<Rightarrow> run_bind (array_ref s 32) (\<lambda>sk.
       run_ok (compute_key_id_for_public_key c (PublicKey_new (ed25519_verifying_key c sk) Ed25519Type)))
   | NistP256Type \<Rightarrow> run_bind (run_result (p256_public_key c s)) (\<lambda>pk.
       run_ok (compute_key_id_for_public_key c pk))
   | _ \<Rightarrow> run_bind (fill_bytes 8) (\<lambda>rand. run_ok (hex_encode c rand)))"

definition sign_with_secret :: "Crypto \<Rightarrow> StoredSecret \<Rightarrow> bytes \<Rightarrow> bytes vault_run" where
  "sign_with_secret c s msg = (case secret_type (attributes s) of
     Ed25519Type \<Rightarrow> run_bind (array_ref (secret s) 32) (\<lambda>sk. run_ok (ed25519_sign c sk msg))
   | NistP256Type \<Rightarrow> run_result (ok_or (p256_sign c (secret s) msg) backend_error)
   | _ \<Rightarrow> run_err (vault_error InvalidKeyType))"

definition get_secret :: "KeyId \<Rightarrow> StoredSecret vault_run" where
  "get_secret k v =
     run_result (ok_or (storage_get (persistent_secrets v) k) (vault_error EntryNotFound)) v"

definition create_secret :: "Crypto \<Rightarrow> SecretAttributes \<Rightarrow> KeyId vault_run" where
  "create_secret c att =
     run_bind (create_secret_from_attributes c att) (\<lambda>s.
     run_bind (run_result (StoredSecret_create s att)) (\<lambda>stored.
     run_bind (compute_key_id c s att) (\<lambda>key_id v.
     run_ok key_id (v\<lparr>persistent_secrets := storage_put key_id stored (persistent_secrets v)\<rparr>))))"

definition module_get_public_key :: "Crypto \<Rightarrow> KeyId \<Rightarrow> PublicKey vault_run" where
  "module_get_public_key c k = run_bind (get_secret k) (compute_public_key_from_secret c)"

definition get_attributes :: "KeyId \<Rightarrow> SecretAttributes vault_run" where
  "get_attributes k = run_bind (get_secret k) (\<lambda>s. run_ok (attributes s))"

definition get_key_id :: "Crypto \<Rightarrow> PublicKey \<Rightarrow> KeyId vault_run" where
  "get_key_id c p = run_ok (hex_encode c (sha256_digest c (data p)))"

definition delete_secret :: "KeyId \<Rightarrow> bool vault_run" where
  "delete_secret k v =
     (let (r, m) = storage_delete k (persistent_secrets v)
      in run_ok (r \<noteq> None) (v\<lparr>persistent_secrets := m\<rparr>))"

definition verify :: "Crypto \<Rightarrow> PublicKey \<Rightarrow> bytes \<Rightarrow> bytes \<Rightarrow> bool vault_run" where
  "verify c pk msg sig = (case stype pk of
     Ed25519Type \<Rightarrow>
       if length (data pk) \<noteq> CURVE25519_PUBLIC_LENGTH_USIZE \<or> length sig \<noteq> 64
          \<or> \<not> ed25519_accepts_key c (data pk)
       then run_err (vault_error InvalidPublicKey)
       else run_ok (ed25519_verify c (data pk) msg sig)
   | NistP256Type \<Rightarrow>
       if \<not> p256_accepts_key c (data pk) \<or> \<not> p256_accepts_signature c sig
       then run_err backend_error
       else run_ok (p256_verify c (data pk) msg sig)
   | _ \<Rightarrow> run_err (vault_error InvalidPublicKey))"

definition module_sign :: "Crypto \<Rightarrow> KeyId \<Rightarrow> bytes \<Rightarrow> bytes vault_run" where
  "module_sign c k msg = run_bind (get_secret k) (\<lambda>s. sign_with_secret c s msg)"

subsection \<open>The secrets store\<close>

definition import_ephemeral_secret :: "Crypto \<Rightarrow> Secret \<Rightarrow> SecretAttributes \<Rightarrow> KeyId vault_run" where
  "import_ephemeral_secret c s att =
     run_bind (compute_key_id c s att) (\<lambda>key_id.
     run_bind (run_result (StoredSecret_create s att)) (\<lambda>stored v.
     run_ok key_id (v\<lparr>ephemeral_secrets := storage_put key_id stored (ephemeral_secrets v)\<rparr>)))"

definition create_ephemeral_secret :: "Crypto \<Rightarrow> SecretAttributes \<Rightarrow> KeyId vault_run" where
  "create_ephemeral_secret c att =
     run_bind (create_secret_from_attributes c att) (\<lambda>s. import_ephemeral_secret c s att)"

definition get_ephemeral_secret :: "KeyId \<Rightarrow> StoredSecret vault_run" where
  "get_ephemeral_secret k v =
     run_result (ok_or (storage_get (ephemeral_secrets v) k) (vault_error EntryNotFound)) v"

definition delete_ephemeral_secret :: "KeyId \<Rightarrow> bool vault_run" where
  "delete_ephemeral_secret k v =
     (let (r, m) = storage_delete k (ephemeral_secrets v)
      in run_ok (r \<noteq> None) (v\<lparr>ephemeral_secrets := m\<rparr>))"

definition list_ephemeral_secrets :: "KeyId list vault_run" where
  "list_ephemeral_secrets v = run_ok (storage_keys (ephemeral_secrets v)) v"

definition create_persistent_secret :: "Crypto \<Rightarrow> SecretAttributes \<Rightarrow> KeyId vault_run" where
  "create_persistent_secret c att = create_secret c att"

definition delete_persistent_secret :: "KeyId \<Rightarrow> bool vault_run" where
  "delete_persistent_secret k = delete_secret k"

definition get_secret_attributes :: "KeyId \<Rightarrow> SecretAttributes vault_run" where
  "get_secret_attributes k v = (case storage_get (ephemeral_secrets v) k of
     Some s \<Rightarrow> run_ok (attributes s) v
   | None \<Rightarrow> get_attributes k v)"

definition get_public_key :: "Crypto \<Rightarrow> KeyId \<Rightarrow> PublicKey vault_run" where
  "get_public_key c k v = (case storage_get (ephemeral_secrets v) k of
     Some s \<Rightarrow> compute_public_key_from_secret c s v
   | None \<Rightarrow> module_get_public_key c k v)"

definition sign :: "Crypto \<Rightarrow> KeyId \<Rightarrow> bytes \<Rightarrow> bytes vault_run" where
  "sign c k msg =
     run_bind (run_try (get_ephemeral_secret k)) (\<lambda>r. case r of
       Inr s \<Rightarrow> sign_with_secret c s msg
     | Inl _ \<Rightarrow> module_sign c k msg)"

subsection \<open>Symmetric encryption\<close>

datatype AesGen = GenAes128 bytes | GenAes256 bytes

text \<open>The conversion of a slice to a fixed-size array panics on another length.\<close>

definition exact_array :: "bytes \<Rightarrow> nat \<Rightarrow> bytes vault_run" where
  "exact_array b n = (if length b \<noteq> n then run_panic ''assertion failed: slice length'' else run_ok b)"

definition make_aes :: "StoredSecret \<Rightarrow> AesGen vault_run" where
  "make_aes s = (case attributes s of
     Aes256 \<Rightarrow> run_bind (exact_array (secret s) 32) (\<lambda>k. run_ok (GenAes256 k))
   | Aes128 \<Rightarrow> run_bind (exact_array (secret s) 16) (\<lambda>k. run_ok (GenAes128 k))
   | _ \<Rightarrow> run_err (vault_error AeadAesGcmEncrypt))"

definition encrypt_message :: "Crypto \<Rightarrow> AesGen \<Rightarrow> bytes \<Rightarrow> bytes \<Rightarrow> bytes \<Rightarrow> bytes vault_run" where
  "encrypt_message c aes msg nonce aad =
     run_bind (exact_array nonce 12) (\<lambda>n.
     run_result (ok_or (case aes of
         GenAes128 k \<Rightarrow> aes128_gcm_encrypt c k n aad msg
       | GenAes256 k \<Rightarrow> aes256_gcm_encrypt c k n aad msg) (vault_error AeadAesGcmEncrypt)))"

definition decrypt_message :: "Crypto \<Rightarrow> AesGen \<Rightarrow> bytes \<Rightarrow> bytes \<Rightarrow> bytes \<Rightarrow> bytes vault_run" where
  "decrypt_message c aes msg nonce aad =
     run_bind (exact_array nonce 12) (\<lambda>n.
     run_result (ok_or (case aes of
         GenAes128 k \<Rightarrow> aes128_gcm_decrypt c k n aad msg
       | GenAes256 k \<Rightarrow> aes256_gcm_decrypt c k n aad msg) (vault_error AeadAesGcmDecrypt)))"

definition aead_aes_gcm_encrypt :: "Crypto \<Rightarrow> KeyId \<Rightarrow> bytes \<Rightarrow> bytes \<Rightarrow> bytes \<Rightarrow> bytes vault_run" where
  "aead_aes_gcm_encrypt c k msg nonce aad =
     run_bind (get_ephemeral_secret k) (\<lambda>s.
     run_bind (make_aes s) (\<lambda>aes. encrypt_message c aes msg nonce aad))"

definition aead_aes_gcm_decrypt :: "Crypto \<Rightarrow> KeyId \<Rightarrow> bytes \<Rightarrow> bytes \<Rightarrow> bytes \<Rightarrow> bytes vault_run" where
  "aead_aes_gcm_decrypt c k msg nonce aad =
     run_bind (get_ephemeral_secret k) (\<lambda>s.
     run_bind (make_aes s) (\<lambda>aes. decrypt_message c aes msg nonce aad))"

subsection \<open>Key agreement and derivation\<close>

definition ecdh_internal :: "Crypto \<Rightarrow> StoredSecret \<Rightarrow> PublicKey \<Rightarrow> bytes vault_run" where
  "ecdh_internal c s peer = (case secret_type (attributes s) of
     X25519Type \<Rightarrow>
       if length (data peer) \<noteq> unat (attributes_length (attributes s))
       then run_err (vault_error UnknownEcdhKeyType)
       else run_bind (array_ref (secret s) (unat CURVE25519_SECRET_LENGTH_U32)) (\<lambda>sk.
            run_bind (array_ref (data peer) (unat CURVE25519_SECRET_LENGTH_U32)) (\<lambda>pk.
            run_ok (x25519_diffie_hellman c sk pk)))
   | _ \<Rightarrow> run_err (vault_error UnknownEcdhKeyType))"

definition ec_diffie_hellman :: "Crypto \<Rightarrow> KeyId \<Rightarrow> PublicKey \<Rightarrow> KeyId vault_run" where
  "ec_diffie_hellman c k peer =
     run_bind (get_ephemeral_secret k) (\<lambda>s.
     run_bind (ecdh_internal c s peer) (\<lambda>dh.
     import_ephemeral_secret c dh (Buffer (word_of_nat (length dh)))))"

text \<open>The loop over the output attributes: the secret of each is the next 32 bytes of the key
  material, cut to its length.\<close>

fun import_outputs :: "Crypto \<Rightarrow> bytes \<Rightarrow> nat \<Rightarrow> SecretAttributes list \<Rightarrow> KeyId list vault_run" where
  "import_outputs c okm index [] = run_ok []"
| "import_outputs c okm index (att # atts) =
     (if secret_type att \<notin> {BufferType, AesType} then run_err (vault_error InvalidHkdfOutputType)
      else if length okm < index + unat (attributes_length att)
        then run_panic ''range end index out of range''
      else run_bind (import_ephemeral_secret c
             (take (unat (attributes_length att)) (drop index okm)) att) (\<lambda>k.
           run_bind (import_outputs c okm (index + 32) atts) (\<lambda>ks. run_ok (k # ks))))"

definition hkdf_ikm :: "KeyId option \<Rightarrow> (error + bytes) vault_run" where
  "hkdf_ikm ikm = (case ikm of
     None \<Rightarrow> run_ok (Inr [])
   | Some k \<Rightarrow> run_bind (get_ephemeral_secret k) (\<lambda>s. run_ok
       (if secret_type (attributes s) = BufferType then Inr (secret s)
        else Inl (vault_error InvalidKeyType))))"

definition hkdf_sha256 ::
  "Crypto \<Rightarrow> KeyId \<Rightarrow> bytes \<Rightarrow> KeyId option \<Rightarrow> SecretAttributes list \<Rightarrow> KeyId list vault_run" where
  "hkdf_sha256 c salt info ikm output_attributes =
     run_bind (hkdf_ikm ikm) (\<lambda>ikm_result.
     run_bind (get_ephemeral_secret salt) (\<lambda>stored.
     if secret_type (attributes stored) \<noteq> BufferType then run_err (vault_error InvalidKeyType)
     else run_bind (run_result ikm_result) (\<lambda>key.
          run_bind (run_result (ok_or
            (hkdf_sha256_expand c (secret stored) key info (length output_attributes * 32))
            (vault_error HkdfExpandError))) (\<lambda>okm.
          import_outputs c okm 0 output_attributes))))"

definition Vault_sha256 :: "Crypto \<Rightarrow> bytes \<Rightarrow> bytes vault_run" where
  "Vault_sha256 c d = array_ref (sha256_digest c d) 32"

definition Vault_new :: "(nat \<Rightarrow> nat \<Rightarrow> bytes) \<Rightarrow> Vault" where
  "Vault_new random = \<lparr>ephemeral_secrets = [], persistent_secrets = [], rng = random, draws = 0\<rparr>"

end
