(* ===== verification/Identities_Vault.thy ===== *)
theory Identities_Vault
  imports Vault
begin

text \<open>
  The vault as the secure channels see it
  (\<open>ockam_identity/src/identities/identities_vault.rs\<close>): the trait objects \<open>XXInitializedVault\<close>
  and \<open>XXVault\<close> as records of operations, built from a vault by \<open>to_xx_initialized\<close> and
  \<open>to_xx_vault\<close>.

  The locale \<open>symmetric_vault\<close> states what the channels rely on after the key exchange, and
  \<open>agreement_vault\<close> what the key exchange needs on top.  Both are interpreted on the vault of
  \<open>ockam_vault\<close> under the documented behaviour of the algorithms (\<open>crypto_lawful\<close>) and distinct
  random key identifiers (\<open>ids_fresh\<close>).
\<close>

subsection \<open>Trait objects\<close>

record 'v XXInitializedVault =
  xx_import :: "Secret \<Rightarrow> SecretAttributes \<Rightarrow> ('v, error, KeyId) state_exec"
  xx_delete :: "KeyId \<Rightarrow> ('v, error, bool) state_exec"
  xx_attributes :: "KeyId \<Rightarrow> ('v, error, SecretAttributes) state_exec"
  xx_encrypt :: "KeyId \<Rightarrow> bytes \<Rightarrow> bytes \<Rightarrow> bytes \<Rightarrow> ('v, error, bytes) state_exec"
  xx_decrypt :: "KeyId \<Rightarrow> bytes \<Rightarrow> bytes \<Rightarrow> bytes \<Rightarrow> ('v, error, bytes) state_exec"

record 'v XXVault = "'v XXInitializedVault" +
  xx_create :: "SecretAttributes \<Rightarrow> ('v, error, KeyId) state_exec"
  xx_public_key :: "KeyId \<Rightarrow> ('v, error, PublicKey) state_exec"
  xx_diffie_hellman :: "KeyId \<Rightarrow> PublicKey \<Rightarrow> ('v, error, KeyId) state_exec"
  xx_hkdf :: "KeyId \<Rightarrow> bytes \<Rightarrow> KeyId option \<Rightarrow> SecretAttributes list \<Rightarrow> ('v, error, KeyId list) state_exec"

definition to_xx_initialized :: "Crypto \<Rightarrow> Vault XXInitializedVault" where
  "to_xx_initialized c =
     \<lparr>xx_import = import_ephemeral_secret c, xx_delete = delete_ephemeral_secret,
      xx_attributes = get_secret_attributes, xx_encrypt = aead_aes_gcm_encrypt c,
      xx_decrypt = aead_aes_gcm_decrypt c\<rparr>"

definition to_xx_vault :: "Crypto \<Rightarrow> Vault XXVault" where
  "to_xx_vault c =
     \<lparr>xx_import = import_ephemeral_secret c, xx_delete = delete_ephemeral_secret,
      xx_attributes = get_secret_attributes, xx_encrypt = aead_aes_gcm_encrypt c,
      xx_decrypt = aead_aes_gcm_decrypt c, xx_create = create_ephemeral_secret c,
      xx_public_key = get_public_key c, xx_diffie_hellman = ec_diffie_hellman c,
      xx_hkdf = hkdf_sha256 c\<rparr>"

subsection \<open>What the channels rely on\<close>

definition max_plaintext :: nat where
  "max_plaintext = 2 ^ 36"

text \<open>The second argument of \<open>good\<close> is a vault for which as many new key identifiers as the first
  argument says will be distinct from each other and from those in use.\<close>

locale symmetric_vault =
  fixes ops :: "('v, 'x) XXInitializedVault_scheme"
    and look :: "'v \<Rightarrow> KeyId \<Rightarrow> StoredSecret option"
    and good :: "nat \<Rightarrow> 'v \<Rightarrow> bool"
    and seal unseal :: "bytes \<Rightarrow> bytes \<Rightarrow> bytes \<Rightarrow> bytes \<Rightarrow> bytes option"
  assumes good_less: "good (Suc b) v \<Longrightarrow> good b v"
    and import_law: "good (Suc b) v \<Longrightarrow> secret_type att \<in> {BufferType, AesType} \<Longrightarrow>
      unat (attributes_length att) \<le> length s \<Longrightarrow>
      \<exists>k v'. xx_import ops s att v = Inr (Inr k, v') \<and> good b v' \<and> look v k = None
        \<and> look v' = (look v)(k \<mapsto> \<lparr>secret = s, attributes = att\<rparr>)"
    and delete_law: "good b v \<Longrightarrow> \<exists>v'. xx_delete ops k v = Inr (Inr (look v k \<noteq> None), v') \<and> good b v'
        \<and> look v' = (look v)(k := None)"
    and attributes_law: "look v k = Some st \<Longrightarrow> xx_attributes ops k v = Inr (Inr (attributes st), v)"
    and encrypt_law: "good b v \<Longrightarrow> look v k = Some \<lparr>secret = s, attributes = Aes256\<rparr> \<Longrightarrow> length s = 32 \<Longrightarrow>
      length n = 12 \<Longrightarrow>
      xx_encrypt ops k m n a v = Inr (ok_or (seal s n a m) (vault_error AeadAesGcmEncrypt), v)"
    and decrypt_law: "good b v \<Longrightarrow> look v k = Some \<lparr>secret = s, attributes = Aes256\<rparr> \<Longrightarrow> length s = 32 \<Longrightarrow>
      length n = 12 \<Longrightarrow>
      xx_decrypt ops k m n a v = Inr (ok_or (unseal s n a m) (vault_error AeadAesGcmDecrypt), v)"
    and seal_law: "good b v \<Longrightarrow> length s = 32 \<Longrightarrow> length n = 12 \<Longrightarrow> length m \<le> max_plaintext \<Longrightarrow>
      \<exists>c. seal s n a m = Some c \<and> length c = length m + 16"
    and unseal_law: "good b v \<Longrightarrow> length s = 32 \<Longrightarrow> length n = 12 \<Longrightarrow>
      unseal s n a c = Some m \<longleftrightarrow> seal s n a m = Some c"
begin

lemma import_obtain:
  assumes "good (Suc b) v" "secret_type att \<in> {BufferType, AesType}" "unat (attributes_length att) \<le> length s"
  obtains k v' where "xx_import ops s att v = Inr (Inr k, v')" "good b v'" "look v k = None"
    "look v' = (look v)(k \<mapsto> \<lparr>secret = s, attributes = att\<rparr>)"
  using import_law [OF assms] by blast

lemma delete_obtain:
  assumes "good b v"
  obtains v' where "xx_delete ops k v = Inr (Inr (look v k \<noteq> None), v')" "good b v'"
    "look v' = (look v)(k := None)"
  using delete_law [OF assms] by blast

lemma good_mono: "good b v \<Longrightarrow> b' \<le> b \<Longrightarrow> good b' v"
  by (induction b) (auto simp: le_Suc_eq dest: good_less)

end

locale agreement_vault = symmetric_vault ops look good seal unseal
  for ops :: "('v, 'x) XXVault_scheme" and look good seal unseal +
  fixes public :: "bytes \<Rightarrow> bytes"
    and agree :: "bytes \<Rightarrow> bytes \<Rightarrow> bytes"
    and derive :: "bytes \<Rightarrow> bytes \<Rightarrow> bytes"
  assumes create_law: "good (Suc b) v \<Longrightarrow> \<exists>k s v'. xx_create ops X25519 v = Inr (Inr k, v') \<and> good b v'
        \<and> length s = 32 \<and> look v' = (look v)(k \<mapsto> \<lparr>secret = s, attributes = X25519\<rparr>)"
    and public_law: "good b v \<Longrightarrow> look v k = Some \<lparr>secret = s, attributes = X25519\<rparr> \<Longrightarrow> length s = 32 \<Longrightarrow>
      xx_public_key ops k v = Inr (Inr \<lparr>data = public s, stype = X25519Type\<rparr>, v)"
    and public_length: "good b v \<Longrightarrow> length s = 32 \<Longrightarrow> length (public s) = 32"
    and agree_length: "good b v \<Longrightarrow> length s = 32 \<Longrightarrow> length p = 32 \<Longrightarrow> length (agree s p) = 32"
    and agree_commutes: "good b v \<Longrightarrow> length s = 32 \<Longrightarrow> length t = 32 \<Longrightarrow>
      agree s (public t) = agree t (public s)"
    and diffie_hellman_law: "good (Suc b) v \<Longrightarrow> look v k = Some \<lparr>secret = s, attributes = X25519\<rparr> \<Longrightarrow>
      length s = 32 \<Longrightarrow> length (data pk) = 32 \<Longrightarrow>
      \<exists>d v'. xx_diffie_hellman ops k pk v = Inr (Inr d, v') \<and> good b v' \<and> look v d = None
        \<and> look v' = (look v)(d \<mapsto> \<lparr>secret = agree s (data pk), attributes = Buffer 32\<rparr>)"
    and derive_length: "good b v \<Longrightarrow> length (derive s i) = 64"
    and hkdf_law: "good (Suc (Suc b)) v \<Longrightarrow> look v salt = Some \<lparr>secret = s, attributes = Buffer 32\<rparr> \<Longrightarrow>
      (case ikm of None \<Rightarrow> i = [] | Some k \<Rightarrow> look v k = Some \<lparr>secret = i, attributes = Buffer 32\<rparr>) \<Longrightarrow>
      a1 \<in> {Buffer 32, Aes256} \<Longrightarrow> a2 \<in> {Buffer 32, Aes256} \<Longrightarrow>
      \<exists>k1 k2 v'. xx_hkdf ops salt [] ikm [a1, a2] v = Inr (Inr [k1, k2], v') \<and> good b v'
        \<and> look v k1 = None \<and> look v k2 = None \<and> k1 \<noteq> k2
        \<and> look v' = (look v)(k1 \<mapsto> \<lparr>secret = take 32 (derive s i), attributes = a1\<rparr>,
                             k2 \<mapsto> \<lparr>secret = drop 32 (derive s i), attributes = a2\<rparr>)"

subsection \<open>The vault of \<open>ockam_vault\<close>\<close>

text \<open>The documented behaviour of the third-party algorithms.\<close>

definition aes256_lawful :: "Crypto \<Rightarrow> bool" where
  "aes256_lawful c \<longleftrightarrow> (\<forall>k n a m. length k = 32 \<longrightarrow> length n = 12 \<longrightarrow>
     (length m \<le> max_plaintext \<longrightarrow>
        (\<exists>ct. aes256_gcm_encrypt c k n a m = Some ct \<and> length ct = length m + 16))
     \<and> (\<forall>ct. aes256_gcm_decrypt c k n a ct = Some m \<longleftrightarrow> aes256_gcm_encrypt c k n a m = Some ct))"

definition x25519_lawful :: "Crypto \<Rightarrow> bool" where
  "x25519_lawful c \<longleftrightarrow> (\<forall>s t. length s = 32 \<longrightarrow> length t = 32 \<longrightarrow>
     length (x25519_public_key c s) = 32 \<and> length (x25519_diffie_hellman c s t) = 32
     \<and> x25519_diffie_hellman c s (x25519_public_key c t) = x25519_diffie_hellman c t (x25519_public_key c s))"

definition hash_lawful :: "Crypto \<Rightarrow> bool" where
  "hash_lawful c \<longleftrightarrow> (\<forall>b. length (sha256_digest c b) = 32 \<and> length (hex_encode c b) = 2 * length b)
     \<and> (\<forall>s i n. n \<le> 255 * 32 \<longrightarrow> (\<exists>okm. hkdf_sha256_expand c s i [] n = Some okm \<and> length okm = n))"

definition crypto_lawful :: "Crypto \<Rightarrow> bool" where
  "crypto_lawful c \<longleftrightarrow> aes256_lawful c \<and> x25519_lawful c \<and> hash_lawful c"

text \<open>The next \<open>b\<close> key identifiers the generator is to produce are new and distinct.\<close>

definition random_id :: "Crypto \<Rightarrow> Vault \<Rightarrow> nat \<Rightarrow> KeyId" where
  "random_id c v i = hex_encode c (rng v i 8)"

definition ids_fresh :: "Crypto \<Rightarrow> nat \<Rightarrow> Vault \<Rightarrow> bool" where
  "ids_fresh c b v \<longleftrightarrow> (\<forall>i n. length (rng v i n) = n)
     \<and> (\<forall>i. draws v \<le> i \<longrightarrow> i < draws v + b \<longrightarrow> bt_get (ephemeral_secrets v) (random_id c v i) = None)
     \<and> inj_on (random_id c v) {draws v..<draws v + b}"

definition vault_good :: "Crypto \<Rightarrow> nat \<Rightarrow> Vault \<Rightarrow> bool" where
  "vault_good c b v \<longleftrightarrow> crypto_lawful c \<and> ids_fresh c b v"

abbreviation look_up :: "Vault \<Rightarrow> KeyId \<Rightarrow> StoredSecret option" where
  "look_up v \<equiv> bt_get (ephemeral_secrets v)"

lemmas vault_run_defs =
  run_bind_def run_ok_def run_err_def run_panic_def run_result_def array_ref_def exact_array_def
  fill_bytes_def ok_or_def result_map_def vault_constants

lemma bt_get_insert_fun: "bt_get (bt_insert k s m) = (bt_get m)(k \<mapsto> s)"
  by (simp add: fun_eq_iff bt_get_insert)

lemma bt_get_remove_fun: "bt_get (bt_remove k m) = (bt_get m)(k := None)"
  by (simp add: fun_eq_iff bt_get_remove)

lemma look_up_delete:
  "\<exists>v'. delete_ephemeral_secret k v = Inr (Inr (look_up v k \<noteq> None), v')
     \<and> look_up v' = (look_up v)(k := None) \<and> rng v' = rng v \<and> draws v' = draws v"
  by (simp add: delete_ephemeral_secret_def storage_defs run_ok_def bt_get_remove_fun)

text \<open>Importing a symmetric secret stores it under the next random identifier.\<close>

lemma import_random:
  assumes "secret_type att \<in> {BufferType, AesType}" "unat (attributes_length att) \<le> length s"
  shows "\<exists>v'. import_ephemeral_secret c s att v = Inr (Inr (random_id c v (draws v)), v')
     \<and> look_up v' = (look_up v)(random_id c v (draws v) \<mapsto> \<lparr>secret = s, attributes = att\<rparr>)
     \<and> rng v' = rng v \<and> draws v' = Suc (draws v)"
  using assms
  by (auto simp: import_ephemeral_secret_def compute_key_id_def StoredSecret_create_def
        StoredSecret_check_def random_id_def storage_defs bt_get_insert_fun vault_run_defs)

lemma ids_fresh_import:
  assumes "ids_fresh c (Suc b) v" "look_up v' = (look_up v)(random_id c v (draws v) \<mapsto> st)"
    "rng v' = rng v" "draws v' = Suc (draws v)"
  shows "ids_fresh c b v'"
proof -
  have ids: "random_id c v' = random_id c v" using assms(3) by (simp add: random_id_def fun_eq_iff)
  have inj: "inj_on (random_id c v) {draws v..<draws v + Suc b}" using assms(1) by (simp add: ids_fresh_def)
  then have "random_id c v i \<noteq> random_id c v (draws v)" if "Suc (draws v) \<le> i" "i < Suc (draws v) + b" for i
    using that inj_onD [OF inj, of i "draws v"] by auto
  moreover have "inj_on (random_id c v) {Suc (draws v)..<Suc (draws v) + b}"
    by (rule inj_on_subset [OF inj]) auto
  ultimately show ?thesis using assms by (auto simp: ids_fresh_def ids)
qed

lemma ids_fresh_delete:
  assumes "ids_fresh c b v" "look_up v' = (look_up v)(k := None)" "rng v' = rng v" "draws v' = draws v"
  shows "ids_fresh c b v'"
proof -
  have "random_id c v' = random_id c v" using assms(3) by (simp add: random_id_def fun_eq_iff)
  with assms show ?thesis by (simp add: ids_fresh_def)
qed

lemma vault_good_less: "vault_good c (Suc b) v \<Longrightarrow> vault_good c b v"
  by (auto simp: vault_good_def ids_fresh_def elim: inj_on_subset)

lemma vault_import:
  assumes "vault_good c (Suc b) v" "secret_type att \<in> {BufferType, AesType}"
    "unat (attributes_length att) \<le> length s"
  shows "\<exists>k v'. import_ephemeral_secret c s att v = Inr (Inr k, v') \<and> vault_good c b v' \<and> look_up v k = None
     \<and> look_up v' = (look_up v)(k \<mapsto> \<lparr>secret = s, attributes = att\<rparr>)"
proof -
  obtain v' where v': "import_ephemeral_secret c s att v = Inr (Inr (random_id c v (draws v)), v')"
      "look_up v' = (look_up v)(random_id c v (draws v) \<mapsto> \<lparr>secret = s, attributes = att\<rparr>)"
      "rng v' = rng v" "draws v' = Suc (draws v)"
    using import_random [OF assms(2,3)] by blast
  moreover have "look_up v (random_id c v (draws v)) = None"
    using assms(1) by (simp add: vault_good_def ids_fresh_def)
  moreover have "vault_good c b v'"
    using assms(1) ids_fresh_import [OF _ v'(2-4)] by (simp add: vault_good_def)
  ultimately show ?thesis by blast
qed

lemma vault_delete:
  assumes "vault_good c b v"
  shows "\<exists>v'. delete_ephemeral_secret k v = Inr (Inr (look_up v k \<noteq> None), v') \<and> vault_good c b v'
     \<and> look_up v' = (look_up v)(k := None)"
proof -
  obtain v' where v': "delete_ephemeral_secret k v = Inr (Inr (look_up v k \<noteq> None), v')"
      "look_up v' = (look_up v)(k := None)" "rng v' = rng v" "draws v' = draws v"
    using look_up_delete by blast
  with assms ids_fresh_delete [OF _ v'(2-4)] show ?thesis by (auto simp: vault_good_def)
qed

lemma vault_encrypt:
  assumes "look_up v k = Some \<lparr>secret = s, attributes = Aes256\<rparr>" "length s = 32" "length n = 12"
  shows "aead_aes_gcm_encrypt c k m n a v
     = Inr (ok_or (aes256_gcm_encrypt c s n a m) (vault_error AeadAesGcmEncrypt), v)"
  using assms
  by (simp add: aead_aes_gcm_encrypt_def get_ephemeral_secret_def make_aes_def encrypt_message_def
        storage_defs vault_run_defs split: option.split)

lemma vault_decrypt:
  assumes "look_up v k = Some \<lparr>secret = s, attributes = Aes256\<rparr>" "length s = 32" "length n = 12"
  shows "aead_aes_gcm_decrypt c k m n a v
     = Inr (ok_or (aes256_gcm_decrypt c s n a m) (vault_error AeadAesGcmDecrypt), v)"
  using assms
  by (simp add: aead_aes_gcm_decrypt_def get_ephemeral_secret_def make_aes_def decrypt_message_def
        storage_defs vault_run_defs split: option.split)

lemma vault_attributes:
  "look_up v k = Some st \<Longrightarrow> get_secret_attributes k v = Inr (Inr (attributes st), v)"
  by (simp add: get_secret_attributes_def storage_defs run_ok_def)

lemmas to_xx_ops = to_xx_initialized_def to_xx_vault_def

interpretation cv: symmetric_vault "to_xx_initialized c" look_up "vault_good c"
    "aes256_gcm_encrypt c" "aes256_gcm_decrypt c"
proof
  show "\<And>b v. vault_good c (Suc b) v \<Longrightarrow> vault_good c b v" by (rule vault_good_less)
  show "\<And>b v att s. vault_good c (Suc b) v \<Longrightarrow> secret_type att \<in> {BufferType, AesType} \<Longrightarrow>
      unat (attributes_length att) \<le> length s \<Longrightarrow>
      \<exists>k v'. xx_import (to_xx_initialized c) s att v = Inr (Inr k, v') \<and> vault_good c b v'
        \<and> look_up v k = None \<and> look_up v' = (look_up v)(k \<mapsto> \<lparr>secret = s, attributes = att\<rparr>)"
    using vault_import by (simp add: to_xx_ops)
  show "\<And>b v k. vault_good c b v \<Longrightarrow> \<exists>v'. xx_delete (to_xx_initialized c) k v
      = Inr (Inr (look_up v k \<noteq> None), v') \<and> vault_good c b v' \<and> look_up v' = (look_up v)(k := None)"
    using vault_delete by (simp add: to_xx_ops)
qed (auto simp: to_xx_ops vault_encrypt vault_decrypt vault_attributes vault_good_def
       crypto_lawful_def aes256_lawful_def)

lemma vault_public_key:
  assumes "look_up v k = Some \<lparr>secret = s, attributes = X25519\<rparr>" "length s = 32"
  shows "get_public_key c k v = Inr (Inr \<lparr>data = x25519_public_key c s, stype = X25519Type\<rparr>, v)"
  using assms
  by (simp add: get_public_key_def compute_public_key_from_secret_def PublicKey_new_def storage_defs
        vault_run_defs)

text \<open>A new agreement key is stored under the identifier computed from its public key.\<close>

definition agreement_id :: "Crypto \<Rightarrow> Vault \<Rightarrow> nat \<Rightarrow> KeyId" where
  "agreement_id c v i = hex_encode c (sha256_digest c (x25519_public_key c (rng v i 32)))"

definition with_agreement_key :: "Crypto \<Rightarrow> Vault \<Rightarrow> Vault" where
  "with_agreement_key c v = v\<lparr>draws := Suc (draws v), ephemeral_secrets := bt_insert (agreement_id c v (draws v))
     \<lparr>secret = rng v (draws v) 32, attributes = X25519\<rparr> (ephemeral_secrets v)\<rparr>"

lemma create_agreement_secret:
  assumes "length (rng v (draws v) 32) = 32"
  shows "create_ephemeral_secret c X25519 v = Inr (Inr (agreement_id c v (draws v)), with_agreement_key c v)"
  using assms
  by (simp add: create_ephemeral_secret_def create_secret_from_attributes_def with_agreement_key_def
    agreement_id_def import_ephemeral_secret_def compute_key_id_def compute_key_id_for_public_key_def
    PublicKey_new_def StoredSecret_create_def StoredSecret_check_def storage_defs vault_run_defs)

lemma with_agreement_good:
  assumes "vault_good c (Suc b) v"
  shows "vault_good c b (with_agreement_key c v)"
proof -
  let ?k = "agreement_id c v (draws v)" and ?v = "with_agreement_key c v"
  have lens: "length ?k = 64" "\<And>i. length (random_id c v i) = 16"
    using assms by (simp_all add: agreement_id_def random_id_def vault_good_def ids_fresh_def
      crypto_lawful_def hash_lawful_def)
  have ids: "random_id c ?v = random_id c v" by (simp add: random_id_def with_agreement_key_def fun_eq_iff)
  have "random_id c v i \<noteq> ?k" for i using lens(1) lens(2) [of i] by auto
  moreover have "draws ?v = Suc (draws v)" "rng ?v = rng v"
      "look_up ?v = (look_up v)(?k \<mapsto> \<lparr>secret = rng v (draws v) 32, attributes = X25519\<rparr>)"
    by (simp_all add: with_agreement_key_def bt_get_insert_fun)
  ultimately show ?thesis
    using assms by (auto simp: vault_good_def ids_fresh_def ids elim: inj_on_subset)
qed

lemma vault_create:
  assumes "vault_good c (Suc b) v"
  shows "\<exists>k s v'. create_ephemeral_secret c X25519 v = Inr (Inr k, v') \<and> vault_good c b v'
     \<and> length s = 32 \<and> look_up v' = (look_up v)(k \<mapsto> \<lparr>secret = s, attributes = X25519\<rparr>)"
proof -
  have "length (rng v (draws v) 32) = 32" using assms by (simp add: vault_good_def ids_fresh_def)
  then show ?thesis
    using with_agreement_good [OF assms] create_agreement_secret
    by (fastforce simp: with_agreement_key_def bt_get_insert_fun)
qed

lemma vault_diffie_hellman:
  assumes "vault_good c (Suc b) v" "look_up v k = Some \<lparr>secret = s, attributes = X25519\<rparr>" "length s = 32"
    "length (data pk) = 32"
  shows "\<exists>d v'. ec_diffie_hellman c k pk v = Inr (Inr d, v') \<and> vault_good c b v' \<and> look_up v d = None
     \<and> look_up v' = (look_up v)(d \<mapsto> \<lparr>secret = x25519_diffie_hellman c s (data pk), attributes = Buffer 32\<rparr>)"
proof -
  have "length (x25519_diffie_hellman c s (data pk)) = 32"
    using assms by (simp add: vault_good_def crypto_lawful_def x25519_lawful_def)
  moreover from this assms(2-4) have "ec_diffie_hellman c k pk v
      = import_ephemeral_secret c (x25519_diffie_hellman c s (data pk)) (Buffer 32) v"
    by (simp add: ec_diffie_hellman_def get_ephemeral_secret_def ecdh_internal_def storage_defs vault_run_defs)
  ultimately show ?thesis using vault_import [OF assms(1), of "Buffer 32"] by simp
qed

definition hkdf_pair :: "Crypto \<Rightarrow> bytes \<Rightarrow> bytes \<Rightarrow> bytes" where
  "hkdf_pair c s i = (case hkdf_sha256_expand c s i [] 64 of None \<Rightarrow> [] | Some okm \<Rightarrow> okm)"

lemma hkdf_pair_ok:
  assumes "crypto_lawful c"
  shows "hkdf_sha256_expand c s i [] 64 = Some (hkdf_pair c s i) \<and> length (hkdf_pair c s i) = 64"
proof -
  have "\<exists>okm. hkdf_sha256_expand c s i [] 64 = Some okm \<and> length okm = 64"
    using assms by (simp add: crypto_lawful_def hash_lawful_def)
  then show ?thesis by (auto simp: hkdf_pair_def)
qed

lemma import_pair:
  assumes good: "vault_good c (Suc (Suc b)) v" and len: "length okm = 64"
    and a: "a1 \<in> {Buffer 32, Aes256}" "a2 \<in> {Buffer 32, Aes256}"
  shows "\<exists>k1 k2 v'. import_outputs c okm 0 [a1, a2] v = Inr (Inr [k1, k2], v') \<and> vault_good c b v'
     \<and> look_up v k1 = None \<and> look_up v k2 = None \<and> k1 \<noteq> k2
     \<and> look_up v' = (look_up v)(k1 \<mapsto> \<lparr>secret = take 32 okm, attributes = a1\<rparr>,
                                k2 \<mapsto> \<lparr>secret = drop 32 okm, attributes = a2\<rparr>)"
proof -
  have att: "secret_type a \<in> {BufferType, AesType}" "unat (attributes_length a) = 32"
    if "a \<in> {Buffer 32, Aes256}" for a
    using that by (auto simp: vault_constants)
  have cut: "take 32 (drop 32 okm) = drop 32 okm" using len by simp
  obtain k1 v1 where v1: "import_ephemeral_secret c (take 32 okm) a1 v = Inr (Inr k1, v1)"
      "vault_good c (Suc b) v1" "look_up v k1 = None"
      "look_up v1 = (look_up v)(k1 \<mapsto> \<lparr>secret = take 32 okm, attributes = a1\<rparr>)"
    using vault_import [OF good att(1) [OF a(1)], of "take 32 okm"] att(2) [OF a(1)] len by auto
  obtain k2 v2 where v2: "import_ephemeral_secret c (drop 32 okm) a2 v1 = Inr (Inr k2, v2)"
      "vault_good c b v2" "look_up v1 k2 = None"
      "look_up v2 = (look_up v1)(k2 \<mapsto> \<lparr>secret = drop 32 okm, attributes = a2\<rparr>)"
    using vault_import [OF v1(2) att(1) [OF a(2)], of "drop 32 okm"] att(2) [OF a(2)] len by auto
  have "import_outputs c okm 0 [a1, a2] v = Inr (Inr [k1, k2], v2)"
    using att [OF a(1)] att [OF a(2)] v1(1) v2(1) len cut
    by (simp add: run_bind_def run_ok_def)
  moreover have "look_up v k2 = None" "k1 \<noteq> k2" using v2(3) v1(4) by (auto split: if_splits)
  ultimately show ?thesis using v1 v2 by auto
qed

lemma vault_hkdf:
  assumes good: "vault_good c (Suc (Suc b)) v" and salt: "look_up v salt = Some \<lparr>secret = s, attributes = Buffer 32\<rparr>"
    and ikm: "case ikm of None \<Rightarrow> i = [] | Some k \<Rightarrow> look_up v k = Some \<lparr>secret = i, attributes = Buffer 32\<rparr>"
    and a: "a1 \<in> {Buffer 32, Aes256}" "a2 \<in> {Buffer 32, Aes256}"
  shows "\<exists>k1 k2 v'. hkdf_sha256 c salt [] ikm [a1, a2] v = Inr (Inr [k1, k2], v') \<and> vault_good c b v'
     \<and> look_up v k1 = None \<and> look_up v k2 = None \<and> k1 \<noteq> k2
     \<and> look_up v' = (look_up v)(k1 \<mapsto> \<lparr>secret = take 32 (hkdf_pair c s i), attributes = a1\<rparr>,
                                k2 \<mapsto> \<lparr>secret = drop 32 (hkdf_pair c s i), attributes = a2\<rparr>)"
proof -
  have okm: "hkdf_sha256_expand c s i [] 64 = Some (hkdf_pair c s i)" "length (hkdf_pair c s i) = 64"
    using hkdf_pair_ok good by (auto simp: vault_good_def)
  have "hkdf_sha256 c salt [] ikm [a1, a2] v = import_outputs c (hkdf_pair c s i) 0 [a1, a2] v"
    using salt ikm okm(1)
    by (auto simp: hkdf_sha256_def hkdf_ikm_def get_ephemeral_secret_def storage_defs vault_run_defs
        simp del: import_outputs.simps split: option.splits)
  then show ?thesis using import_pair [OF good okm(2) a] by simp
qed

interpretation av: agreement_vault "to_xx_vault c" look_up "vault_good c"
    "aes256_gcm_encrypt c" "aes256_gcm_decrypt c" "x25519_public_key c" "x25519_diffie_hellman c" "hkdf_pair c"
proof
  show "\<And>b v. vault_good c (Suc b) v \<Longrightarrow> vault_good c b v" by (rule vault_good_less)
  show "\<And>b v att s. vault_good c (Suc b) v \<Longrightarrow> secret_type att \<in> {BufferType, AesType} \<Longrightarrow>
      unat (attributes_length att) \<le> length s \<Longrightarrow>
      \<exists>k v'. xx_import (to_xx_vault c) s att v = Inr (Inr k, v') \<and> vault_good c b v'
        \<and> look_up v k = None \<and> look_up v' = (look_up v)(k \<mapsto> \<lparr>secret = s, attributes = att\<rparr>)"
    using vault_import by (simp add: to_xx_ops)
  show "\<And>b v k. vault_good c b v \<Longrightarrow> \<exists>v'. xx_delete (to_xx_vault c) k v
      = Inr (Inr (look_up v k \<noteq> None), v') \<and> vault_good c b v' \<and> look_up v' = (look_up v)(k := None)"
    using vault_delete by (simp add: to_xx_ops)
qed (use vault_create vault_diffie_hellman vault_hkdf hkdf_pair_ok in
       \<open>auto simp: to_xx_ops vault_encrypt vault_decrypt vault_attributes vault_public_key vault_good_def
         crypto_lawful_def aes256_lawful_def x25519_lawful_def\<close>)

subsection \<open>A sample instance\<close>

text \<open>Simple functions with the documented behaviour of the algorithms, and a vault with one session
  key: they show that the hypotheses above can hold.\<close>

definition sample_crypto :: Crypto where
  "sample_crypto =
     \<lparr>hex_encode = (\<lambda>b. concat (map (\<lambda>x. [x, x]) b)),
      sha256_digest = (\<lambda>b. take 32 (b @ replicate 32 (CHR 0x00))),
      aes128_gcm_encrypt = (\<lambda>k n a m. Some (m @ take 16 k)),
      aes128_gcm_decrypt = (\<lambda>k n a m. None),
      aes256_gcm_encrypt = (\<lambda>k n a m. Some (m @ take 16 k)),
      aes256_gcm_decrypt = (\<lambda>k n a m. if 16 \<le> length m \<and> drop (length m - 16) m = take 16 k
         then Some (take (length m - 16) m) else None),
      x25519_public_key = (\<lambda>s. s),
      x25519_diffie_hellman = (\<lambda>s p. if s \<le> p then s else p),
      hkdf_sha256_expand = (\<lambda>s i info n. Some (take n (s @ i @ replicate n (CHR 0x00)))),
      ed25519_verifying_key = (\<lambda>s. s), ed25519_sign = (\<lambda>s m. take 64 (s @ m @ replicate 64 (CHR 0x00))),
      ed25519_accepts_key = (\<lambda>p. True), ed25519_verify = (\<lambda>p m s. s = take 64 (p @ m @ replicate 64 (CHR 0x00))),
      p256_random_pkcs8 = (\<lambda>i. None), p256_public_der = (\<lambda>s. None), p256_sign = (\<lambda>s m. None),
      p256_accepts_key = (\<lambda>p. False), p256_accepts_signature = (\<lambda>s. False), p256_verify = (\<lambda>p m s. False)\<rparr>"

lemma sample_crypto_lawful: "crypto_lawful sample_crypto"
proof -
  have "aes256_lawful sample_crypto"
    by (auto simp: aes256_lawful_def sample_crypto_def) (metis append_take_drop_id)
  moreover have "x25519_lawful sample_crypto"
    by (auto simp: x25519_lawful_def sample_crypto_def)
  moreover have "length (concat (map (\<lambda>x. [x, x]) b)) = 2 * length b" for b :: bytes
    by (induction b) auto
  then have "hash_lawful sample_crypto"
    by (auto simp: hash_lawful_def sample_crypto_def)
  ultimately show ?thesis by (simp add: crypto_lawful_def)
qed

definition sample_key :: Secret where
  "sample_key = replicate 32 (CHR ''k'')"

definition sample_vault :: Vault where
  "sample_vault = \<lparr>ephemeral_secrets = [(''session'', \<lparr>secret = sample_key, attributes = Aes256\<rparr>)],
     persistent_secrets = [], rng = (\<lambda>i n. replicate n (char_of i)), draws = 0\<rparr>"

lemma sample_ids: "random_id sample_crypto sample_vault i = replicate 16 (char_of i)"
  by (simp add: random_id_def sample_crypto_def sample_vault_def numeral_eq_Suc)

lemma sample_vault_good:
  assumes "b \<le> 256"
  shows "vault_good sample_crypto b sample_vault"
proof -
  have "inj_on (random_id sample_crypto sample_vault) {0..<b}"
  proof (rule inj_onI)
    fix i j assume ij: "i \<in> {0..<b}" "j \<in> {0..<b}"
      "random_id sample_crypto sample_vault i = random_id sample_crypto sample_vault j"
    then have "of_char (char_of i :: char) = (of_char (char_of j :: char) :: nat)" by (simp add: sample_ids)
    then show "i = j" using ij assms by simp
  qed
  moreover have "look_up sample_vault (replicate 16 x) = None" for x
    by (simp add: sample_vault_def bt_get_def numeral_eq_Suc)
  ultimately show ?thesis
    using sample_crypto_lawful
    by (simp add: vault_good_def ids_fresh_def sample_ids) (simp add: sample_vault_def)
qed

lemma sample_session:
  "look_up sample_vault ''session'' = Some \<lparr>secret = sample_key, attributes = Aes256\<rparr>" "length sample_key = 32"
  by (simp_all add: sample_vault_def sample_key_def bt_get_def)

end
