(* ===== verification/Channel_Trackers.thy ===== *)
theory Channel_Trackers
  imports Identity_Error Vault
begin

text \<open>
  The bookkeeping of a decryptor: which nonces it has seen
  (\<open>ockam_identity/src/secure_channel/nonce_tracker.rs\<close>) and which key belongs to a nonce
  (\<open>key_tracker.rs\<close>), on 64-bit words.
\<close>

unbundle bit_operations_syntax

subsection \<open>Nonces\<close>

definition KEY_RENEWAL_INTERVAL :: u64 where
  "KEY_RENEWAL_INTERVAL = 32"

record NonceTracker =
  nonce_bitmap :: u64
  current_nonce :: u64

definition NonceTracker_new :: NonceTracker where
  "NonceTracker_new = \<lparr>nonce_bitmap = 0, current_nonce = 0\<rparr>"

text \<open>\<open>overflowing_shl\<close> of a \<open>u64\<close> by a \<open>u64\<close> cast to \<open>u32\<close>.\<close>

definition overflowing_shl :: "u64 \<Rightarrow> u64 \<Rightarrow> u64" where
  "overflowing_shl x n = push_bit (unat (ucast n :: 32 word) mod 64) x"

definition NonceTracker_mark :: "NonceTracker \<Rightarrow> u64 \<Rightarrow> IdentityError + NonceTracker" where
  "NonceTracker_mark self nonce =
     (if nonce > current_nonce self then
        let relative_shift = nonce - current_nonce self in
        if relative_shift > KEY_RENEWAL_INTERVAL then Inl InvalidNonce
        else Inr \<lparr>nonce_bitmap = overflowing_shl (nonce_bitmap self) relative_shift OR 1,
                  current_nonce = nonce\<rparr>
      else
        let relative = current_nonce self - nonce in
        if relative > KEY_RENEWAL_INTERVAL then Inl InvalidNonce
        else
          let b = overflowing_shl 1 relative in
          if nonce_bitmap self AND b \<noteq> 0 then Inl InvalidNonce
          else Inr \<lparr>nonce_bitmap = nonce_bitmap self OR b, current_nonce = current_nonce self\<rparr>)"

subsection \<open>Keys\<close>

record KeyTracker =
  current_key :: KeyId
  previous_key :: "KeyId option"
  number_of_rekeys :: u64
  max_rekeys_reached :: bool
  renewal_interval :: u64

definition KeyTracker_new :: "KeyId \<Rightarrow> u64 \<Rightarrow> KeyTracker" where
  "KeyTracker_new key_id interval =
     \<lparr>current_key = key_id, previous_key = None, number_of_rekeys = 0, max_rekeys_reached = False,
      renewal_interval = interval\<rparr>"

definition get_key :: "KeyTracker \<Rightarrow> u64 \<Rightarrow> IdentityError + KeyId option" where
  "get_key self nonce =
     (let start = number_of_rekeys self * renewal_interval self in
      if max_rekeys_reached self then Inl InvalidNonce
      else if nonce \<ge> start then
        let nonce_age = nonce - start in
        if nonce_age < renewal_interval self then Inr (Some (current_key self))
        else if nonce_age < renewal_interval self * 2 then Inr None
        else Inl InvalidNonce
      else if start - nonce \<le> renewal_interval self then
        (case previous_key self of Some k \<Rightarrow> Inr (Some k) | None \<Rightarrow> Inl InvalidNonce)
      else Inl InvalidNonce)"

definition update_key :: "KeyTracker \<Rightarrow> KeyId \<Rightarrow> KeyId option \<times> KeyTracker" where
  "update_key self decryption_key =
     (if decryption_key \<noteq> current_key self \<and> Some decryption_key \<noteq> previous_key self then
        let self1 = self\<lparr>previous_key := Some (current_key self), current_key := decryption_key\<rparr>
        in (previous_key self,
            if 0xFFFFFFFFFFFFFFFF - number_of_rekeys self * renewal_interval self < renewal_interval self
            then self1\<lparr>max_rekeys_reached := True\<rparr>
            else self1\<lparr>number_of_rekeys := number_of_rekeys self + 1\<rparr>)
      else (None, self))"

subsection \<open>A filter against replays\<close>

text \<open>A component that accepts or refuses numbered items while the relation to the set of accepted
  numbers stays intact never accepts a number twice.\<close>

locale replay_filter =
  fixes accept :: "'s \<Rightarrow> 'n \<Rightarrow> 'e + 's"
    and rel :: "'s \<Rightarrow> 'n set \<Rightarrow> bool"
  assumes accept_fresh: "rel s S \<Longrightarrow> accept s n = Inr s' \<Longrightarrow> n \<notin> S"
    and accept_rel: "rel s S \<Longrightarrow> accept s n = Inr s' \<Longrightarrow> rel s' (insert n S)"
begin

fun accepted :: "'s \<Rightarrow> 'n list \<Rightarrow> 'n list" where
  "accepted s [] = []"
| "accepted s (n # ns) = (case accept s n of
     Inl _ \<Rightarrow> accepted s ns | Inr s' \<Rightarrow> n # accepted s' ns)"

lemma accepted_avoids: "rel s S \<Longrightarrow> set (accepted s ns) \<inter> S = {}"
proof (induction ns arbitrary: s S)
  case (Cons n ns)
  show ?case
  proof (cases "accept s n")
    case (Inr s')
    with Cons.IH [of s' "insert n S"] Cons.prems accept_fresh accept_rel show ?thesis by fastforce
  qed (use Cons in simp)
qed simp

lemma accepted_distinct: "rel s S \<Longrightarrow> distinct (accepted s ns)"
proof (induction ns arbitrary: s S)
  case (Cons n ns)
  show ?case
  proof (cases "accept s n")
    case (Inr s')
    with Cons.prems have "rel s' (insert n S)" by (rule accept_rel)
    with Cons.IH accepted_avoids Inr show ?thesis by fastforce
  qed (use Cons in simp)
qed simp

end

subsection \<open>The window\<close>

text \<open>What the tracker promises, over the list of the nonces accepted so far: a nonce is accepted if it
  is new and at most 32 away from the highest one.\<close>

fun highest :: "nat list \<Rightarrow> nat" where
  "highest [] = 0"
| "highest (n # seen) = max n (highest seen)"

definition window_accepts :: "nat list \<Rightarrow> nat \<Rightarrow> bool" where
  "window_accepts seen n \<longleftrightarrow> n \<notin> set seen \<and> n \<le> highest seen + 32 \<and> highest seen \<le> n + 32"

fun window_run :: "nat list \<Rightarrow> nat list \<Rightarrow> bool list" where
  "window_run seen [] = []"
| "window_run seen (n # ns) =
     (if window_accepts seen n then True # window_run (n # seen) ns else False # window_run seen ns)"

fun tracker_run :: "NonceTracker \<Rightarrow> u64 list \<Rightarrow> bool list" where
  "tracker_run t [] = []"
| "tracker_run t (n # ns) = (case NonceTracker_mark t n of
     Inl _ \<Rightarrow> False # tracker_run t ns | Inr t' \<Rightarrow> True # tracker_run t' ns)"

definition tracks :: "NonceTracker \<Rightarrow> nat list \<Rightarrow> bool" where
  "tracks t seen \<longleftrightarrow> unat (current_nonce t) = highest seen
     \<and> (\<forall>i \<le> 32. bit (nonce_bitmap t) i \<longleftrightarrow> i \<le> highest seen \<and> highest seen - i \<in> set seen)"

lemma highest_upper: "n \<in> set seen \<Longrightarrow> n \<le> highest seen"
  by (induction seen) auto

lemma shift_amount: "n \<le> KEY_RENEWAL_INTERVAL \<Longrightarrow> unat (ucast n :: 32 word) mod 64 = unat n \<and> unat n \<le> 32"
proof -
  assume "n \<le> KEY_RENEWAL_INTERVAL"
  then have le: "unat n \<le> 32" by (simp add: KEY_RENEWAL_INTERVAL_def word_le_nat_alt)
  then have "unat (ucast n :: 32 word) = unat n"
    by (simp add: unsigned_ucast_eq take_bit_nat_eq_self)
  with le show ?thesis by simp
qed

lemma bit_single: "(x AND push_bit k 1 \<noteq> (0 :: u64)) = bit x k"
  by (simp add: and_exp_eq_0_iff_not_bit)

lemma overflowing_shl_small:
  "n \<le> KEY_RENEWAL_INTERVAL \<Longrightarrow> overflowing_shl x n = push_bit (unat n) x"
  using shift_amount [of n] by (simp add: overflowing_shl_def)

text \<open>A nonce ahead of the window's head moves the window.\<close>

lemma mark_ahead:
  assumes "tracks t seen" "highest seen < unat n"
  shows "if unat n \<le> highest seen + 32
    then \<exists>t'. NonceTracker_mark t n = Inr t' \<and> tracks t' (unat n # seen)
    else NonceTracker_mark t n = Inl InvalidNonce"
proof -
  let ?d = "n - current_nonce t"
  have cur: "unat (current_nonce t) = highest seen" using assms(1) by (simp add: tracks_def)
  have gt: "n > current_nonce t" using assms(2) cur by (simp add: word_less_nat_alt)
  have d: "unat ?d = unat n - highest seen" using assms(2) cur by (simp add: unat_sub_if')
  have le: "?d \<le> KEY_RENEWAL_INTERVAL \<longleftrightarrow> unat n \<le> highest seen + 32"
    using assms(2) d by (simp add: KEY_RENEWAL_INTERVAL_def word_le_nat_alt) linarith
  show ?thesis
  proof (cases "?d \<le> KEY_RENEWAL_INTERVAL")
    case False
    with gt le show ?thesis by (simp add: NonceTracker_mark_def Let_def not_le)
  next
    case True
    let ?t' = "\<lparr>nonce_bitmap = push_bit (unat ?d) (nonce_bitmap t) OR 1, current_nonce = n\<rparr>"
    have "NonceTracker_mark t n = Inr ?t'"
      using gt True overflowing_shl_small [OF True] by (simp add: NonceTracker_mark_def Let_def not_less)
    moreover have "tracks ?t' (unat n # seen)"
      unfolding tracks_def
    proof (intro conjI allI impI)
      fix i :: nat assume i: "i \<le> 32"
      have "bit (nonce_bitmap t) (i - unat ?d)
          \<longleftrightarrow> i - unat ?d \<le> highest seen \<and> highest seen - (i - unat ?d) \<in> set seen"
        using assms(1) i by (simp add: tracks_def)
      moreover have "unat n - i \<notin> set seen" if "i < unat ?d"
        using that d assms(2) highest_upper [of "unat n - i" seen] by linarith
      ultimately show "bit (nonce_bitmap ?t') i \<longleftrightarrow>
          i \<le> highest (unat n # seen) \<and> highest (unat n # seen) - i \<in> set (unat n # seen)"
        using i d assms(2)
        by (cases "unat ?d \<le> i") (auto simp: bit_or_iff bit_push_bit_iff bit_1_iff max_def)
    qed (use assms(2) in simp)
    ultimately show ?thesis using le True by auto
  qed
qed

text \<open>A nonce behind the window's head has its own bit.\<close>

lemma mark_behind:
  assumes "tracks t seen" "unat n \<le> highest seen"
  shows "if highest seen \<le> unat n + 32 \<and> unat n \<notin> set seen
    then \<exists>t'. NonceTracker_mark t n = Inr t' \<and> tracks t' (unat n # seen)
    else NonceTracker_mark t n = Inl InvalidNonce"
proof -
  let ?d = "current_nonce t - n"
  have cur: "unat (current_nonce t) = highest seen" using assms(1) by (simp add: tracks_def)
  have le: "\<not> n > current_nonce t" using assms(2) cur by (simp add: word_less_nat_alt)
  have d: "unat ?d = highest seen - unat n" using assms(2) cur by (simp add: unat_sub_if')
  have win: "?d \<le> KEY_RENEWAL_INTERVAL \<longleftrightarrow> highest seen \<le> unat n + 32"
    using d by (simp add: KEY_RENEWAL_INTERVAL_def word_le_nat_alt) linarith
  show ?thesis
  proof (cases "?d \<le> KEY_RENEWAL_INTERVAL")
    case False
    with le win show ?thesis by (simp add: NonceTracker_mark_def Let_def not_le)
  next
    case True
    have d32: "unat ?d \<le> 32" using shift_amount [OF True] by simp
    have orig: "highest seen - unat ?d = unat n" using d assms(2) by simp
    have bit: "bit (nonce_bitmap t) (unat ?d) \<longleftrightarrow> unat n \<in> set seen"
      using assms d32 d orig by (simp add: tracks_def)
    let ?t' = "\<lparr>nonce_bitmap = nonce_bitmap t OR push_bit (unat ?d) 1, current_nonce = current_nonce t\<rparr>"
    have m: "NonceTracker_mark t n
        = (if unat n \<in> set seen then Inl InvalidNonce else Inr ?t')"
      using le leD [OF True] overflowing_shl_small [OF True, of 1] bit_single [of "nonce_bitmap t" "unat ?d"] bit
      by (simp add: NonceTracker_mark_def Let_def)
    moreover have "tracks ?t' (unat n # seen)"
      unfolding tracks_def
    proof (intro conjI allI impI)
      fix i :: nat assume i: "i \<le> 32"
      have "highest seen - i = unat n \<longleftrightarrow> i = unat ?d" if "i \<le> highest seen"
        using that d assms(2) by linarith
      then show "bit (nonce_bitmap ?t') i \<longleftrightarrow>
          i \<le> highest (unat n # seen) \<and> highest (unat n # seen) - i \<in> set (unat n # seen)"
        using i assms d by (auto simp: tracks_def bit_or_iff bit_exp_iff max_def)
    qed (use assms cur in simp)
    ultimately show ?thesis using win True by auto
  qed
qed

lemma mark_window:
  assumes "tracks t seen"
  shows "if window_accepts seen (unat n)
    then \<exists>t'. NonceTracker_mark t n = Inr t' \<and> tracks t' (unat n # seen)
    else NonceTracker_mark t n = Inl InvalidNonce"
proof (cases "highest seen < unat n")
  case True
  with mark_ahead [OF assms True] highest_upper [of "unat n" seen] show ?thesis
    by (auto simp: window_accepts_def split: if_splits)
next
  case False
  with mark_behind [OF assms] show ?thesis
    by (auto simp: window_accepts_def split: if_splits)
qed

lemma tracks_new: "tracks NonceTracker_new []"
  by (simp add: tracks_def NonceTracker_new_def)

lemma tracker_run_window: "tracks t seen \<Longrightarrow> tracker_run t ns = window_run seen (map unat ns)"
proof (induction ns arbitrary: t seen)
  case (Cons n ns)
  show ?case
    using mark_window [OF Cons.prems, of n] Cons.IH Cons.prems by (auto split: if_splits)
qed simp

interpretation nonces: replay_filter NonceTracker_mark
    "\<lambda>t S. \<exists>seen. tracks t seen \<and> S = {n. unat n \<in> set seen}"
proof
  fix t t' :: NonceTracker and S :: "u64 set" and n :: u64
  assume "\<exists>seen. tracks t seen \<and> S = {n. unat n \<in> set seen}" and m: "NonceTracker_mark t n = Inr t'"
  then obtain seen where s: "tracks t seen" "S = {n. unat n \<in> set seen}" by blast
  with mark_window [OF s(1), of n] m have "window_accepts seen (unat n)" "tracks t' (unat n # seen)"
    by (auto split: if_splits)
  then show "n \<notin> S" "\<exists>seen. tracks t' seen \<and> insert n S = {n. unat n \<in> set seen}"
    using s(2) by (auto simp: window_accepts_def word_unat_eq_iff intro!: exI [of _ "unat n # seen"])
qed

text \<open>C21: the bitmap of the last 33 nonces decides exactly what the window promises: over any sequence of
  64-bit nonces, the tracker accepts a nonce if and only if it has not accepted it before and it
  is at most 32 away, in either direction, from the highest nonce accepted so far; in
  particular no nonce is ever accepted twice.\<close>

theorem nonce_window:
  "tracker_run NonceTracker_new ns = window_run [] (map unat ns)
     \<and> distinct (nonces.accepted NonceTracker_new ns)"
  using tracker_run_window [OF tracks_new] nonces.accepted_distinct [of NonceTracker_new "{}" ns] tracks_new
  by fastforce

subsection \<open>Keys and intervals\<close>

text \<open>What holds of a key tracker that renews its key every 32 messages: the start of the current
  interval is a 64-bit number, and a first rekeying has left a previous key.\<close>

definition key_tracker_ok :: "KeyTracker \<Rightarrow> bool" where
  "key_tracker_ok t \<longleftrightarrow> renewal_interval t = KEY_RENEWAL_INTERVAL
     \<and> unat (number_of_rekeys t) * 32 < 2 ^ 64
     \<and> (previous_key t = None \<longleftrightarrow> number_of_rekeys t = 0 \<and> \<not> max_rekeys_reached t)
     \<and> previous_key t \<noteq> Some (current_key t)"

lemma interval_start:
  assumes "unat (r :: u64) * 32 < 2 ^ 64"
  shows "unat (r * 32) = unat r * 32"
  using assms by (simp add: unat_word_ariths)

lemma key_tracker_ok_new: "key_tracker_ok (KeyTracker_new k KEY_RENEWAL_INTERVAL)"
  by (simp add: key_tracker_ok_def KeyTracker_new_def)

text \<open>The key of a nonce, by the interval the nonce is in.\<close>

lemma get_key_interval:
  assumes "key_tracker_ok t" "\<not> max_rekeys_reached t"
  defines "r \<equiv> unat (number_of_rekeys t)"
  shows "get_key t n =
    (if unat n div 32 = r then Inr (Some (current_key t))
     else if unat n div 32 = Suc r then Inr None
     else if Suc (unat n div 32) = r then Inr (previous_key t)
     else Inl InvalidNonce)"
proof -
  let ?s = "number_of_rekeys t * 32"
  have s: "unat ?s = r * 32" using assms(1) interval_start by (simp add: key_tracker_ok_def r_def)
  have prev: "previous_key t \<noteq> None" if "0 < r"
    using that assms(1,2) by (auto simp: key_tracker_ok_def r_def unat_gt_0)
  show ?thesis
  proof (cases "unat n < r * 32")
    case True
    then have lt: "n < ?s" using s by (simp add: word_less_nat_alt)
    have "unat (?s - n) = r * 32 - unat n" using True s by (simp add: unat_sub_if')
    then have "?s - n \<le> 32 \<longleftrightarrow> Suc (unat n div 32) = r"
      using True by (simp add: word_le_nat_alt) linarith
    moreover have "unat n div 32 < r" using True by (simp add: less_mult_imp_div_less)
    ultimately show ?thesis
      using lt assms prev
      by (auto simp: get_key_def key_tracker_ok_def KEY_RENEWAL_INTERVAL_def Let_def split: option.split)
  next
    case False
    then have ge: "n \<ge> ?s" using s by (simp add: word_le_nat_alt)
    have "unat (n - ?s) = unat n - r * 32" using False s by (simp add: unat_sub_if')
    then have "n - ?s < 32 \<longleftrightarrow> unat n div 32 = r" "n - ?s < 64 \<longleftrightarrow> unat n div 32 \<le> Suc r"
      using False by (simp_all add: word_less_nat_alt) linarith+
    moreover have "r \<le> unat n div 32" using False by linarith
    ultimately show ?thesis
      using ge assms by (auto simp: get_key_def key_tracker_ok_def KEY_RENEWAL_INTERVAL_def Let_def)
  qed
qed

lemma update_key_known:
  "k = current_key t \<or> previous_key t = Some k \<Longrightarrow> update_key t k = (None, t)"
  by (auto simp: update_key_def)

lemma update_key_new:
  assumes "key_tracker_ok t" "\<not> max_rekeys_reached t" "k \<noteq> current_key t" "previous_key t \<noteq> Some k"
  shows "update_key t k = (previous_key t,
    if Suc (unat (number_of_rekeys t)) * 32 < 2 ^ 64
    then t\<lparr>previous_key := Some (current_key t), current_key := k, number_of_rekeys := number_of_rekeys t + 1\<rparr>
    else t\<lparr>previous_key := Some (current_key t), current_key := k, max_rekeys_reached := True\<rparr>)"
proof -
  let ?s = "number_of_rekeys t * 32"
  have ok: "unat ?s = unat (number_of_rekeys t) * 32" "unat (number_of_rekeys t) * 32 < 2 ^ 64"
    using assms(1) interval_start by (simp_all add: key_tracker_ok_def)
  have "unat (0xFFFFFFFFFFFFFFFF - ?s) = 2 ^ 64 - 1 - unat ?s"
    using ok by (simp add: unat_sub_if')
  then have "0xFFFFFFFFFFFFFFFF - ?s < 32 \<longleftrightarrow> \<not> Suc (unat (number_of_rekeys t)) * 32 < 2 ^ 64"
    using ok by (simp add: word_less_nat_alt) linarith
  then show ?thesis
    using assms by (auto simp: update_key_def key_tracker_ok_def KEY_RENEWAL_INTERVAL_def Let_def)
qed



end
