(* ===== verification/Secure_Channel.thy ===== *)
theory Secure_Channel
  imports Identities_Vault Channel_Trackers
begin

text \<open>
  The two ends of an established secure channel: \<open>Encryptor\<close>
  (\<open>ockam_identity/src/secure_channel/encryptor.rs\<close>) and \<open>Decryptor\<close> (\<open>decryptor.rs\<close>), over any
  vault that keeps the laws of \<open>symmetric_vault\<close>.

  A packet is the 8-byte nonce followed by the AES-GCM ciphertext; the key of nonce \<open>n\<close> is
  generation \<open>n div 32\<close> of the key the handshake agreed on.  The lemmas describe both ends by
  that specification, and the properties compose them: what arrives, in which order, how often.
\<close>

subsection \<open>Nonces as bytes\<close>

fun le_bytes :: "nat \<Rightarrow> nat \<Rightarrow> bytes" where
  "le_bytes 0 n = []"
| "le_bytes (Suc k) n = char_of n # le_bytes k (n div 256)"

definition to_be_bytes :: "u64 \<Rightarrow> bytes" where
  "to_be_bytes n = rev (le_bytes 8 (unat n))"

definition from_be_bytes :: "bytes \<Rightarrow> u64" where
  "from_be_bytes b = word_of_nat (horner_sum of_char 256 (rev b))"

definition convert_nonce_from_u64 :: "u64 \<Rightarrow> bytes \<times> bytes" where
  "convert_nonce_from_u64 nonce =
     (let b = to_be_bytes nonce in (b, replicate 4 (CHR 0x00) @ b))"

definition convert_nonce_from_small :: "bytes \<Rightarrow> error + (u64 \<times> bytes)" where
  "convert_nonce_from_small b =
     (if length b \<noteq> 8 then Inl (identity_error InvalidNonce)
      else let nonce = from_be_bytes b in Inr (nonce, snd (convert_nonce_from_u64 nonce)))"

subsection \<open>The encryptor\<close>

record Encryptor =
  enc_key :: KeyId
  enc_nonce :: u64

definition Encryptor_new :: "KeyId \<Rightarrow> u64 \<Rightarrow> Encryptor" where
  "Encryptor_new k n = \<lparr>enc_key = k, enc_nonce = n\<rparr>"

definition rekey :: "('v, 'x) XXInitializedVault_scheme \<Rightarrow> KeyId \<Rightarrow> ('v, error, KeyId) state_exec" where
  "rekey vault key =
     run_bind (xx_encrypt vault key (replicate 32 (CHR 0x00)) (snd (convert_nonce_from_u64 (- 1))) [])
       (\<lambda>new_key_buffer.
     run_bind (xx_attributes vault key) (\<lambda>att.
     if length new_key_buffer < 32 then run_panic ''range end index out of range''
     else xx_import vault (take 32 new_key_buffer) att))"

definition renew_key :: "('v, 'x) XXInitializedVault_scheme \<Rightarrow> ('v \<times> Encryptor, error, unit) state_exec" where
  "renew_key vault =
     run_bind run_get (\<lambda>self.
     run_bind (run_fst (rekey vault (enc_key self))) (\<lambda>new_key.
     run_then (run_put (self\<lparr>enc_key := new_key\<rparr>))
     (run_bind (run_fst (xx_delete vault (enc_key self))) (\<lambda>_. run_ok ()))))"

definition Encryptor_encrypt ::
  "('v, 'x) XXInitializedVault_scheme \<Rightarrow> bytes \<Rightarrow> ('v \<times> Encryptor, error, bytes) state_exec" where
  "Encryptor_encrypt vault payload =
     run_bind run_get (\<lambda>self.
     let cur = enc_nonce self in
     if cur = - 1 then run_err (identity_error NonceOverflow)
     else run_then (run_put (self\<lparr>enc_nonce := cur + 1\<rparr>))
     (run_then (if cur > 0 \<and> cur mod KEY_RENEWAL_INTERVAL = 0 then renew_key vault else run_ok ())
     (run_bind run_get (\<lambda>self.
      let (small_nonce, nonce) = convert_nonce_from_u64 cur in
      run_bind (run_fst (xx_encrypt vault (enc_key self) payload nonce [])) (\<lambda>cipher_text.
      run_ok (small_nonce @ cipher_text))))))"

definition Encryptor_shutdown ::
  "('v, 'x) XXInitializedVault_scheme \<Rightarrow> ('v \<times> Encryptor, error, unit) state_exec" where
  "Encryptor_shutdown vault =
     run_bind run_get (\<lambda>self.
     run_bind (run_fst (xx_delete vault (enc_key self))) (\<lambda>deleted.
     if \<not> deleted then run_err (ErrorCode_new OriginOckam KindInternal) else run_ok ()))"

subsection \<open>The decryptor\<close>

record Decryptor =
  key_tracker :: KeyTracker
  nonce_tracker :: NonceTracker

definition Decryptor_new :: "KeyId \<Rightarrow> Decryptor" where
  "Decryptor_new k =
     \<lparr>key_tracker = KeyTracker_new k KEY_RENEWAL_INTERVAL, nonce_tracker = NonceTracker_new\<rparr>"

definition commit_key ::
  "('v, 'x) XXInitializedVault_scheme \<Rightarrow> NonceTracker \<Rightarrow> KeyId \<Rightarrow> ('v \<times> Decryptor, error, unit) state_exec" where
  "commit_key vault nt key =
     run_bind run_get (\<lambda>self.
     let (key_to_delete, kt) = update_key (key_tracker self) key in
     run_then (run_put (self\<lparr>nonce_tracker := nt, key_tracker := kt\<rparr>))
     (case key_to_delete of
        None \<Rightarrow> run_ok ()
      | Some k \<Rightarrow> run_bind (run_fst (xx_delete vault k)) (\<lambda>_. run_ok ())))"

definition Decryptor_decrypt ::
  "('v, 'x) XXInitializedVault_scheme \<Rightarrow> bytes \<Rightarrow> ('v \<times> Decryptor, error, bytes) state_exec" where
  "Decryptor_decrypt vault payload =
     (if length payload < 8 then run_err (identity_error InvalidNonce)
      else run_bind run_get (\<lambda>self.
     run_bind (run_result (convert_nonce_from_small (take 8 payload))) (\<lambda>(nonce, nonce_buffer).
     run_bind (run_result (map_err identity_error (NonceTracker_mark (nonce_tracker self) nonce))) (\<lambda>nt.
     run_bind (run_result (map_err identity_error (get_key (key_tracker self) nonce))) (\<lambda>found.
     run_bind (case found of
         Some key \<Rightarrow> run_ok key
       | None \<Rightarrow> run_fst (rekey vault (current_key (key_tracker self)))) (\<lambda>key.
     run_bind (run_try (run_fst (xx_decrypt vault key (drop 8 payload) nonce_buffer []))) (\<lambda>result.
     run_then (if is_ok result then commit_key vault nt key else run_ok ())
     (run_result result))))))))"

definition Decryptor_shutdown ::
  "('v, 'x) XXInitializedVault_scheme \<Rightarrow> ('v \<times> Decryptor, error, unit) state_exec" where
  "Decryptor_shutdown vault =
     run_bind run_get (\<lambda>self.
     run_bind (run_fst (xx_delete vault (current_key (key_tracker self)))) (\<lambda>_.
     case previous_key (key_tracker self) of
       None \<Rightarrow> run_ok ()
     | Some k \<Rightarrow> run_bind (run_fst (xx_delete vault k)) (\<lambda>_. run_ok ())))"

subsection \<open>Nonce encoding\<close>

lemma le_bytes_value: "horner_sum of_char 256 (le_bytes k n) = n mod 256 ^ k"
proof (induction k arbitrary: n)
  case (Suc k)
  have "n mod (256 * 256 ^ k) = n mod 256 + 256 * (n div 256 mod 256 ^ k)"
    by (simp add: mod_mult2_eq)
  with Suc show ?case by simp
qed simp

lemma char_of_low_byte: "char_of (of_char a + 256 * (m :: nat)) = a"
proof -
  have "char_of (of_char a + 256 * m) = (char_of ((of_char a + 256 * m) mod 256) :: char)"
    by (simp only: char_of_mod_256)
  then show ?thesis by simp
qed

lemma le_bytes_of_value: "le_bytes (length b) (horner_sum of_char 256 b) = b"
  by (induction b) (simp_all add: char_of_low_byte)

lemma length_le_bytes [simp]: "length (le_bytes k n) = k"
  by (induction k arbitrary: n) simp_all

lemma horner_bytes_less: "horner_sum of_char 256 (b :: bytes) < (256 :: nat) ^ length b"
proof (induction b)
  case (Cons c b)
  have "of_char c < (256 :: nat)" by simp
  then have "of_char c + 256 * h < 256 * 256 ^ length b" if "h < 256 ^ length b" for h :: nat
    using that by linarith
  with Cons.IH show ?case by simp
qed simp

lemma length_to_be_bytes [simp]: "length (to_be_bytes n) = 8"
  by (simp add: to_be_bytes_def)

lemma from_to_be_bytes [simp]: "from_be_bytes (to_be_bytes n) = n"
proof -
  have "unat n mod 256 ^ 8 = unat n" using unsigned_less [of n, where 'a = nat] by simp
  then show ?thesis by (simp add: from_be_bytes_def to_be_bytes_def le_bytes_value)
qed

lemma to_from_be_bytes: "length b = 8 \<Longrightarrow> to_be_bytes (from_be_bytes b) = b"
proof -
  assume b: "length b = 8"
  then have "horner_sum of_char 256 (rev b) < (2 :: nat) ^ 64" using horner_bytes_less [of "rev b"] by simp
  then have "unat (from_be_bytes b) = horner_sum of_char 256 (rev b)"
    by (simp add: from_be_bytes_def unat_of_nat take_bit_eq_mod unsigned_of_nat)
  then show ?thesis using le_bytes_of_value [of "rev b"] b by (simp add: to_be_bytes_def)
qed

subsection \<open>Key generations\<close>

abbreviation nonce12 :: "u64 \<Rightarrow> bytes" where
  "nonce12 n \<equiv> snd (convert_nonce_from_u64 n)"

lemma fst_convert_nonce [simp]: "fst (convert_nonce_from_u64 n) = to_be_bytes n"
  by (simp add: convert_nonce_from_u64_def Let_def)

lemma length_nonce12 [simp]: "length (nonce12 n) = 12"
  by (simp add: convert_nonce_from_u64_def Let_def)

lemma convert_small:
  "length b = 8 \<Longrightarrow> convert_nonce_from_small b = Inr (from_be_bytes b, nonce12 (from_be_bytes b))"
  by (simp add: convert_nonce_from_small_def Let_def)

text \<open>The keys both ends derive one after the other from the first one.\<close>

primrec key_generation ::
  "(bytes \<Rightarrow> bytes \<Rightarrow> bytes \<Rightarrow> bytes \<Rightarrow> bytes option) \<Rightarrow> bytes \<Rightarrow> nat \<Rightarrow> bytes" where
  "key_generation seal k 0 = k"
| "key_generation seal k (Suc i) =
     take 32 (the (seal (key_generation seal k i) (nonce12 (- 1)) [] (replicate 32 (CHR 0x00))))"

text \<open>The key of a nonce.\<close>

abbreviation nonce_key ::
  "(bytes \<Rightarrow> bytes \<Rightarrow> bytes \<Rightarrow> bytes \<Rightarrow> bytes option) \<Rightarrow> bytes \<Rightarrow> u64 \<Rightarrow> bytes" where
  "nonce_key seal k n \<equiv> key_generation seal k (unat n div 32)"

lemma key_interval_mod: "n mod KEY_RENEWAL_INTERVAL = 0 \<longleftrightarrow> unat n mod 32 = 0"
proof -
  have "unat (n mod KEY_RENEWAL_INTERVAL) = unat n mod 32"
    by (simp add: KEY_RENEWAL_INTERVAL_def unat_mod_distrib)
  then show ?thesis by (metis unat_0 unat_eq_zero)
qed

lemma previous_generation:
  "0 < n \<Longrightarrow> n div 32 = (if n mod 32 = 0 then Suc ((n - 1) div 32) else (n - 1) div (32 :: nat))"
  by (cases n) (auto simp: div_Suc mod_Suc)

context symmetric_vault
begin

definition holds :: "'v \<Rightarrow> bytes \<Rightarrow> KeyId \<Rightarrow> nat \<Rightarrow> bool" where
  "holds v k0 k i \<longleftrightarrow> look v k = Some \<lparr>secret = key_generation seal k0 i, attributes = Aes256\<rparr>"

lemma length_key_generation:
  assumes "good b v" "length k0 = 32"
  shows "length (key_generation seal k0 i) = 32"
proof (induction i)
  case (Suc i)
  obtain c where "seal (key_generation seal k0 i) (nonce12 (- 1)) [] (replicate 32 (CHR 0x00)) = Some c"
      "length c = 48"
    using seal_law [OF assms(1) Suc, of "nonce12 (- 1)" "replicate 32 (CHR 0x00)" "[]"]
    by (auto simp: max_plaintext_def)
  then show ?case by simp
qed (simp add: assms)

lemma rekey_value:
  assumes v: "good (Suc b) v" "length k0 = 32" and k: "holds v k0 k i"
  obtains k' v' where "rekey ops k v = Inr (Inr k', v')" "good b v'" "look v k' = None"
    "look v' = (look v)(k' \<mapsto> \<lparr>secret = key_generation seal k0 (Suc i), attributes = Aes256\<rparr>)"
proof -
  let ?g = "key_generation seal k0 i" and ?z = "replicate 32 (CHR 0x00)"
  have g: "length ?g = 32" by (rule length_key_generation [OF v])
  obtain c where c: "seal ?g (nonce12 (- 1)) [] ?z = Some c" "length c = 48"
    using seal_law [OF v(1) g, of "nonce12 (- 1)" ?z "[]"] by (auto simp: max_plaintext_def)
  have enc: "xx_encrypt ops k ?z (nonce12 (- 1)) [] v = Inr (Inr c, v)"
    using encrypt_law [OF v(1) k [unfolded holds_def] g] c by (simp add: ok_or_def)
  have att: "xx_attributes ops k v = Inr (Inr Aes256, v)"
    using attributes_law k by (simp add: holds_def)
  obtain k' v' where imp: "xx_import ops (take 32 c) Aes256 v = Inr (Inr k', v')" "good b v'" "look v k' = None"
      "look v' = (look v)(k' \<mapsto> \<lparr>secret = take 32 c, attributes = Aes256\<rparr>)"
    using import_obtain [OF v(1), of Aes256 "take 32 c"] c(2) by (auto simp: vault_constants)
  have "rekey ops k v = Inr (Inr k', v')"
    using enc att imp(1) c(2) by (simp add: rekey_def run_simps)
  with imp c(1) show ?thesis by (intro that) simp_all
qed

definition encryptor_ok :: "bytes \<Rightarrow> nat \<Rightarrow> 'v \<Rightarrow> Encryptor \<Rightarrow> bool" where
  "encryptor_ok k0 b v e \<longleftrightarrow>
     good b v \<and> length k0 = 32 \<and> holds v k0 (enc_key e) ((unat (enc_nonce e) - 1) div 32)"

lemma renew_key_value:
  assumes v: "good (Suc b) v" "length k0 = 32" and k: "holds v k0 (enc_key e) i"
  obtains v' k' where "renew_key ops (v, e) = Inr (Inr (), (v', e\<lparr>enc_key := k'\<rparr>))"
    "good b v'" "holds v' k0 k' (Suc i)"
proof -
  obtain k' v1 where r: "rekey ops (enc_key e) v = Inr (Inr k', v1)" "good b v1" "look v k' = None"
      "look v1 = (look v)(k' \<mapsto> \<lparr>secret = key_generation seal k0 (Suc i), attributes = Aes256\<rparr>)"
    using rekey_value [OF v k] .
  obtain v2 where d: "xx_delete ops (enc_key e) v1 = Inr (Inr (look v1 (enc_key e) \<noteq> None), v2)" "good b v2"
      "look v2 = (look v1)(enc_key e := None)"
    using delete_obtain [OF r(2)] .
  have "k' \<noteq> enc_key e" using r(3) k by (auto simp: holds_def)
  then have "holds v2 k0 k' (Suc i)" using r(4) d(3) by (simp add: holds_def)
  moreover have "renew_key ops (v, e) = Inr (Inr (), (v2, e\<lparr>enc_key := k'\<rparr>))"
    using r(1) d(1) by (simp add: renew_key_def run_simps run_ok_def)
  ultimately show ?thesis using that d(2) by blast
qed

lemma encrypt_value:
  assumes ok: "encryptor_ok k0 (Suc b) v e" and n: "enc_nonce e \<noteq> - 1" and p: "length payload \<le> max_plaintext"
  shows "\<exists>c v' e'. seal (nonce_key seal k0 (enc_nonce e)) (nonce12 (enc_nonce e)) [] payload = Some c
    \<and> Encryptor_encrypt ops payload (v, e) = Inr (Inr (to_be_bytes (enc_nonce e) @ c), (v', e'))
    \<and> encryptor_ok k0 b v' e' \<and> enc_nonce e' = enc_nonce e + 1"
proof -
  let ?n = "enc_nonce e" and ?e1 = "e\<lparr>enc_nonce := enc_nonce e + 1\<rparr>"
  let ?renew = "?n > 0 \<and> ?n mod KEY_RENEWAL_INTERVAL = 0"
  let ?g = "nonce_key seal k0 ?n"
  have v: "good (Suc b) v" "length k0 = 32" using ok by (simp_all add: encryptor_ok_def)
  have suc: "unat (?n + 1) = Suc (unat ?n)" using n by (metis unatSuc add.commute eq_neg_iff_add_eq_0)
  obtain v1 k1 where step: "(if ?renew then renew_key ops else run_ok ()) (v, ?e1)
      = Inr (Inr (), (v1, ?e1\<lparr>enc_key := k1\<rparr>))" "good b v1" "holds v1 k0 k1 (unat ?n div 32)"
  proof (cases ?renew)
    case True
    then have g: "unat ?n div 32 = Suc ((unat ?n - 1) div 32)"
      using previous_generation [of "unat ?n"] key_interval_mod [of ?n] by (auto simp: unat_gt_0)
    have "holds v k0 (enc_key ?e1) ((unat ?n - 1) div 32)" using ok by (simp add: encryptor_ok_def)
    from renew_key_value [OF v this] obtain v' k' where
      "renew_key ops (v, ?e1) = Inr (Inr (), (v', ?e1\<lparr>enc_key := k'\<rparr>))" "good b v'"
      "holds v' k0 k' (Suc ((unat ?n - 1) div 32))" .
    with True g that show ?thesis by simp
  next
    case False
    then have "unat ?n div 32 = (unat ?n - 1) div 32"
      using previous_generation [of "unat ?n"] key_interval_mod [of ?n]
      by (cases "?n = 0") (auto simp: unat_gt_0 word_gt_0)
    with ok have "holds v k0 (enc_key e) (unat ?n div 32)" by (simp add: encryptor_ok_def)
    with False good_less [OF v(1)] that [of v "enc_key e"] show ?thesis by (auto simp: run_ok_def)
  qed
  obtain c where c: "seal ?g (nonce12 ?n) [] payload = Some c"
    using seal_law [OF v(1) length_key_generation [OF v] _ p, of "nonce12 ?n"] by auto
  have enc: "xx_encrypt ops k1 payload (nonce12 ?n) [] v1 = Inr (Inr c, v1)"
    using encrypt_law [OF step(2) step(3) [unfolded holds_def] length_key_generation [OF v]] c
    by (simp add: ok_or_def)
  have "Encryptor_encrypt ops payload (v, e)
      = Inr (Inr (to_be_bytes ?n @ c), (v1, ?e1\<lparr>enc_key := k1\<rparr>))"
    using n step(1) enc by (simp add: Encryptor_encrypt_def run_simps Let_def split_beta run_ok_def)
  moreover have "encryptor_ok k0 b v1 (?e1\<lparr>enc_key := k1\<rparr>)"
    using step v(2) suc by (simp add: encryptor_ok_def)
  ultimately show ?thesis using c by (intro exI conjI) auto
qed

definition decryptor_ok :: "bytes \<Rightarrow> nat \<Rightarrow> 'v \<Rightarrow> Decryptor \<Rightarrow> nat list \<Rightarrow> bool" where
  "decryptor_ok k0 b v d seen \<longleftrightarrow> good b v \<and> length k0 = 32 \<and> tracks (nonce_tracker d) seen
     \<and> key_tracker_ok (key_tracker d) \<and> \<not> max_rekeys_reached (key_tracker d)
     \<and> unat (number_of_rekeys (key_tracker d)) = highest seen div 32
     \<and> holds v k0 (current_key (key_tracker d)) (highest seen div 32)
     \<and> (\<forall>p. previous_key (key_tracker d) = Some p \<longrightarrow> holds v k0 p (highest seen div 32 - 1))"

text \<open>A vault that only gained a secret.\<close>

definition gained :: "'v \<Rightarrow> 'v \<Rightarrow> KeyId \<Rightarrow> StoredSecret \<Rightarrow> bool" where
  "gained v v' k st \<longleftrightarrow> look v k = None \<and> look v' = (look v)(k \<mapsto> st)"

lemma decryptor_ok_gained:
  assumes "decryptor_ok k0 b v d seen" "good b' v'" "gained v v' k st"
  shows "decryptor_ok k0 b' v' d seen"
  using assms by (auto simp: decryptor_ok_def gained_def holds_def)

text \<open>The key the decryptor tries: one it has, or a new one for the next interval.\<close>

lemma decryptor_ok_less: "decryptor_ok k0 (Suc b) v d seen \<Longrightarrow> decryptor_ok k0 b v d seen"
  by (auto simp: decryptor_ok_def good_less)

lemma decryption_key:
  assumes ok: "decryptor_ok k0 (Suc b) v d seen" and n: "window_accepts seen (unat n)"
  defines "r \<equiv> highest seen div 32"
  obtains found key v1 where
    "get_key (key_tracker d) n = Inr found"
    "(case found of Some key \<Rightarrow> run_ok key
        | None \<Rightarrow> run_fst (rekey ops (current_key (key_tracker d)))) (v, d) = Inr (Inr key, (v1, d))"
    "holds v1 k0 key (unat n div 32)" "decryptor_ok k0 b v1 d seen"
    "if unat n div 32 = Suc r
     then gained v v1 key \<lparr>secret = key_generation seal k0 (Suc r), attributes = Aes256\<rparr>
     else v1 = v \<and> (key = current_key (key_tracker d) \<or> previous_key (key_tracker d) = Some key)"
proof (cases "unat n div 32 = Suc r")
  case True
  have kt: "key_tracker_ok (key_tracker d)" "\<not> max_rekeys_reached (key_tracker d)"
      "unat (number_of_rekeys (key_tracker d)) = r" "holds v k0 (current_key (key_tracker d)) r"
    using ok by (simp_all add: decryptor_ok_def r_def)
  obtain k' v' where k': "rekey ops (current_key (key_tracker d)) v = Inr (Inr k', v')" "good b v'" "look v k' = None"
      "look v' = (look v)(k' \<mapsto> \<lparr>secret = key_generation seal k0 (Suc r), attributes = Aes256\<rparr>)"
    using rekey_value [OF _ _ kt(4)] ok by (auto simp: decryptor_ok_def)
  then have gained: "gained v v' k' \<lparr>secret = key_generation seal k0 (Suc r), attributes = Aes256\<rparr>"
    by (simp add: gained_def)
  moreover have "holds v' k0 k' (unat n div 32)" using k'(4) True by (simp add: holds_def)
  moreover have "get_key (key_tracker d) n = Inr None"
    using get_key_interval [OF kt(1,2)] kt(3) True by simp
  ultimately show ?thesis
    using that [of None k' v'] True k'(1) decryptor_ok_gained [OF ok k'(2) gained] by (simp add: run_simps)
next
  case False
  have kt: "key_tracker_ok (key_tracker d)" "\<not> max_rekeys_reached (key_tracker d)"
      "unat (number_of_rekeys (key_tracker d)) = r"
    using ok by (simp_all add: decryptor_ok_def r_def)
  have interval: "unat n div 32 = r \<or> Suc (unat n div 32) = r"
    using n False by (auto simp: window_accepts_def r_def)
  have prev: "previous_key (key_tracker d) \<noteq> None" if "0 < r"
    using kt that by (auto simp: key_tracker_ok_def)
  define key where "key = (if unat n div 32 = r then current_key (key_tracker d)
    else the (previous_key (key_tracker d)))"
  have "get_key (key_tracker d) n = Inr (Some key)"
    using get_key_interval [OF kt(1,2)] kt(3) interval prev by (auto simp: key_def)
  moreover have "unat n div 32 = r - 1" if "unat n div 32 \<noteq> r" using that interval by simp
  then have "holds v k0 key (unat n div 32)"
    using ok interval prev by (auto simp: decryptor_ok_def r_def key_def)
  moreover have "key = current_key (key_tracker d) \<or> previous_key (key_tracker d) = Some key"
    using interval prev by (auto simp: key_def)
  ultimately show ?thesis using that [of "Some key" key v] decryptor_ok_less [OF ok] False by (simp add: run_ok_def)
qed

lemma highest_interval:
  assumes "window_accepts seen n"
  shows "highest (n # seen) div 32 =
    (if n div 32 = Suc (highest seen div 32) then Suc (highest seen div 32) else highest seen div 32)"
proof (cases "n \<le> highest seen")
  case True
  then have "n div 32 \<le> highest seen div 32" by (rule div_le_mono)
  with True show ?thesis by simp
next
  case False
  have "n div 32 \<le> (highest seen + 32) div 32"
    using assms by (intro div_le_mono) (simp add: window_accepts_def)
  moreover have "highest seen div 32 \<le> n div 32" using False by (intro div_le_mono) simp
  ultimately have "n div 32 \<noteq> Suc (highest seen div 32) \<Longrightarrow> n div 32 = highest seen div 32" by simp
  with False show ?thesis by simp
qed

lemma commit_known:
  assumes "decryptor_ok k0 b v d seen" "key = current_key (key_tracker d) \<or> previous_key (key_tracker d) = Some key"
    "window_accepts seen n" "n div 32 \<noteq> Suc (highest seen div 32)" "tracks nt (n # seen)"
  shows "\<exists>v' d'. commit_key ops nt key (v, d) = Inr (Inr (), (v', d')) \<and> decryptor_ok k0 b v' d' (n # seen)"
  using assms(1,4,5) highest_interval [OF assms(3)] update_key_known [OF assms(2)]
  by (auto simp: commit_key_def run_simps run_ok_def decryptor_ok_def)

lemma commit_new:
  assumes ok: "decryptor_ok k0 b v d seen" and key: "holds v k0 key (Suc (highest seen div 32))"
    "key \<noteq> current_key (key_tracker d)" "previous_key (key_tracker d) \<noteq> Some key"
    and n: "window_accepts seen n" "n div 32 = Suc (highest seen div 32)" "n < 2 ^ 64"
    and nt: "tracks nt (n # seen)"
  shows "\<exists>v' d'. commit_key ops nt key (v, d) = Inr (Inr (), (v', d')) \<and> decryptor_ok k0 b v' d' (n # seen)"
proof -
  let ?t = "key_tracker d" and ?r = "highest seen div 32"
  let ?t' = "?t\<lparr>previous_key := Some (current_key ?t), current_key := key,
                number_of_rekeys := number_of_rekeys ?t + 1\<rparr>"
  let ?d' = "d\<lparr>nonce_tracker := nt, key_tracker := ?t'\<rparr>"
  have t: "key_tracker_ok ?t" "\<not> max_rekeys_reached ?t" "unat (number_of_rekeys ?t) = ?r" "good b v"
      "previous_key ?t \<noteq> Some (current_key ?t)"
    using ok by (simp_all add: decryptor_ok_def key_tracker_ok_def)
  have "Suc ?r * 32 \<le> n" using n(2) div_times_less_eq_dividend [of n 32] by simp
  then have fits: "Suc ?r * 32 < 2 ^ 64" using n(3) by simp
  then have suc: "unat (number_of_rekeys ?t + 1) = Suc ?r" using t(3) by (simp add: unat_word_ariths)
  have upd: "update_key ?t key = (previous_key ?t, ?t')"
    using update_key_new [OF t(1,2) key(2,3)] t(3) fits by simp
  have t': "key_tracker_ok ?t'"
    using t suc fits key by (auto simp: key_tracker_ok_def)
  have hi: "highest (n # seen) div 32 = Suc ?r" using highest_interval [OF n(1)] n(2) by simp
  have inv: "decryptor_ok k0 b v' ?d' (n # seen)"
    if "good b v'" "holds v' k0 key (Suc ?r)" "holds v' k0 (current_key ?t) ?r" for v'
    using that t' t suc nt hi ok by (simp add: decryptor_ok_def del: highest.simps)
  show ?thesis
  proof (cases "previous_key ?t")
    case None
    then show ?thesis using upd inv [of v] t(4) key(1) ok
      by (auto simp: commit_key_def run_simps run_ok_def decryptor_ok_def)
  next
    case (Some p)
    obtain v2 where "xx_delete ops p v = Inr (Inr (look v p \<noteq> None), v2)" "good b v2" "look v2 = (look v)(p := None)"
      using delete_obtain [OF t(4)] .
    with Some upd inv [of v2] key ok t(5) show ?thesis
      by (auto simp: commit_key_def run_simps run_ok_def decryptor_ok_def holds_def)
  qed
qed

lemma commit_value:
  assumes ok: "decryptor_ok k0 (Suc b) v d seen" "decryptor_ok k0 b v1 d seen" and n: "window_accepts seen (unat (n :: u64))"
    and nt: "tracks nt (unat n # seen)" and key: "holds v1 k0 key (unat n div 32)"
    "if unat n div 32 = Suc (highest seen div 32) then gained v v1 key st
     else v1 = v \<and> (key = current_key (key_tracker d) \<or> previous_key (key_tracker d) = Some key)"
  shows "\<exists>v' d'. commit_key ops nt key (v1, d) = Inr (Inr (), (v', d')) \<and> decryptor_ok k0 b v' d' (unat n # seen)"
proof (cases "unat n div 32 = Suc (highest seen div 32)")
  case True
  then have "look v key = None" using key(2) by (simp add: gained_def)
  then have "key \<noteq> current_key (key_tracker d)" "previous_key (key_tracker d) \<noteq> Some key"
    using ok(1) by (auto simp: decryptor_ok_def holds_def)
  moreover have "unat n < 2 ^ 64" using unsigned_less [of n, where 'a = nat] by simp
  ultimately show ?thesis using commit_new [OF ok(2) _ _ _ n True _ nt] key(1) True by simp
next
  case False
  with key(2) commit_known [OF ok(2) _ n _ nt] show ?thesis by auto
qed

text \<open>The decryptor by its specification.\<close>

lemma decrypt_value:
  assumes ok: "decryptor_ok k0 (Suc b) v d seen" and len: "8 \<le> length payload"
  defines "n \<equiv> from_be_bytes (take 8 payload)"
  shows "if \<not> window_accepts seen (unat n)
    then Decryptor_decrypt ops payload (v, d) = Inr (Inl (identity_error InvalidNonce), (v, d))
    else case unseal (nonce_key seal k0 n) (nonce12 n) [] (drop 8 payload) of
      Some m \<Rightarrow> \<exists>v' d'. Decryptor_decrypt ops payload (v, d) = Inr (Inr m, (v', d'))
                  \<and> decryptor_ok k0 b v' d' (unat n # seen)
    | None \<Rightarrow> \<exists>v'. Decryptor_decrypt ops payload (v, d) = Inr (Inl (vault_error AeadAesGcmDecrypt), (v', d))
                \<and> decryptor_ok k0 b v' d seen
                \<and> (if unat n div 32 = Suc (highest seen div 32)
                   then \<exists>k. gained v v' k \<lparr>secret = nonce_key seal k0 n, attributes = Aes256\<rparr> else v' = v)"
proof (cases "window_accepts seen (unat n)")
  case False
  then have "NonceTracker_mark (nonce_tracker d) n = Inl InvalidNonce"
    using mark_window [of "nonce_tracker d" seen n] ok by (simp add: decryptor_ok_def)
  with False len show ?thesis
    by (simp add: Decryptor_decrypt_def run_simps convert_small n_def map_err_def run_err_def)
next
  case True
  obtain nt where nt: "NonceTracker_mark (nonce_tracker d) n = Inr nt" "tracks nt (unat n # seen)"
    using mark_window [of "nonce_tracker d" seen n] ok True by (auto simp: decryptor_ok_def)
  obtain found key v1 where k: "get_key (key_tracker d) n = Inr found"
      "(case found of Some key \<Rightarrow> run_ok key
          | None \<Rightarrow> run_fst (rekey ops (current_key (key_tracker d)))) (v, d) = Inr (Inr key, (v1, d))"
      "holds v1 k0 key (unat n div 32)" "decryptor_ok k0 b v1 d seen"
      "if unat n div 32 = Suc (highest seen div 32)
       then gained v v1 key \<lparr>secret = key_generation seal k0 (Suc (highest seen div 32)), attributes = Aes256\<rparr>
       else v1 = v \<and> (key = current_key (key_tracker d) \<or> previous_key (key_tracker d) = Some key)"
    using decryption_key [OF ok True] .
  have v1: "good b v1" "length k0 = 32" using k(4) by (simp_all add: decryptor_ok_def)
  define r where "r = ok_or (unseal (nonce_key seal k0 n) (nonce12 n) [] (drop 8 payload))
    (vault_error AeadAesGcmDecrypt)"
  have dec: "xx_decrypt ops key (drop 8 payload) (nonce12 n) [] v1 = Inr (r, v1)"
    using decrypt_law [OF v1(1) k(3) [unfolded holds_def] length_key_generation [OF v1]] by (simp add: r_def)
  have run: "Decryptor_decrypt ops payload (v, d)
      = run_then (if is_ok r then commit_key ops nt key else run_ok ()) (run_result r) (v1, d)"
    using len nt(1) k(1,2) dec by (simp add: Decryptor_decrypt_def run_simps convert_small n_def map_err_def)
  show ?thesis
  proof (cases "unseal (nonce_key seal k0 n) (nonce12 n) [] (drop 8 payload)")
    case None
    then have "Decryptor_decrypt ops payload (v, d) = Inr (Inl (vault_error AeadAesGcmDecrypt), (v1, d))"
      by (simp add: run r_def ok_or_def is_ok_def run_simps run_err_def)
    with None True k show ?thesis by (auto split: if_splits)
  next
    case (Some m)
    then have "Decryptor_decrypt ops payload (v, d) = run_then (commit_key ops nt key) (run_ok m) (v1, d)"
      by (simp add: run r_def ok_or_def is_ok_def run_simps)
    with Some True commit_value [OF ok k(4) True nt(2) k(3,5)] show ?thesis
      by (auto simp: run_simps run_ok_def)
  qed
qed

text \<open>A packet that encrypts \<open>m\<close> under nonce \<open>n\<close>.\<close>

definition genuine :: "bytes \<Rightarrow> u64 \<Rightarrow> bytes \<Rightarrow> bytes \<Rightarrow> bool" where
  "genuine k0 n m packet \<longleftrightarrow>
     (\<exists>c. seal (nonce_key seal k0 n) (nonce12 n) [] m = Some c \<and> packet = to_be_bytes n @ c)"

lemma encrypt_all_genuine:
  assumes "encryptor_ok k0 b v e" "length ms \<le> b" "unat (enc_nonce e) + length ms < 2 ^ 64"
    "\<forall>m \<in> set ms. length m \<le> max_plaintext"
  shows "\<exists>ps v' e'. run_map (Encryptor_encrypt ops) ms (v, e) = Inr (Inr ps, (v', e'))
    \<and> list_all2 (\<lambda>(n, m) p. genuine k0 n m p)
        (zip (map (\<lambda>i. enc_nonce e + of_nat i) [0..<length ms]) ms) ps"
  using assms
proof (induction ms arbitrary: v e b)
  case (Cons m ms)
  let ?n = "enc_nonce e"
  obtain b' where b: "b = Suc b'" using Cons.prems(2) by (cases b) auto
  have n: "?n \<noteq> - 1" using Cons.prems(3) by (auto simp: unsigned_minus_1_eq_mask mask_eq_exp_minus_1)
  then have suc: "unat (?n + 1) = Suc (unat ?n)" by (metis unatSuc add.commute eq_neg_iff_add_eq_0)
  obtain c v1 e1 where step: "seal (nonce_key seal k0 ?n) (nonce12 ?n) [] m = Some c"
      "Encryptor_encrypt ops m (v, e) = Inr (Inr (to_be_bytes ?n @ c), (v1, e1))"
      "encryptor_ok k0 b' v1 e1" "enc_nonce e1 = ?n + 1"
    using encrypt_value [of k0 b' v e m] Cons.prems(1,4) n by (auto simp: b)
  obtain ps v' e' where rest: "run_map (Encryptor_encrypt ops) ms (v1, e1) = Inr (Inr ps, (v', e'))"
      "list_all2 (\<lambda>(n, m) p. genuine k0 n m p)
         (zip (map (\<lambda>i. ?n + 1 + of_nat i) [0..<length ms]) ms) ps"
    using Cons.IH [OF step(3)] Cons.prems step(4) suc by (auto simp: b)
  have nonces: "map (\<lambda>i. ?n + of_nat i) [0..<length (m # ms)]
      = ?n # map (\<lambda>i. ?n + 1 + of_nat i) [0..<length ms]"
    by (simp add: upt_conv_Cons map_Suc_upt [symmetric] comp_def del: upt_Suc)
  have "genuine k0 ?n m (to_be_bytes ?n @ c)" using step(1) by (simp add: genuine_def)
  with rest(2) nonces have "list_all2 (\<lambda>(n, m) p. genuine k0 n m p)
      (zip (map (\<lambda>i. ?n + of_nat i) [0..<length (m # ms)]) (m # ms)) ((to_be_bytes ?n @ c) # ps)"
    by simp
  moreover have "run_map (Encryptor_encrypt ops) (m # ms) (v, e)
      = Inr (Inr ((to_be_bytes ?n @ c) # ps), (v', e'))"
    using step(2) rest(1) by (simp add: run_simps run_ok_def)
  ultimately show ?case by blast
qed (simp add: run_ok_def)

lemma decrypt_genuine:
  assumes ok: "decryptor_ok k0 (Suc b) v d seen" and p: "genuine k0 n m p"
  obtains v' d' where
    "run_try (Decryptor_decrypt ops p) (v, d) = Inr (Inr
       (if window_accepts seen (unat n) then Inr m else Inl (identity_error InvalidNonce)), (v', d'))"
    "decryptor_ok k0 b v' d' (if window_accepts seen (unat n) then unat n # seen else seen)"
proof -
  obtain c where c: "seal (nonce_key seal k0 n) (nonce12 n) [] m = Some c" "p = to_be_bytes n @ c"
    using p by (auto simp: genuine_def)
  have v: "good (Suc b) v" "length k0 = 32" using ok by (simp_all add: decryptor_ok_def)
  have u: "unseal (nonce_key seal k0 n) (nonce12 n) [] c = Some m"
    using unseal_law [OF v(1) length_key_generation [OF v]] c(1) by simp
  show ?thesis
  proof (cases "window_accepts seen (unat n)")
    case True
    with decrypt_value [OF ok, of p] c(2) u obtain v' d' where
      "Decryptor_decrypt ops p (v, d) = Inr (Inr m, (v', d'))" "decryptor_ok k0 b v' d' (unat n # seen)"
      by auto
    with True that show ?thesis by (simp add: run_simps)
  next
    case False
    with decrypt_value [OF ok, of p] c(2)
    have "Decryptor_decrypt ops p (v, d) = Inr (Inl (identity_error InvalidNonce), (v, d))" by simp
    with False that decryptor_ok_less [OF ok] show ?thesis by (simp add: run_simps)
  qed
qed

lemma decrypt_all_genuine:
  assumes "decryptor_ok k0 b v d seen" "length ps \<le> b" "list_all2 (\<lambda>(n, m) p. genuine k0 n m p) items ps"
  shows "\<exists>w. run_map (\<lambda>p. run_try (Decryptor_decrypt ops p)) ps (v, d)
    = Inr (Inr (map2 (\<lambda>m accepted. if accepted then Inr m else Inl (identity_error InvalidNonce))
        (map snd items) (window_run seen (map (\<lambda>x. unat (fst x)) items))), w)"
  using assms
proof (induction items arbitrary: ps v d b seen)
  case (Cons item items)
  obtain n m where item: "item = (n, m)" by (cases item)
  obtain p ps' where ps: "ps = p # ps'" "genuine k0 n m p"
      "list_all2 (\<lambda>(n, m) p. genuine k0 n m p) items ps'"
    using Cons.prems(3) item by (auto simp: list_all2_Cons1)
  obtain b' where b: "b = Suc b'" using Cons.prems(2) ps(1) by (cases b) auto
  obtain v' d' where step: "run_try (Decryptor_decrypt ops p) (v, d) = Inr (Inr
       (if window_accepts seen (unat n) then Inr m else Inl (identity_error InvalidNonce)), (v', d'))"
      "decryptor_ok k0 b' v' d' (if window_accepts seen (unat n) then unat n # seen else seen)"
    using decrypt_genuine [OF Cons.prems(1) [unfolded b] ps(2)] .
  from Cons.IH [OF step(2) _ ps(3)] Cons.prems(2) ps(1) b obtain w where
    "run_map (\<lambda>p. run_try (Decryptor_decrypt ops p)) ps' (v', d')
      = Inr (Inr (map2 (\<lambda>m accepted. if accepted then Inr m else Inl (identity_error InvalidNonce)) (map snd items)
          (window_run (if window_accepts seen (unat n) then unat n # seen else seen)
             (map (\<lambda>x. unat (fst x)) items))), w)"
    by auto
  with step(1) show ?case by (simp add: ps(1) item run_simps run_ok_def)
qed (simp add: run_ok_def)

lemma decryptor_ok_new:
  assumes "good b v" "length k0 = 32" "holds v k0 k 0"
  shows "decryptor_ok k0 b v (Decryptor_new k) []"
  using assms tracks_new key_tracker_ok_new [of k]
  by (simp add: decryptor_ok_def Decryptor_new_def KeyTracker_new_def)

text \<open>Whatever bytes arrive: every answer is a value, and an accepted packet is the encryption of
  the answer under a nonce not accepted before.\<close>

lemma decrypt_any:
  assumes ok: "decryptor_ok k0 (Suc b) v d seen"
  obtains r v' d' seen' where "run_try (Decryptor_decrypt ops p) (v, d) = Inr (Inr r, (v', d'))"
    "decryptor_ok k0 b v' d' seen'"
    "case r of Inl _ \<Rightarrow> seen' = seen
     | Inr m \<Rightarrow> \<exists>n. genuine k0 n m p \<and> unat n \<notin> set seen \<and> seen' = unat n # seen"
proof (cases "length p < 8")
  case True
  then have "Decryptor_decrypt ops p (v, d) = Inr (Inl (identity_error InvalidNonce), (v, d))"
    by (simp add: Decryptor_decrypt_def run_err_def)
  then show ?thesis
    using that [of "Inl (identity_error InvalidNonce)" v d seen] decryptor_ok_less [OF ok]
    by (simp add: run_simps)
next
  case False
  let ?n = "from_be_bytes (take 8 p)"
  have v: "good (Suc b) v" "length k0 = 32" using ok by (simp_all add: decryptor_ok_def)
  have p: "p = to_be_bytes ?n @ drop 8 p" using False to_from_be_bytes [of "take 8 p"] by simp
  note outcome = decrypt_value [OF ok, of p]
  consider "\<not> window_accepts seen (unat ?n)"
    | "window_accepts seen (unat ?n)" "unseal (nonce_key seal k0 ?n) (nonce12 ?n) [] (drop 8 p) = None"
    | m where "window_accepts seen (unat ?n)" "unseal (nonce_key seal k0 ?n) (nonce12 ?n) [] (drop 8 p) = Some m"
    by (cases "unseal (nonce_key seal k0 ?n) (nonce12 ?n) [] (drop 8 p)") auto
  then show ?thesis
  proof cases
    case 1
    with outcome False that [of "Inl (identity_error InvalidNonce)" v d seen] decryptor_ok_less [OF ok]
    show ?thesis by (simp add: run_simps)
  next
    case 2
    with outcome False obtain v' where
      "Decryptor_decrypt ops p (v, d) = Inr (Inl (vault_error AeadAesGcmDecrypt), (v', d))"
      "decryptor_ok k0 b v' d seen" by auto
    then show ?thesis
      using that [of "Inl (vault_error AeadAesGcmDecrypt)" v' d seen] by (simp add: run_simps)
  next
    case 3
    with outcome False obtain v' d' where d: "Decryptor_decrypt ops p (v, d) = Inr (Inr m, (v', d'))"
      "decryptor_ok k0 b v' d' (unat ?n # seen)" by auto
    have "seal (nonce_key seal k0 ?n) (nonce12 ?n) [] m = Some (drop 8 p)"
      using unseal_law [OF v(1) length_key_generation [OF v]] 3(2) by simp
    then have "genuine k0 ?n m p" using p by (auto simp: genuine_def)
    with d 3(1) that [of "Inr m" v' d' "unat ?n # seen"] show ?thesis
      by (auto simp: run_simps window_accepts_def)
  qed
qed

lemma decrypt_all_any:
  assumes "decryptor_ok k0 b v d seen" "length ps \<le> b"
  shows "\<exists>rs w. run_map (\<lambda>p. run_try (Decryptor_decrypt ops p)) ps (v, d) = Inr (Inr rs, w)
    \<and> list_all2 (\<lambda>r p. \<forall>m. r = Inr m \<longrightarrow> (\<exists>n. genuine k0 n m p)) rs ps
    \<and> distinct (map (\<lambda>(r, p). from_be_bytes (take 8 p)) (filter (\<lambda>(r, p). is_ok r) (zip rs ps)))
    \<and> set (map (\<lambda>(r, p). unat (from_be_bytes (take 8 p))) (filter (\<lambda>(r, p). is_ok r) (zip rs ps)))
        \<inter> set seen = {}"
  using assms
proof (induction ps arbitrary: v d b seen)
  case (Cons p ps)
  obtain b' where b: "b = Suc b'" using Cons.prems(2) by (cases b) auto
  obtain r v' d' seen' where step: "run_try (Decryptor_decrypt ops p) (v, d) = Inr (Inr r, (v', d'))"
      "decryptor_ok k0 b' v' d' seen'"
      "case r of Inl _ \<Rightarrow> seen' = seen
       | Inr m \<Rightarrow> \<exists>n. genuine k0 n m p \<and> unat n \<notin> set seen \<and> seen' = unat n # seen"
    using decrypt_any [OF Cons.prems(1) [unfolded b]] .
  obtain rs w where rest: "run_map (\<lambda>p. run_try (Decryptor_decrypt ops p)) ps (v', d') = Inr (Inr rs, w)"
      "list_all2 (\<lambda>r p. \<forall>m. r = Inr m \<longrightarrow> (\<exists>n. genuine k0 n m p)) rs ps"
      "distinct (map (\<lambda>(r, p). from_be_bytes (take 8 p)) (filter (\<lambda>(r, p). is_ok r) (zip rs ps)))"
      "set (map (\<lambda>(r, p). unat (from_be_bytes (take 8 p))) (filter (\<lambda>(r, p). is_ok r) (zip rs ps)))
         \<inter> set seen' = {}"
    using Cons.IH [OF step(2)] Cons.prems(2) b by auto
  have run: "run_map (\<lambda>p. run_try (Decryptor_decrypt ops p)) (p # ps) (v, d) = Inr (Inr (r # rs), w)"
    using step(1) rest(1) by (simp add: run_simps run_ok_def)
  show ?case
  proof (cases r)
    case (Inl e)
    with step(3) rest run show ?thesis by (intro exI [of _ "r # rs"] exI [of _ w]) (simp add: is_ok_def)
  next
    case (Inr m)
    with step(3) obtain n where n: "genuine k0 n m p" "unat n \<notin> set seen" "seen' = unat n # seen" by auto
    then have "from_be_bytes (take 8 p) = n" by (auto simp: genuine_def)
    with Inr n rest run show ?thesis
      by (intro exI [of _ "r # rs"] exI [of _ w]) (fastforce simp: is_ok_def)
  qed
qed (auto simp: run_ok_def)

text \<open>A packet that does not decrypt, under a nonce of the next interval: each time it arrives the
  vault keeps one more secret.\<close>

lemma refused_next_interval:
  assumes "decryptor_ok k0 b v d seen" "N \<le> b" "finite (dom (look v))" "8 \<le> length p"
    "window_accepts seen (unat n)" "unat n div 32 = Suc (highest seen div 32)"
    "n = from_be_bytes (take 8 p)" "unseal (nonce_key seal k0 n) (nonce12 n) [] (drop 8 p) = None"
  shows "\<exists>v'. run_map (\<lambda>p. run_try (Decryptor_decrypt ops p)) (replicate N p) (v, d)
      = Inr (Inr (replicate N (Inl (vault_error AeadAesGcmDecrypt))), (v', d))
    \<and> card (dom (look v')) = card (dom (look v)) + N"
  using assms
proof (induction N arbitrary: v b)
  case (Suc N)
  obtain b' where b: "b = Suc b'" using Suc.prems(2) by (cases b) auto
  obtain v1 k where v1: "Decryptor_decrypt ops p (v, d) = Inr (Inl (vault_error AeadAesGcmDecrypt), (v1, d))"
      "decryptor_ok k0 b' v1 d seen" "gained v v1 k \<lparr>secret = nonce_key seal k0 n, attributes = Aes256\<rparr>"
    using decrypt_value [OF Suc.prems(1) [unfolded b] Suc.prems(4)] Suc.prems(5-8) by auto
  then have dom: "dom (look v1) = insert k (dom (look v))" "k \<notin> dom (look v)" by (auto simp: gained_def)
  with Suc.IH [OF v1(2) _ _ Suc.prems(4-8)] Suc.prems(2,3) b obtain v' where
    "run_map (\<lambda>p. run_try (Decryptor_decrypt ops p)) (replicate N p) (v1, d)
      = Inr (Inr (replicate N (Inl (vault_error AeadAesGcmDecrypt))), (v', d))"
    "card (dom (look v')) = card (dom (look v1)) + N" by auto
  with v1(1) dom Suc.prems(3) show ?case by (auto simp: run_simps run_ok_def)
qed (simp add: run_ok_def)

end

subsection \<open>The channel\<close>

lemma highest_member: "seen \<noteq> [] \<Longrightarrow> highest seen \<in> set seen"
proof (induction seen)
  case (Cons x seen)
  then show ?case by (cases "seen = []") (auto simp: max_def)
qed simp

lemma highest_range: "set seen = {0..<k} \<Longrightarrow> highest seen = k - 1"
proof (cases k)
  case (Suc j)
  assume seen: "set seen = {0..<k}"
  then have "highest seen \<in> {0..<k}" "j \<le> highest seen"
    using highest_member [of seen] highest_upper [of j seen] Suc by (cases seen; auto)+
  with Suc show ?thesis by simp
qed simp

lemma window_in_order_from:
  "set seen = {0..<k} \<Longrightarrow> window_run seen [k..<k + n] = replicate n True"
proof (induction n arbitrary: seen k)
  case (Suc n)
  have "window_accepts seen k" using Suc.prems highest_range [OF Suc.prems] by (auto simp: window_accepts_def)
  moreover have "window_run (k # seen) [Suc k..<Suc k + n] = replicate n True"
    by (rule Suc.IH) (use Suc.prems in auto)
  ultimately show ?case by (simp add: upt_conv_Cons del: upt_Suc)
qed simp

lemma window_in_order: "window_run [] [0..<n] = replicate n True"
  using window_in_order_from [of "[]" 0 n] by simp

text \<open>A sender and a receiver that start from one key.\<close>

context symmetric_vault
begin

lemma delivery:
  assumes "good (length ms) va" "good (length order) vb"
    and "look va ka = Some \<lparr>secret = k0, attributes = Aes256\<rparr>"
    and "look vb kb = Some \<lparr>secret = k0, attributes = Aes256\<rparr>" "length k0 = 32"
    and "length ms < 2 ^ 64" "\<forall>m \<in> set ms. length m \<le> max_plaintext" "\<forall>i \<in> set order. i < length ms"
  shows "\<exists>packets sender receiver.
    run_map (Encryptor_encrypt ops) ms (va, Encryptor_new ka 0) = Inr (Inr packets, sender)
    \<and> run_map (\<lambda>p. run_try (Decryptor_decrypt ops p)) (map (\<lambda>i. packets ! i) order) (vb, Decryptor_new kb)
      = Inr (Inr (map2 (\<lambda>i new. if new then Inr (ms ! i) else Inl (identity_error InvalidNonce))
          order (window_run [] order)), receiver)"
proof -
  have e: "encryptor_ok k0 (length ms) va (Encryptor_new ka 0)"
    using assms(1,3,5) by (simp add: encryptor_ok_def holds_def Encryptor_new_def)
  have d: "decryptor_ok k0 (length order) vb (Decryptor_new kb) []"
    using assms(2,4,5) by (intro decryptor_ok_new) (simp_all add: holds_def)
  obtain ps sender where ps: "run_map (Encryptor_encrypt ops) ms (va, Encryptor_new ka 0)
        = Inr (Inr ps, sender)"
      "list_all2 (\<lambda>(n, m) p. genuine k0 n m p) (zip (map of_nat [0..<length ms]) ms) ps"
    using encrypt_all_genuine [OF e, of ms] assms(6,7) by (auto simp: Encryptor_new_def)
  have "genuine k0 (of_nat i) (ms ! i) (ps ! i)" if "i < length ms" for i
    using list_all2_nthD [OF ps(2), of i] that by simp
  then have items: "list_all2 (\<lambda>(n, m) p. genuine k0 n m p)
      (map (\<lambda>i. (of_nat i, ms ! i)) order) (map (\<lambda>i. ps ! i) order)"
    using assms(8) by (auto simp: list_all2_conv_all_nth)
  have "unat (of_nat i :: u64) = i" if "i \<in> set order" for i
    using that assms(6,8) by (auto simp: unat_of_nat)
  then have nonces: "map (\<lambda>i. unat (of_nat i :: u64)) order = order" by (simp add: map_idI)
  show ?thesis
    using ps(1) decrypt_all_genuine [OF d _ items] nonces
    by (simp add: comp_def map_zip_map)
qed

end

text \<open>C5: end to end.  The sender encrypts any messages one after the other, the network delivers any
  selection of the packets in any order and with any repetitions.  The receiver answers
  each packet with exactly its message if the packet is new and within 32 of the newest one it has
  accepted, and with the nonce error otherwise; packets that arrive in order all get through.
  The two ends start from the same key in their own vaults, go through any number of key
  renewals, and nothing else fails on the way.\<close>

theorem secure_channel_delivery:
  assumes "vault_good c (length ms) va" "vault_good c (length order) vb"
    and "look_up va ka = Some \<lparr>secret = k0, attributes = Aes256\<rparr>"
    and "look_up vb kb = Some \<lparr>secret = k0, attributes = Aes256\<rparr>" "length k0 = 32"
    and "length ms < 2 ^ 64" "\<forall>m \<in> set ms. length m \<le> max_plaintext" "\<forall>i \<in> set order. i < length ms"
  shows "\<exists>packets sender receiver.
    run_map (Encryptor_encrypt (to_xx_initialized c)) ms (va, Encryptor_new ka 0) = Inr (Inr packets, sender)
    \<and> run_map (\<lambda>p. run_try (Decryptor_decrypt (to_xx_initialized c) p))
        (map (\<lambda>i. packets ! i) order) (vb, Decryptor_new kb)
      = Inr (Inr (map2 (\<lambda>i new. if new then Inr (ms ! i) else Inl (identity_error InvalidNonce))
          order (window_run [] order)), receiver)
    \<and> window_run [] [0..<length ms] = replicate (length ms) True"
  using cv.delivery [OF assms] window_in_order by blast

theorem secure_channel_delivery_witness:
  "\<exists>packets sender receiver.
    run_map (Encryptor_encrypt (to_xx_initialized sample_crypto)) [''ping'', ''pong'']
      (sample_vault, Encryptor_new ''session'' 0) = Inr (Inr packets, sender)
    \<and> run_map (\<lambda>p. run_try (Decryptor_decrypt (to_xx_initialized sample_crypto) p))
        (map (\<lambda>i. packets ! i) [1, 0, 1]) (sample_vault, Decryptor_new ''session'')
      = Inr (Inr [Inr ''pong'', Inr ''ping'', Inl (identity_error InvalidNonce)], receiver)"
proof -
  let ?ms = "[''ping'', ''pong'']" and ?order = "[1, 0, 1] :: nat list"
  have answers: "map2 (\<lambda>i new. if new then Inr (?ms ! i) else Inl (identity_error InvalidNonce))
      ?order (window_run [] ?order) = [Inr ''pong'', Inr ''ping'', Inl (identity_error InvalidNonce)]"
    by (simp add: window_accepts_def)
  have good: "vault_good sample_crypto (length ?ms) sample_vault"
      "vault_good sample_crypto (length ?order) sample_vault"
    by (rule sample_vault_good, simp)+
  have "length ?ms < 2 ^ 64" "\<forall>m \<in> set ?ms. length m \<le> max_plaintext" "\<forall>i \<in> set ?order. i < length ?ms"
    by (simp_all add: max_plaintext_def)
  from secure_channel_delivery [OF good sample_session(1,1,2) this] show ?thesis
    unfolding answers by blast
qed

text \<open>C6: what an attacker can get through.  Whatever byte strings reach a new decryptor, it answers
  every one of them without a panic, what it accepts as message \<open>m\<close> is the AES-GCM encryption of
  \<open>m\<close> under the nonce in front and the key generation of that nonce, and no nonce is
  accepted twice.\<close>

theorem decryptor_accepts_genuine_once:
  assumes "vault_good c (length ps) v" "look_up v k = Some \<lparr>secret = k0, attributes = Aes256\<rparr>" "length k0 = 32"
  shows "\<exists>rs w. run_map (\<lambda>p. run_try (Decryptor_decrypt (to_xx_initialized c) p)) ps (v, Decryptor_new k)
        = Inr (Inr rs, w)
    \<and> list_all2 (\<lambda>r p. \<forall>m. r = Inr m \<longrightarrow> (\<exists>n ct.
         aes256_gcm_encrypt c (nonce_key (aes256_gcm_encrypt c) k0 n) (nonce12 n) [] m = Some ct
         \<and> p = to_be_bytes n @ ct)) rs ps
    \<and> distinct (map (\<lambda>(r, p). from_be_bytes (take 8 p)) (filter (\<lambda>(r, p). is_ok r) (zip rs ps)))"
proof -
  have "cv.decryptor_ok c k0 (length ps) v (Decryptor_new k) []"
    using assms by (intro cv.decryptor_ok_new) (simp_all add: cv.holds_def)
  from cv.decrypt_all_any [OF this order_refl] show ?thesis unfolding cv.genuine_def by blast
qed

theorem decryptor_accepts_genuine_once_witness:
  "\<exists>rs w. run_map (\<lambda>p. run_try (Decryptor_decrypt (to_xx_initialized sample_crypto) p))
      [to_be_bytes 7 @ ''hello'' @ replicate 16 (CHR ''k''), ''forged'', to_be_bytes 7 @ ''hello'' @ replicate 16 (CHR ''k'')]
      (sample_vault, Decryptor_new ''session'') = Inr (Inr rs, w)
    \<and> list_all2 (\<lambda>r p. \<forall>m. r = Inr m \<longrightarrow> (\<exists>n ct.
         aes256_gcm_encrypt sample_crypto (nonce_key (aes256_gcm_encrypt sample_crypto) sample_key n)
           (nonce12 n) [] m = Some ct
         \<and> p = to_be_bytes n @ ct)) rs
        [to_be_bytes 7 @ ''hello'' @ replicate 16 (CHR ''k''), ''forged'', to_be_bytes 7 @ ''hello'' @ replicate 16 (CHR ''k'')]"
proof -
  let ?ps = "[to_be_bytes 7 @ ''hello'' @ replicate 16 (CHR ''k''), ''forged'',
    to_be_bytes 7 @ ''hello'' @ replicate 16 (CHR ''k'')]"
  have "vault_good sample_crypto (length ?ps) sample_vault" by (rule sample_vault_good) simp
  from decryptor_accepts_genuine_once [OF this sample_session] show ?thesis by blast
qed



end
