(* ===== verification/Handshake.thy ===== *)
theory Handshake
  imports Secure_Channel Local_Info
begin

text \<open>
  The key exchange of a secure channel, a Noise XX handshake
  (\<open>ockam_identity/src/secure_channel/handshake/handshake.rs\<close>): the handshake state with its keys in
  the vault, the encoding and decoding of the three messages, and the final keys.

  Every operation works on a copy of the state and stores it back at the end, so an error leaves
  the state as it was; what it did to the vault stays done (\<open>on_copy\<close>).  The state of a computation
  is the vault together with the handshake state.
\<close>

subsection \<open>Errors and roles\<close>

datatype XXError = InternalVaultError | MessageLenMismatch | XXInvalidInternalState

fun xx_error :: "XXError \<Rightarrow> error" where
  "xx_error InternalVaultError = ErrorCode_new OriginKeyExchange KindInternal"
| "xx_error MessageLenMismatch = ErrorCode_new OriginKeyExchange KindMisuse"
| "xx_error XXInvalidInternalState = ErrorCode_new OriginKeyExchange KindInternal"

datatype Role = Initiator | Responder

fun is_initiator :: "Role \<Rightarrow> bool" where
  "is_initiator Initiator = True"
| "is_initiator Responder = False"

fun role_str :: "Role \<Rightarrow> string" where
  "role_str Initiator = ''initiator''"
| "role_str Responder = ''responder''"

subsection \<open>The handshake state\<close>

record HandshakeKeys =
  encryption_key :: KeyId
  decryption_key :: KeyId

datatype Status =
    Initial | WaitingForMessage1 | WaitingForMessage2 | WaitingForMessage3 | Ready HandshakeKeys

record HandshakeState =
  hs_s :: "KeyId option"
  hs_e :: "KeyId option"
  hs_k :: "KeyId option"
  hs_re :: "PublicKey option"
  hs_rs :: "PublicKey option"
  hs_n :: u64
  hs_h :: bytes
  hs_ck :: "KeyId option"
  hs_status :: Status

definition SHA256_SIZE_USIZE :: nat where "SHA256_SIZE_USIZE = 32"
definition SHA256_SIZE_U32 :: u32 where "SHA256_SIZE_U32 = 32"
definition AES_GCM_TAGSIZE_USIZE :: nat where "AES_GCM_TAGSIZE_USIZE = 16"

definition HandshakeState_new :: "KeyId \<Rightarrow> KeyId \<Rightarrow> HandshakeState" where
  "HandshakeState_new s e =
     \<lparr>hs_s = Some s, hs_e = Some e, hs_k = None, hs_re = None, hs_rs = None, hs_n = 0,
      hs_h = replicate SHA256_SIZE_USIZE (CHR 0x00), hs_ck = None, hs_status = Initial\<rparr>"

definition mix_hash :: "(bytes \<Rightarrow> bytes) \<Rightarrow> bytes \<Rightarrow> HandshakeState \<Rightarrow> HandshakeState" where
  "mix_hash sha d st = st\<lparr>hs_h := sha (hs_h st @ d)\<rparr>"

definition not_set :: error where
  "not_set = ErrorCode_new OriginKeyExchange KindInvalid"

type_synonym ('v, 'a) hs_run = "('v \<times> HandshakeState, error, 'a) state_exec"

definition run_modify :: "('s \<Rightarrow> 's) \<Rightarrow> ('v \<times> 's, 'e, unit) state_exec" where
  "run_modify f = run_bind run_get (\<lambda>s. run_put (f s))"

definition get_s :: "('v, KeyId) hs_run" where
  "get_s = run_bind run_get (\<lambda>st. run_result (ok_or (hs_s st) not_set))"

definition get_e :: "('v, KeyId) hs_run" where
  "get_e = run_bind run_get (\<lambda>st. run_result (ok_or (hs_e st) not_set))"

definition get_k :: "('v, KeyId) hs_run" where
  "get_k = run_bind run_get (\<lambda>st. run_result (ok_or (hs_k st) not_set))"

definition get_ck :: "('v, KeyId) hs_run" where
  "get_ck = run_bind run_get (\<lambda>st. run_result (ok_or (hs_ck st) not_set))"

definition get_re :: "('v, PublicKey) hs_run" where
  "get_re = run_bind run_get (\<lambda>st. run_result (ok_or (hs_re st) not_set))"

definition get_rs :: "('v, PublicKey) hs_run" where
  "get_rs = run_bind run_get (\<lambda>st. run_result (ok_or (hs_rs st) not_set))"

definition take_s :: "('v, KeyId) hs_run" where
  "take_s = run_bind run_get (\<lambda>st. run_then (run_put (st\<lparr>hs_s := None\<rparr>)) (run_result (ok_or (hs_s st) not_set)))"

definition take_e :: "('v, KeyId) hs_run" where
  "take_e = run_bind run_get (\<lambda>st. run_then (run_put (st\<lparr>hs_e := None\<rparr>)) (run_result (ok_or (hs_e st) not_set)))"

definition take_k :: "('v, KeyId) hs_run" where
  "take_k = run_bind run_get (\<lambda>st. run_then (run_put (st\<lparr>hs_k := None\<rparr>)) (run_result (ok_or (hs_k st) not_set)))"

definition take_ck :: "('v, KeyId) hs_run" where
  "take_ck = run_bind run_get (\<lambda>st. run_then (run_put (st\<lparr>hs_ck := None\<rparr>)) (run_result (ok_or (hs_ck st) not_set)))"

text \<open>\<open>let mut state = self.state.clone(); ...; self.state = state\<close>.\<close>

definition on_copy :: "('v, 'a) hs_run \<Rightarrow> ('v, 'a) hs_run" where
  "on_copy m w = (case m w of
     Inr (Inl e, w') \<Rightarrow> Inr (Inl e, (fst w', snd w))
   | r \<Rightarrow> r)"

subsection \<open>Reading messages\<close>

definition key_size :: nat where
  "key_size = CURVE25519_PUBLIC_LENGTH_USIZE"

definition encrypted_key_size :: nat where
  "encrypted_key_size = key_size + AES_GCM_TAGSIZE_USIZE"

definition read_start :: "bytes \<Rightarrow> nat \<Rightarrow> error + bytes" where
  "read_start message n =
     (if length message < n then Inl (xx_error MessageLenMismatch) else Inr (take n message))"

definition read_end :: "bytes \<Rightarrow> nat \<Rightarrow> error + bytes" where
  "read_end message drop_length =
     (if length message < drop_length then Inl (xx_error MessageLenMismatch)
      else Inr (drop drop_length message))"

definition read_middle :: "bytes \<Rightarrow> nat \<Rightarrow> nat \<Rightarrow> error + bytes" where
  "read_middle message drop_length n =
     (if length message < drop_length + n then Inl (xx_error MessageLenMismatch)
      else Inr (take n (drop drop_length message)))"

definition read_key :: "bytes \<Rightarrow> error + bytes" where
  "read_key message = read_start message key_size"

definition read_message1_payload :: "bytes \<Rightarrow> error + bytes" where
  "read_message1_payload message = read_end message key_size"

definition read_message2_encrypted_key :: "bytes \<Rightarrow> error + bytes" where
  "read_message2_encrypted_key message = read_middle message key_size encrypted_key_size"

definition read_message2_payload :: "bytes \<Rightarrow> error + bytes" where
  "read_message2_payload message = read_end message (key_size + encrypted_key_size)"

definition read_message3_encrypted_key :: "bytes \<Rightarrow> error + bytes" where
  "read_message3_encrypted_key message = read_start message encrypted_key_size"

definition read_message3_payload :: "bytes \<Rightarrow> error + bytes" where
  "read_message3_payload message = read_end message encrypted_key_size"

subsection \<open>Keys\<close>

definition protocol_name :: bytes where
  "protocol_name = ''Noise_XX_25519_AESGCM_SHA256'' @ replicate 4 (CHR 0x00)"

definition ck_attributes :: SecretAttributes where
  "ck_attributes = Buffer SHA256_SIZE_U32"

definition k_attributes :: SecretAttributes where
  "k_attributes = Aes256"

definition generate_ephemeral_key :: "('v, 'x) XXVault_scheme \<Rightarrow> ('v, error, KeyId) state_exec" where
  "generate_ephemeral_key vault = xx_create vault X25519"

definition Handshake_new :: "('v, 'x) XXVault_scheme \<Rightarrow> KeyId \<Rightarrow> ('v, error, HandshakeState) state_exec" where
  "Handshake_new vault static_key =
     run_bind (generate_ephemeral_key vault) (\<lambda>e. run_ok (HandshakeState_new static_key e))"

definition import_k_secret :: "('v, 'x) XXVault_scheme \<Rightarrow> bytes \<Rightarrow> ('v, KeyId) hs_run" where
  "import_k_secret vault content = run_fst (xx_import vault content k_attributes)"

definition import_ck_secret :: "('v, 'x) XXVault_scheme \<Rightarrow> bytes \<Rightarrow> ('v, KeyId) hs_run" where
  "import_ck_secret vault content = run_fst (xx_import vault content ck_attributes)"

definition hs_public_key :: "('v, 'x) XXVault_scheme \<Rightarrow> KeyId \<Rightarrow> ('v, PublicKey) hs_run" where
  "hs_public_key vault key_id = run_fst (xx_public_key vault key_id)"

definition dh :: "('v, 'x) XXVault_scheme \<Rightarrow> KeyId \<Rightarrow> PublicKey \<Rightarrow> ('v, KeyId) hs_run" where
  "dh vault key_id pk = run_fst (xx_diffie_hellman vault key_id pk)"

definition hs_delete :: "('v, 'x) XXVault_scheme \<Rightarrow> KeyId \<Rightarrow> ('v, unit) hs_run" where
  "hs_delete vault k = run_bind (run_fst (xx_delete vault k)) (\<lambda>_. run_ok ())"

text \<open>\<open>let [a, b]: [KeyId; 2] = ...try_into()\<close>.\<close>

fun pair_of_keys :: "KeyId list \<Rightarrow> error + (KeyId \<times> KeyId)" where
  "pair_of_keys [a, b] = Inr (a, b)"
| "pair_of_keys _ = Inl (xx_error InternalVaultError)"

definition hkdf :: "('v, 'x) XXVault_scheme \<Rightarrow> KeyId \<Rightarrow> ('v, unit) hs_run" where
  "hkdf vault d =
     run_bind get_ck (\<lambda>ck.
     run_bind (run_fst (xx_hkdf vault ck [] (Some d) [ck_attributes, k_attributes])) (\<lambda>hkdf_output.
     run_then (hs_delete vault d)
     (run_bind (run_result (pair_of_keys hkdf_output)) (\<lambda>(new_ck, new_k).
     run_bind take_ck (\<lambda>old_ck.
     run_then (run_modify (\<lambda>st. st\<lparr>hs_ck := Some new_ck\<rparr>))
     (run_then (hs_delete vault old_ck)
     (run_bind take_k (\<lambda>old_k.
     run_then (run_modify (\<lambda>st. st\<lparr>hs_k := Some new_k\<rparr>))
     (run_then (hs_delete vault old_k)
     (run_modify (\<lambda>st. st\<lparr>hs_n := 0\<rparr>)))))))))))"

definition compute_final_keys :: "('v, 'x) XXVault_scheme \<Rightarrow> ('v, KeyId \<times> KeyId) hs_run" where
  "compute_final_keys vault =
     run_bind get_ck (\<lambda>ck.
     run_bind (run_fst (xx_hkdf vault ck [] None [k_attributes, k_attributes])) (\<lambda>hkdf_output.
     run_bind (run_result (pair_of_keys hkdf_output)) (\<lambda>(k1, k2).
     run_bind take_ck (\<lambda>old_ck.
     run_then (hs_delete vault old_ck)
     (run_bind take_k (\<lambda>old_k.
     run_then (hs_delete vault old_k)
     (run_ok (k1, k2))))))))"

definition hs_nonce :: "HandshakeState \<Rightarrow> bytes" where
  "hs_nonce st = replicate 4 (CHR 0x00) @ to_be_bytes (hs_n st)"

definition hash_and_decrypt ::
  "(bytes \<Rightarrow> bytes) \<Rightarrow> ('v, 'x) XXVault_scheme \<Rightarrow> bytes \<Rightarrow> ('v, bytes) hs_run" where
  "hash_and_decrypt sha vault ct =
     run_bind run_get (\<lambda>st.
     run_bind get_k (\<lambda>k.
     run_bind (run_fst (xx_decrypt vault k ct (hs_nonce st) (hs_h st))) (\<lambda>r.
     run_then (run_put ((mix_hash sha ct st)\<lparr>hs_n := hs_n st + 1\<rparr>))
     (run_ok r))))"

definition encrypt_and_hash ::
  "(bytes \<Rightarrow> bytes) \<Rightarrow> ('v, 'x) XXVault_scheme \<Rightarrow> bytes \<Rightarrow> ('v, bytes) hs_run" where
  "encrypt_and_hash sha vault p =
     run_bind run_get (\<lambda>st.
     run_bind get_k (\<lambda>k.
     run_bind (run_fst (xx_encrypt vault k p (hs_nonce st) (hs_h st))) (\<lambda>r.
     run_then (run_put ((mix_hash sha r st)\<lparr>hs_n := hs_n st + 1\<rparr>))
     (run_ok r))))"

definition delete_handshake_keys :: "('v, 'x) XXVault_scheme \<Rightarrow> ('v, unit) hs_run" where
  "delete_handshake_keys vault =
     run_bind take_s (\<lambda>s. run_bind take_e (\<lambda>e. run_each (hs_delete vault) [s, e]))"

subsection \<open>The three messages\<close>

definition Handshake_initialize :: "(bytes \<Rightarrow> bytes) \<Rightarrow> ('v, 'x) XXVault_scheme \<Rightarrow> ('v, unit) hs_run" where
  "Handshake_initialize sha vault = on_copy (
     run_then (run_modify (\<lambda>st. st\<lparr>hs_h := protocol_name\<rparr>))
     (run_bind (import_k_secret vault (replicate 32 (CHR 0x00))) (\<lambda>k.
     run_then (run_modify (\<lambda>st. st\<lparr>hs_k := Some k\<rparr>))
     (run_bind (import_ck_secret vault protocol_name) (\<lambda>ck.
     run_then (run_modify (\<lambda>st. st\<lparr>hs_ck := Some ck\<rparr>))
     (run_modify (\<lambda>st. st\<lparr>hs_h := sha (hs_h st)\<rparr>)))))))"

definition encode_message1 :: "(bytes \<Rightarrow> bytes) \<Rightarrow> ('v, 'x) XXVault_scheme \<Rightarrow> bytes \<Rightarrow> ('v, bytes) hs_run" where
  "encode_message1 sha vault body = on_copy (
     run_bind get_e (\<lambda>e.
     run_bind (hs_public_key vault e) (\<lambda>e_pub_key.
     run_then (run_modify (mix_hash sha (data e_pub_key)))
     (run_then (run_modify (mix_hash sha body))
     (run_ok (data e_pub_key @ body))))))"

definition decode_message1 :: "(bytes \<Rightarrow> bytes) \<Rightarrow> bytes \<Rightarrow> ('v, bytes) hs_run" where
  "decode_message1 sha message = on_copy (
     run_bind (run_result (read_key message)) (\<lambda>key.
     run_then (run_modify (mix_hash sha key))
     (run_then (run_modify (\<lambda>st. st\<lparr>hs_re := Some (PublicKey_new key X25519Type)\<rparr>))
     (run_bind (run_result (read_message1_payload message)) (\<lambda>body.
     run_then (run_modify (mix_hash sha body))
     (run_ok body))))))"

definition encode_message2 :: "(bytes \<Rightarrow> bytes) \<Rightarrow> ('v, 'x) XXVault_scheme \<Rightarrow> bytes \<Rightarrow> ('v, bytes) hs_run" where
  "encode_message2 sha vault body = on_copy (
     run_bind get_e (\<lambda>e.
     run_bind (hs_public_key vault e) (\<lambda>e_pub_key.
     run_then (run_modify (mix_hash sha (data e_pub_key)))
     (run_bind get_re (\<lambda>re.
     run_bind (dh vault e re) (\<lambda>d.
     run_then (hkdf vault d)
     (run_bind get_s (\<lambda>s.
     run_bind (hs_public_key vault s) (\<lambda>s_pub_key.
     run_bind (encrypt_and_hash sha vault (data s_pub_key)) (\<lambda>c1.
     run_bind (dh vault s re) (\<lambda>d.
     run_then (hkdf vault d)
     (run_bind (encrypt_and_hash sha vault body) (\<lambda>c2.
     run_ok (data e_pub_key @ c1 @ c2))))))))))))))"

definition decode_message2 :: "(bytes \<Rightarrow> bytes) \<Rightarrow> ('v, 'x) XXVault_scheme \<Rightarrow> bytes \<Rightarrow> ('v, bytes) hs_run" where
  "decode_message2 sha vault message = on_copy (
     run_bind (run_result (read_key message)) (\<lambda>re_pub_key.
     run_then (run_modify (\<lambda>st. st\<lparr>hs_re := Some (PublicKey_new re_pub_key X25519Type)\<rparr>))
     (run_then (run_modify (mix_hash sha re_pub_key))
     (run_bind get_e (\<lambda>e.
     run_bind get_re (\<lambda>re.
     run_bind (dh vault e re) (\<lambda>d.
     run_then (hkdf vault d)
     (run_bind (run_result (read_message2_encrypted_key message)) (\<lambda>encrypted.
     run_bind (hash_and_decrypt sha vault encrypted) (\<lambda>rs_pub_key.
     run_then (run_modify (\<lambda>st. st\<lparr>hs_rs := Some (PublicKey_new rs_pub_key X25519Type)\<rparr>))
     (run_bind get_rs (\<lambda>rs.
     run_bind (dh vault e rs) (\<lambda>d.
     run_then (hkdf vault d)
     (run_bind (run_result (read_message2_payload message)) (\<lambda>ct.
     hash_and_decrypt sha vault ct)))))))))))))))"

definition encode_message3 :: "(bytes \<Rightarrow> bytes) \<Rightarrow> ('v, 'x) XXVault_scheme \<Rightarrow> bytes \<Rightarrow> ('v, bytes) hs_run" where
  "encode_message3 sha vault body = on_copy (
     run_bind get_s (\<lambda>s.
     run_bind (hs_public_key vault s) (\<lambda>s_pub_key.
     run_bind (encrypt_and_hash sha vault (data s_pub_key)) (\<lambda>c1.
     run_bind get_re (\<lambda>re.
     run_bind (dh vault s re) (\<lambda>d.
     run_then (hkdf vault d)
     (run_bind (encrypt_and_hash sha vault body) (\<lambda>c2.
     run_ok (c1 @ c2)))))))))"

definition decode_message3 :: "(bytes \<Rightarrow> bytes) \<Rightarrow> ('v, 'x) XXVault_scheme \<Rightarrow> bytes \<Rightarrow> ('v, bytes) hs_run" where
  "decode_message3 sha vault message = on_copy (
     run_bind (run_result (read_message3_encrypted_key message)) (\<lambda>encrypted.
     run_bind (hash_and_decrypt sha vault encrypted) (\<lambda>rs_pub_key.
     run_then (run_modify (\<lambda>st. st\<lparr>hs_rs := Some (PublicKey_new rs_pub_key X25519Type)\<rparr>))
     (run_bind get_e (\<lambda>e.
     run_bind get_rs (\<lambda>rs.
     run_bind (dh vault e rs) (\<lambda>d.
     run_then (hkdf vault d)
     (run_bind (run_result (read_message3_payload message)) (\<lambda>ct.
     hash_and_decrypt sha vault ct)))))))))"

definition set_final_state :: "('v, 'x) XXVault_scheme \<Rightarrow> Role \<Rightarrow> ('v, unit) hs_run" where
  "set_final_state vault role =
     run_then (on_copy (run_bind (compute_final_keys vault) (\<lambda>(k1, k2).
       let (enc, dec) = (if is_initiator role then (k2, k1) else (k1, k2)) in
       run_modify (\<lambda>st. st\<lparr>hs_status := Ready \<lparr>encryption_key = enc, decryption_key = dec\<rparr>\<rparr>))))
     (delete_handshake_keys vault)"

definition get_handshake_keys :: "HandshakeState \<Rightarrow> HandshakeKeys option" where
  "get_handshake_keys st = (case hs_status st of Ready keys \<Rightarrow> Some keys | _ \<Rightarrow> None)"

subsection \<open>The protocol on values\<close>

text \<open>The same handshake with the secrets themselves in place of key identifiers: chaining key, key,
  hash and counter, and what the second and third message do to them.\<close>

record Noise =
  nz_ck :: bytes
  nz_k :: bytes
  nz_h :: bytes
  nz_n :: u64

definition noise_mix_key :: "(bytes \<Rightarrow> bytes \<Rightarrow> bytes) \<Rightarrow> bytes \<Rightarrow> Noise \<Rightarrow> Noise" where
  "noise_mix_key derive d nz =
     nz\<lparr>nz_ck := take 32 (derive (nz_ck nz) d), nz_k := drop 32 (derive (nz_ck nz) d), nz_n := 0\<rparr>"

definition noise_hash :: "(bytes \<Rightarrow> bytes) \<Rightarrow> bytes \<Rightarrow> Noise \<Rightarrow> Noise" where
  "noise_hash sha d nz = nz\<lparr>nz_h := sha (nz_h nz @ d)\<rparr>"

definition noise_seal ::
  "(bytes \<Rightarrow> bytes \<Rightarrow> bytes \<Rightarrow> bytes \<Rightarrow> bytes option) \<Rightarrow> bytes \<Rightarrow> Noise \<Rightarrow> bytes" where
  "noise_seal seal p nz = the (seal (nz_k nz) (nonce12 (nz_n nz)) (nz_h nz) p)"

definition noise_advance :: "(bytes \<Rightarrow> bytes) \<Rightarrow> bytes \<Rightarrow> Noise \<Rightarrow> Noise" where
  "noise_advance sha ct nz = (noise_hash sha ct nz)\<lparr>nz_n := nz_n nz + 1\<rparr>"

text \<open>A sealed static key, a Diffie-Hellman value mixed in, a sealed payload.\<close>

definition noise_tail ::
  "(bytes \<Rightarrow> bytes) \<Rightarrow> (bytes \<Rightarrow> bytes \<Rightarrow> bytes \<Rightarrow> bytes \<Rightarrow> bytes option) \<Rightarrow> (bytes \<Rightarrow> bytes \<Rightarrow> bytes)
   \<Rightarrow> bytes \<Rightarrow> bytes \<Rightarrow> bytes \<Rightarrow> Noise \<Rightarrow> bytes \<times> bytes \<times> Noise" where
  "noise_tail sha seal derive spub d body nz =
     (let c1 = noise_seal seal spub nz;
          nz1 = noise_mix_key derive d (noise_advance sha c1 nz);
          c2 = noise_seal seal body nz1
      in (c1, c2, noise_advance sha c2 nz1))"

definition noise_start :: "(bytes \<Rightarrow> bytes) \<Rightarrow> Noise" where
  "noise_start sha =
     \<lparr>nz_ck = protocol_name, nz_k = replicate 32 (CHR 0x00), nz_h = sha protocol_name, nz_n = 0\<rparr>"

lemmas hs_defs =
  get_s_def get_e_def get_k_def get_ck_def get_re_def get_rs_def take_s_def take_e_def take_k_def
  take_ck_def run_modify_def hs_delete_def dh_def hs_public_key_def import_k_secret_def
  import_ck_secret_def ok_or_def

lemma hs_nonce_eq [simp]: "hs_nonce st = nonce12 (hs_n st)"
  by (simp add: hs_nonce_def convert_nonce_from_u64_def Let_def)

lemma handshake_attributes [simp]: "ck_attributes = Buffer 32" "k_attributes = Aes256"
  by (simp_all add: ck_attributes_def SHA256_SIZE_U32_def k_attributes_def)

lemma on_copy_value [run_simps]: "m w = Inr (Inr a, w') \<Longrightarrow> on_copy m w = Inr (Inr a, w')"
  by (simp add: on_copy_def)

lemma run_put_end [run_simps]: "run_put s' (v, s) = Inr (Inr (), (v, s'))"
  by (simp add: run_put_def run_ok_def)

text \<open>Key \<open>i\<close> of a vault, read by \<open>look\<close>, is the AES key \<open>k\<close>.\<close>

definition session_key :: "('v \<Rightarrow> KeyId \<Rightarrow> StoredSecret option) \<Rightarrow> bytes \<Rightarrow> 'v \<Rightarrow> KeyId \<Rightarrow> bool" where
  "session_key look k v i \<longleftrightarrow> length k = 32 \<and> look v i = Some \<lparr>secret = k, attributes = Aes256\<rparr>"

abbreviation curve_secret :: "bytes \<Rightarrow> StoredSecret" where
  "curve_secret x \<equiv> \<lparr>secret = x, attributes = X25519\<rparr>"

context agreement_vault
begin

definition hs_rel :: "nat \<Rightarrow> bytes \<Rightarrow> bytes \<Rightarrow> 'v \<Rightarrow> HandshakeState \<Rightarrow> Noise \<Rightarrow> bool" where
  "hs_rel b ss es v st nz \<longleftrightarrow> good b v \<and> length ss = 32 \<and> length es = 32
     \<and> (\<exists>s. hs_s st = Some s \<and> look v s = Some (curve_secret ss))
     \<and> (\<exists>e. hs_e st = Some e \<and> look v e = Some (curve_secret es))
     \<and> (\<exists>ck. hs_ck st = Some ck \<and> look v ck = Some \<lparr>secret = nz_ck nz, attributes = Buffer 32\<rparr>)
     \<and> (\<exists>k. hs_k st = Some k \<and> look v k = Some \<lparr>secret = nz_k nz, attributes = Aes256\<rparr>)
     \<and> length (nz_k nz) = 32 \<and> hs_h st = nz_h nz \<and> hs_n st = nz_n nz"

lemma dh_hkdf:
  assumes rel: "hs_rel (b + 3) ss es v st nz"
    and key: "look v key = Some (curve_secret x)" "length x = 32" "length (data pk) = 32"
  obtains d v1 v' ck' k' where
    "dh ops key pk (v, st) = Inr (Inr d, (v1, st))"
    "hkdf ops d (v1, st) = Inr (Inr (), (v', st\<lparr>hs_ck := Some ck', hs_k := Some k', hs_n := 0\<rparr>))"
    "hs_rel b ss es v' (st\<lparr>hs_ck := Some ck', hs_k := Some k', hs_n := 0\<rparr>)
       (noise_mix_key derive (agree x (data pk)) nz)"
proof -
  obtain s e ck k where ids: "hs_s st = Some s" "look v s = Some (curve_secret ss)"
      "hs_e st = Some e" "look v e = Some (curve_secret es)"
      "hs_ck st = Some ck" "look v ck = Some \<lparr>secret = nz_ck nz, attributes = Buffer 32\<rparr>"
      "hs_k st = Some k" "look v k = Some \<lparr>secret = nz_k nz, attributes = Aes256\<rparr>"
    using rel by (auto simp: hs_rel_def)
  have good: "good (Suc (Suc (Suc b))) v" using rel by (simp add: hs_rel_def numeral_3_eq_3)
  obtain d v1 where d: "xx_diffie_hellman ops key pk v = Inr (Inr d, v1)" "good (Suc (Suc b)) v1"
      "look v d = None" "look v1 = (look v)(d \<mapsto> \<lparr>secret = agree x (data pk), attributes = Buffer 32\<rparr>)"
    using diffie_hellman_law [OF good key] by blast
  have ne: "d \<noteq> s" "d \<noteq> e" "d \<noteq> ck" "d \<noteq> k" using d(3) ids by auto
  let ?out = "derive (nz_ck nz) (agree x (data pk))"
  have "look v1 ck = Some \<lparr>secret = nz_ck nz, attributes = Buffer 32\<rparr>" using d(4) ids ne by simp
  moreover have "look v1 d = Some \<lparr>secret = agree x (data pk), attributes = Buffer 32\<rparr>" using d(4) by simp
  ultimately obtain ck' k' v2 where h: "xx_hkdf ops ck [] (Some d) [Buffer 32, Aes256] v1 = Inr (Inr [ck', k'], v2)"
      "good b v2" "look v1 ck' = None" "look v1 k' = None" "ck' \<noteq> k'"
      "look v2 = (look v1)(ck' \<mapsto> \<lparr>secret = take 32 ?out, attributes = Buffer 32\<rparr>,
                           k' \<mapsto> \<lparr>secret = drop 32 ?out, attributes = Aes256\<rparr>)"
    using hkdf_law [OF d(2), of ck "nz_ck nz" "agree x (data pk)" "Some d" "Buffer 32" Aes256] by auto
  obtain v3 where v3: "xx_delete ops d v2 = Inr (Inr (look v2 d \<noteq> None), v3)" "good b v3" "look v3 = (look v2)(d := None)"
    using delete_obtain [OF h(2)] .
  obtain v4 where v4: "xx_delete ops ck v3 = Inr (Inr (look v3 ck \<noteq> None), v4)" "good b v4" "look v4 = (look v3)(ck := None)"
    using delete_obtain [OF v3(2)] .
  obtain v5 where v5: "xx_delete ops k v4 = Inr (Inr (look v4 k \<noteq> None), v5)" "good b v5" "look v5 = (look v4)(k := None)"
    using delete_obtain [OF v4(2)] .
  have fresh: "ck' \<notin> {s, e, ck, k, d}" "k' \<notin> {s, e, ck, k, d}" "s \<noteq> ck'" "s \<noteq> k'" "e \<noteq> ck'" "e \<noteq> k'"
    using h(3,4) d(4) ids ne by auto
  have others: "s \<noteq> ck" "s \<noteq> k" "e \<noteq> ck" "e \<noteq> k" using ids by auto
  have "hkdf ops d (v1, st) = Inr (Inr (), (v5, st\<lparr>hs_ck := Some ck', hs_k := Some k', hs_n := 0\<rparr>))"
    using ids h(1) v3(1) v4(1) v5(1)
    by (simp add: hkdf_def hs_defs run_simps run_ok_def)
  moreover have "hs_rel b ss es v5 (st\<lparr>hs_ck := Some ck', hs_k := Some k', hs_n := 0\<rparr>)
      (noise_mix_key derive (agree x (data pk)) nz)"
    using rel ids ne fresh others h(5) v5(2) derive_length [OF good]
    by (simp add: hs_rel_def noise_mix_key_def v5(3) v4(3) v3(3) h(6) d(4))
  ultimately show ?thesis using that d(1) by (simp add: dh_def run_simps)
qed

lemma encrypt_and_hash_value:
  assumes rel: "hs_rel b ss es v st nz" and p: "length p \<le> max_plaintext"
  shows "encrypt_and_hash sha ops p (v, st) = Inr (Inr (noise_seal seal p nz),
      (v, st\<lparr>hs_h := sha (hs_h st @ noise_seal seal p nz), hs_n := hs_n st + 1\<rparr>))"
    and "hs_rel b ss es v (st\<lparr>hs_h := sha (hs_h st @ noise_seal seal p nz), hs_n := hs_n st + 1\<rparr>)
      (noise_advance sha (noise_seal seal p nz) nz)"
    and "length (noise_seal seal p nz) = length p + 16"
proof -
  obtain k where k: "hs_k st = Some k" "look v k = Some \<lparr>secret = nz_k nz, attributes = Aes256\<rparr>"
    using rel by (auto simp: hs_rel_def)
  have g: "good b v" "length (nz_k nz) = 32" using rel by (simp_all add: hs_rel_def)
  obtain c where c: "seal (nz_k nz) (nonce12 (nz_n nz)) (nz_h nz) p = Some c" "length c = length p + 16"
    using seal_law [OF g, of "nonce12 (nz_n nz)" p "nz_h nz"] p by auto
  have e: "xx_encrypt ops k p (nonce12 (hs_n st)) (hs_h st) v = Inr (Inr c, v)"
    using encrypt_law [OF g(1) k(2) g(2)] c(1) rel by (simp add: ok_or_def hs_rel_def)
  have c': "noise_seal seal p nz = c" using c(1) by (simp add: noise_seal_def)
  show "encrypt_and_hash sha ops p (v, st) = Inr (Inr (noise_seal seal p nz),
      (v, st\<lparr>hs_h := sha (hs_h st @ noise_seal seal p nz), hs_n := hs_n st + 1\<rparr>))"
    using k e by (simp add: c' encrypt_and_hash_def hs_defs run_simps run_ok_def mix_hash_def)
  show "hs_rel b ss es v (st\<lparr>hs_h := sha (hs_h st @ noise_seal seal p nz), hs_n := hs_n st + 1\<rparr>)
      (noise_advance sha (noise_seal seal p nz) nz)"
    using rel by (simp add: hs_rel_def noise_advance_def noise_hash_def)
  show "length (noise_seal seal p nz) = length p + 16" using c' c(2) by simp
qed

lemma hash_and_decrypt_value:
  assumes rel: "hs_rel b ss es v st nz" and p: "length p \<le> max_plaintext" and ct: "ct = noise_seal seal p nz"
  shows "hash_and_decrypt sha ops ct (v, st)
      = Inr (Inr p, (v, st\<lparr>hs_h := sha (hs_h st @ ct), hs_n := hs_n st + 1\<rparr>))"
    and "hs_rel b ss es v (st\<lparr>hs_h := sha (hs_h st @ ct), hs_n := hs_n st + 1\<rparr>) (noise_advance sha ct nz)"
proof -
  obtain k where k: "hs_k st = Some k" "look v k = Some \<lparr>secret = nz_k nz, attributes = Aes256\<rparr>"
    using rel by (auto simp: hs_rel_def)
  have g: "good b v" "length (nz_k nz) = 32" using rel by (simp_all add: hs_rel_def)
  have "seal (nz_k nz) (nonce12 (nz_n nz)) (nz_h nz) p = Some ct"
    using seal_law [OF g, of "nonce12 (nz_n nz)" p "nz_h nz"] p ct by (auto simp: noise_seal_def)
  then have "unseal (nz_k nz) (nonce12 (nz_n nz)) (nz_h nz) ct = Some p"
    using unseal_law [OF g] by simp
  then have d: "xx_decrypt ops k ct (nonce12 (hs_n st)) (hs_h st) v = Inr (Inr p, v)"
    using decrypt_law [OF g(1) k(2) g(2)] rel by (simp add: ok_or_def hs_rel_def)
  show "hash_and_decrypt sha ops ct (v, st)
      = Inr (Inr p, (v, st\<lparr>hs_h := sha (hs_h st @ ct), hs_n := hs_n st + 1\<rparr>))"
    using k d by (simp add: hash_and_decrypt_def hs_defs run_simps run_ok_def mix_hash_def)
  show "hs_rel b ss es v (st\<lparr>hs_h := sha (hs_h st @ ct), hs_n := hs_n st + 1\<rparr>) (noise_advance sha ct nz)"
    using rel by (simp add: hs_rel_def noise_advance_def noise_hash_def)
qed

lemma hs_rel_fields [simp]:
  "hs_rel b ss es v (st\<lparr>hs_re := x\<rparr>) nz = hs_rel b ss es v st nz"
  "hs_rel b ss es v (st\<lparr>hs_rs := y\<rparr>) nz = hs_rel b ss es v st nz"
  "hs_rel b ss es v (st\<lparr>hs_status := z\<rparr>) nz = hs_rel b ss es v st nz"
  by (simp_all add: hs_rel_def)

lemma hs_rel_hash: "hs_rel b ss es v st nz \<Longrightarrow> hs_rel b ss es v (mix_hash sha d st) (noise_hash sha d nz)"
  by (simp add: hs_rel_def mix_hash_def noise_hash_def)

lemma hs_rel_less: "hs_rel b ss es v st nz \<Longrightarrow> b' \<le> b \<Longrightarrow> hs_rel b' ss es v st nz"
  by (auto simp: hs_rel_def good_mono)

lemma hs_rel_public:
  assumes "hs_rel b ss es v st nz"
  shows "length (public ss) = 32" "length (public es) = 32" "\<exists>s. hs_s st = Some s" "\<exists>e. hs_e st = Some e"
    "hs_s st = Some s \<Longrightarrow> look v s = Some (curve_secret ss)" "hs_e st = Some e \<Longrightarrow> look v e = Some (curve_secret es)"
    "hs_s st = Some s \<Longrightarrow> hs_public_key ops s (v, st') = Inr (Inr \<lparr>data = public ss, stype = X25519Type\<rparr>, (v, st'))"
    "hs_e st = Some e \<Longrightarrow> hs_public_key ops e (v, st') = Inr (Inr \<lparr>data = public es, stype = X25519Type\<rparr>, (v, st'))"
    "length ss = 32" "length es = 32"
  using assms public_law public_length by (auto simp: hs_rel_def hs_public_key_def run_simps)

text \<open>Sealing the static key, mixing in a Diffie-Hellman value and sealing a payload, step by step.\<close>

lemma seal_tail:
  assumes rel: "hs_rel (b + 3) ss es v st nz" and s: "hs_s st = Some s" and re: "length (data re) = 32"
    and body: "length body \<le> max_plaintext"
    and t: "noise_tail sha seal derive (public ss) (agree ss (data re)) body nz = (c1, c2, nz')"
  obtains st1 d v1 v2 st2 st3 where
    "encrypt_and_hash sha ops (public ss) (v, st) = Inr (Inr c1, (v, st1))"
    "dh ops s re (v, st1) = Inr (Inr d, (v1, st1))" "hkdf ops d (v1, st1) = Inr (Inr (), (v2, st2))"
    "encrypt_and_hash sha ops body (v2, st2) = Inr (Inr c2, (v2, st3))"
    "hs_rel b ss es v2 st3 nz'" "length c1 = 48"
    "hs_re st1 = hs_re st" "hs_re st3 = hs_re st" "hs_rs st3 = hs_rs st" "hs_status st3 = hs_status st"
proof -
  let ?st1 = "st\<lparr>hs_h := sha (hs_h st @ c1), hs_n := hs_n st + 1\<rparr>"
  let ?nz1 = "noise_advance sha c1 nz"
  have parts: "c1 = noise_seal seal (public ss) nz"
      "c2 = noise_seal seal body (noise_mix_key derive (agree ss (data re)) ?nz1)"
      "nz' = noise_advance sha c2 (noise_mix_key derive (agree ss (data re)) ?nz1)"
    using t by (auto simp: noise_tail_def Let_def)
  have p: "length (public ss) \<le> max_plaintext" using hs_rel_public(1) [OF rel] by (simp add: max_plaintext_def)
  note e1 = encrypt_and_hash_value(1,2) [OF rel p, of sha, folded parts(1)]
    and len = encrypt_and_hash_value(3) [OF rel p, folded parts(1)]
  have key: "look v s = Some (curve_secret ss)" "length ss = 32" using hs_rel_public [OF rel] s by auto
  obtain d v1 v2 ck' k' where dk: "dh ops s re (v, ?st1) = Inr (Inr d, (v1, ?st1))"
      "hkdf ops d (v1, ?st1) = Inr (Inr (), (v2, ?st1\<lparr>hs_ck := Some ck', hs_k := Some k', hs_n := 0\<rparr>))"
      "hs_rel b ss es v2 (?st1\<lparr>hs_ck := Some ck', hs_k := Some k', hs_n := 0\<rparr>)
         (noise_mix_key derive (agree ss (data re)) ?nz1)"
    using dh_hkdf [OF e1(2) key re] .
  note e2 = encrypt_and_hash_value(1,2) [OF dk(3) body, of sha, folded parts(2), folded parts(3)]
  show ?thesis
    using len hs_rel_public(1) [OF rel] by (intro that [OF e1(1) dk(1,2) e2(1,2)]) simp_all
qed

lemma open_tail:
  assumes rel: "hs_rel (b + 3) ss es v st nz" and e: "hs_e st = Some e" and spub: "length spub = 32"
    and body: "length body \<le> max_plaintext"
    and t: "noise_tail sha seal derive spub (agree es spub) body nz = (c1, c2, nz')"
  obtains st1 d v1 v2 st2 st3 where
    "hash_and_decrypt sha ops c1 (v, st) = Inr (Inr spub, (v, st1))"
    "dh ops e (PublicKey_new spub X25519Type) (v, st1\<lparr>hs_rs := Some (PublicKey_new spub X25519Type)\<rparr>)
       = Inr (Inr d, (v1, st1\<lparr>hs_rs := Some (PublicKey_new spub X25519Type)\<rparr>))"
    "hkdf ops d (v1, st1\<lparr>hs_rs := Some (PublicKey_new spub X25519Type)\<rparr>) = Inr (Inr (), (v2, st2))"
    "hash_and_decrypt sha ops c2 (v2, st2) = Inr (Inr body, (v2, st3))"
    "hs_rel b ss es v2 st3 nz'" "hs_e st1 = Some e"
    "hs_re st3 = hs_re st" "hs_rs st3 = Some (PublicKey_new spub X25519Type)" "hs_status st3 = hs_status st"
proof -
  let ?st1 = "st\<lparr>hs_h := sha (hs_h st @ c1), hs_n := hs_n st + 1\<rparr>"
  let ?rs = "PublicKey_new spub X25519Type"
  let ?st1' = "?st1\<lparr>hs_rs := Some ?rs\<rparr>" and ?nz1 = "noise_advance sha c1 nz"
  have parts: "c1 = noise_seal seal spub nz"
      "c2 = noise_seal seal body (noise_mix_key derive (agree es spub) ?nz1)"
      "nz' = noise_advance sha c2 (noise_mix_key derive (agree es spub) ?nz1)"
    using t by (auto simp: noise_tail_def Let_def)
  have p: "length spub \<le> max_plaintext" using spub by (simp add: max_plaintext_def)
  note e1 = hash_and_decrypt_value [OF rel p parts(1), of sha]
  have key: "look v e = Some (curve_secret es)" "length es = 32" using hs_rel_public [OF rel] e by auto
  have rs: "length (data ?rs) = 32" "data ?rs = spub" using spub by (simp_all add: PublicKey_new_def)
  have rel1: "hs_rel (b + 3) ss es v ?st1' ?nz1" using e1(2) by (simp only: hs_rel_fields)
  obtain d v1 v2 ck' k' where dk: "dh ops e ?rs (v, ?st1') = Inr (Inr d, (v1, ?st1'))"
      "hkdf ops d (v1, ?st1') = Inr (Inr (), (v2, ?st1'\<lparr>hs_ck := Some ck', hs_k := Some k', hs_n := 0\<rparr>))"
      "hs_rel b ss es v2 (?st1'\<lparr>hs_ck := Some ck', hs_k := Some k', hs_n := 0\<rparr>)
         (noise_mix_key derive (agree es spub) ?nz1)"
    using dh_hkdf [OF rel1 key rs(1), unfolded rs(2)] .
  note e2 = hash_and_decrypt_value [OF dk(3) body parts(2), of sha, folded parts(3)]
  show ?thesis using e by (intro that [OF e1(1) dk(1,2) e2(1,2)]) simp_all
qed

lemma initialize_value:
  assumes good: "good (b + 2) v" and len: "length ss = 32" "length es = 32"
    and ids: "hs_s st = Some s" "look v s = Some (curve_secret ss)"
      "hs_e st = Some e" "look v e = Some (curve_secret es)" "hs_n st = 0"
  obtains v' st' where "Handshake_initialize sha ops (v, st) = Inr (Inr (), (v', st'))"
    "hs_rel b ss es v' st' (noise_start sha)"
    "hs_re st' = hs_re st" "hs_rs st' = hs_rs st" "hs_status st' = hs_status st"
proof -
  have pn: "length protocol_name = 32" by (simp add: protocol_name_def)
  obtain k v1 where k: "xx_import ops (replicate 32 (CHR 0x00)) Aes256 v = Inr (Inr k, v1)" "good (Suc b) v1"
      "look v k = None" "look v1 = (look v)(k \<mapsto> \<lparr>secret = replicate 32 (CHR 0x00), attributes = Aes256\<rparr>)"
    using import_obtain [of "Suc b" v Aes256 "replicate 32 (CHR 0x00)"] good by (auto simp: vault_constants)
  obtain ck v2 where ck: "xx_import ops protocol_name (Buffer 32) v1 = Inr (Inr ck, v2)" "good b v2"
      "look v1 ck = None" "look v2 = (look v1)(ck \<mapsto> \<lparr>secret = protocol_name, attributes = Buffer 32\<rparr>)"
    using import_obtain [OF k(2), of "Buffer 32" protocol_name] pn by auto
  have ne: "s \<noteq> k" "e \<noteq> k" "s \<noteq> ck" "e \<noteq> ck" "k \<noteq> ck" using ids k(3,4) ck(3) by (auto split: if_splits)
  let ?st = "st\<lparr>hs_h := sha protocol_name, hs_k := Some k, hs_ck := Some ck\<rparr>"
  have "Handshake_initialize sha ops (v, st) = Inr (Inr (), (v2, ?st))"
    using k(1) ck(1) by (simp add: Handshake_initialize_def hs_defs run_simps)
  moreover have "hs_rel b ss es v2 ?st (noise_start sha)"
    using ids len ne ck(2) by (simp add: hs_rel_def noise_start_def ck(4) k(4))
  ultimately show ?thesis by (rule that) simp_all
qed

lemma message1_value:
  assumes rel: "hs_rel b ss es v st nz"
  shows "encode_message1 sha ops body (v, st)
      = Inr (Inr (public es @ body), (v, mix_hash sha body (mix_hash sha (public es) st)))"
    and "hs_rel b ss es v (mix_hash sha body (mix_hash sha (public es) st))
      (noise_hash sha body (noise_hash sha (public es) nz))"
  using hs_rel_public [OF rel] hs_rel_hash [OF hs_rel_hash [OF rel]]
  by (auto simp: encode_message1_def get_e_def run_modify_def ok_or_def run_simps run_ok_def)

lemma decode_message1_value:
  assumes rel: "hs_rel b ss es v st nz" and len: "length epub = 32"
  obtains st' where "decode_message1 sha (epub @ body) (v, st) = Inr (Inr body, (v, st'))"
    "hs_rel b ss es v st' (noise_hash sha body (noise_hash sha epub nz))"
    "hs_re st' = Some (PublicKey_new epub X25519Type)" "hs_rs st' = hs_rs st" "hs_status st' = hs_status st"
proof -
  let ?st = "mix_hash sha body ((mix_hash sha epub st)\<lparr>hs_re := Some (PublicKey_new epub X25519Type)\<rparr>)"
  have "decode_message1 sha (epub @ body) (v, st) = Inr (Inr body, (v, ?st))"
    using len by (simp add: decode_message1_def read_key_def read_start_def read_message1_payload_def read_end_def
      key_size_def vault_constants run_modify_def run_simps run_ok_def)
  moreover have "hs_rel b ss es v ?st (noise_hash sha body (noise_hash sha epub nz))"
    using hs_rel_hash [OF rel] by (intro hs_rel_hash) simp
  ultimately show ?thesis by (rule that) (simp_all add: mix_hash_def)
qed

text \<open>The state both sides reach before the static key of the responder is sealed.\<close>

lemma encode_message2_value:
  assumes rel: "hs_rel (b + 6) ss es v st nz" and re: "hs_re st = Some re" "length (data re) = 32"
    and body: "length body \<le> max_plaintext"
    and t: "noise_tail sha seal derive (public ss) (agree ss (data re)) body
      (noise_mix_key derive (agree es (data re)) (noise_hash sha (public es) nz)) = (c1, c2, nz')"
  obtains v' st' where "encode_message2 sha ops body (v, st) = Inr (Inr (public es @ c1 @ c2), (v', st'))"
    "hs_rel b ss es v' st' nz'" "length c1 = 48" "hs_rs st' = hs_rs st" "hs_status st' = hs_status st"
proof -
  let ?st0 = "mix_hash sha (public es) st"
  obtain s e where ids: "hs_s st = Some s" "hs_e st = Some e" using hs_rel_public(3,4) [OF rel] by auto
  have rel0: "hs_rel (b + 3 + 3) ss es v ?st0 (noise_hash sha (public es) nz)"
    using hs_rel_hash [OF rel] by (simp add: add.assoc)
  have fields: "hs_s ?st0 = Some s" "hs_e ?st0 = Some e" "hs_re ?st0 = Some re" "hs_rs ?st0 = hs_rs st"
      "hs_status ?st0 = hs_status st"
    using ids re by (simp_all add: mix_hash_def)
  have key: "look v e = Some (curve_secret es)" "length es = 32" using hs_rel_public [OF rel] ids by auto
  obtain d v1 v2 ck' k' where dk: "dh ops e re (v, ?st0) = Inr (Inr d, (v1, ?st0))"
      "hkdf ops d (v1, ?st0) = Inr (Inr (), (v2, ?st0\<lparr>hs_ck := Some ck', hs_k := Some k', hs_n := 0\<rparr>))"
      "hs_rel (b + 3) ss es v2 (?st0\<lparr>hs_ck := Some ck', hs_k := Some k', hs_n := 0\<rparr>)
         (noise_mix_key derive (agree es (data re)) (noise_hash sha (public es) nz))"
    using dh_hkdf [OF rel0 key re(2)] .
  define st1 where "st1 = ?st0\<lparr>hs_ck := Some ck', hs_k := Some k', hs_n := 0\<rparr>"
  have st1: "hs_s st1 = Some s" "hs_re st1 = Some re" "hs_rs st1 = hs_rs st" "hs_status st1 = hs_status st"
    using fields by (simp_all add: st1_def)
  obtain st2 d2 v3 v4 st3 st4 where tail:
      "encrypt_and_hash sha ops (public ss) (v2, st1) = Inr (Inr c1, (v2, st2))"
      "dh ops s re (v2, st2) = Inr (Inr d2, (v3, st2))" "hkdf ops d2 (v3, st2) = Inr (Inr (), (v4, st3))"
      "encrypt_and_hash sha ops body (v4, st3) = Inr (Inr c2, (v4, st4))"
      "hs_rel b ss es v4 st4 nz'" "length c1 = 48"
      "hs_re st2 = hs_re st1" "hs_re st4 = hs_re st1" "hs_rs st4 = hs_rs st1" "hs_status st4 = hs_status st1"
    using seal_tail [OF dk(3) [folded st1_def] st1(1) re(2) body t] .
  have pubs: "hs_public_key ops e (v, st) = Inr (Inr \<lparr>data = public es, stype = X25519Type\<rparr>, (v, st))"
      "hs_public_key ops s (v2, st1) = Inr (Inr \<lparr>data = public ss, stype = X25519Type\<rparr>, (v2, st1))"
    using hs_rel_public(8) [OF rel ids(2)] hs_rel_public(7) [OF dk(3) [folded st1_def] st1(1)] by simp_all
  have "encode_message2 sha ops body (v, st) = Inr (Inr (public es @ c1 @ c2), (v4, st4))"
    using ids pubs fields dk(1) dk(2) [folded st1_def] st1 tail(1-4)
    by (simp add: encode_message2_def get_e_def get_re_def get_s_def run_modify_def ok_or_def run_simps run_ok_def)
  then show ?thesis by (rule that) (use tail st1 in simp_all)
qed

lemma decode_message2_value:
  assumes rel: "hs_rel (b + 6) ss es v st nz" and pubs: "length epub = 32" "length spub = 32"
    and body: "length body \<le> max_plaintext" and c1: "length c1 = 48"
    and t: "noise_tail sha seal derive spub (agree es spub) body
      (noise_mix_key derive (agree es epub) (noise_hash sha epub nz)) = (c1, c2, nz')"
  obtains v' st' where "decode_message2 sha ops (epub @ c1 @ c2) (v, st) = Inr (Inr body, (v', st'))"
    "hs_rel b ss es v' st' nz'" "hs_re st' = Some (PublicKey_new epub X25519Type)"
    "hs_rs st' = Some (PublicKey_new spub X25519Type)" "hs_status st' = hs_status st"
proof -
  let ?re = "PublicKey_new epub X25519Type"
  let ?st0 = "mix_hash sha epub (st\<lparr>hs_re := Some ?re\<rparr>)"
  obtain e where e: "hs_e st = Some e" using hs_rel_public(4) [OF rel] by auto
  have "hs_rel (b + 6) ss es v (st\<lparr>hs_re := Some ?re\<rparr>) nz" using rel by simp
  from hs_rel_hash [OF this] have rel0: "hs_rel (b + 3 + 3) ss es v ?st0 (noise_hash sha epub nz)"
    by (simp add: add.assoc)
  have fields: "hs_e ?st0 = Some e" "hs_re ?st0 = Some ?re" "hs_status ?st0 = hs_status st"
    using e by (simp_all add: mix_hash_def)
  have key: "look v e = Some (curve_secret es)" "length es = 32" using hs_rel_public [OF rel] e by auto
  have re: "length (data ?re) = 32" "data ?re = epub" using pubs by (simp_all add: PublicKey_new_def)
  obtain d v1 v2 ck' k' where dk: "dh ops e ?re (v, ?st0) = Inr (Inr d, (v1, ?st0))"
      "hkdf ops d (v1, ?st0) = Inr (Inr (), (v2, ?st0\<lparr>hs_ck := Some ck', hs_k := Some k', hs_n := 0\<rparr>))"
      "hs_rel (b + 3) ss es v2 (?st0\<lparr>hs_ck := Some ck', hs_k := Some k', hs_n := 0\<rparr>)
         (noise_mix_key derive (agree es epub) (noise_hash sha epub nz))"
    using dh_hkdf [OF rel0 key re(1), unfolded re(2)] .
  define st1 where "st1 = ?st0\<lparr>hs_ck := Some ck', hs_k := Some k', hs_n := 0\<rparr>"
  have st1: "hs_e st1 = Some e" "hs_re st1 = Some ?re" "hs_status st1 = hs_status st"
    using fields by (simp_all add: st1_def)
  obtain st2 d2 v3 v4 st3 st4 where tail:
      "hash_and_decrypt sha ops c1 (v2, st1) = Inr (Inr spub, (v2, st2))"
      "dh ops e (PublicKey_new spub X25519Type) (v2, st2\<lparr>hs_rs := Some (PublicKey_new spub X25519Type)\<rparr>)
         = Inr (Inr d2, (v3, st2\<lparr>hs_rs := Some (PublicKey_new spub X25519Type)\<rparr>))"
      "hkdf ops d2 (v3, st2\<lparr>hs_rs := Some (PublicKey_new spub X25519Type)\<rparr>) = Inr (Inr (), (v4, st3))"
      "hash_and_decrypt sha ops c2 (v4, st3) = Inr (Inr body, (v4, st4))"
      "hs_rel b ss es v4 st4 nz'" "hs_e st2 = Some e"
      "hs_re st4 = hs_re st1" "hs_rs st4 = Some (PublicKey_new spub X25519Type)" "hs_status st4 = hs_status st1"
    using open_tail [OF dk(3) [folded st1_def] st1(1) pubs(2) body t] .
  have "decode_message2 sha ops (epub @ c1 @ c2) (v, st) = Inr (Inr body, (v4, st4))"
    using fields dk(1) dk(2) [folded st1_def] tail(1-4,6) pubs c1
    by (simp add: decode_message2_def read_key_def read_start_def read_message2_encrypted_key_def read_middle_def
      read_message2_payload_def read_end_def key_size_def encrypted_key_size_def AES_GCM_TAGSIZE_USIZE_def
      vault_constants get_e_def get_re_def get_rs_def run_modify_def ok_or_def run_simps run_ok_def)
  then show ?thesis by (rule that) (use tail st1 in simp_all)
qed

lemma encode_message3_value:
  assumes rel: "hs_rel (b + 3) ss es v st nz" and re: "hs_re st = Some re" "length (data re) = 32"
    and body: "length body \<le> max_plaintext"
    and t: "noise_tail sha seal derive (public ss) (agree ss (data re)) body nz = (c1, c2, nz')"
  obtains v' st' where "encode_message3 sha ops body (v, st) = Inr (Inr (c1 @ c2), (v', st'))"
    "hs_rel b ss es v' st' nz'" "length c1 = 48" "hs_rs st' = hs_rs st" "hs_status st' = hs_status st"
proof -
  obtain s where s: "hs_s st = Some s" using hs_rel_public(3) [OF rel] by auto
  obtain st2 d2 v3 v4 st3 st4 where tail:
      "encrypt_and_hash sha ops (public ss) (v, st) = Inr (Inr c1, (v, st2))"
      "dh ops s re (v, st2) = Inr (Inr d2, (v3, st2))" "hkdf ops d2 (v3, st2) = Inr (Inr (), (v4, st3))"
      "encrypt_and_hash sha ops body (v4, st3) = Inr (Inr c2, (v4, st4))"
      "hs_rel b ss es v4 st4 nz'" "length c1 = 48"
      "hs_re st2 = hs_re st" "hs_re st4 = hs_re st" "hs_rs st4 = hs_rs st" "hs_status st4 = hs_status st"
    using seal_tail [OF rel s re(2) body t] .
  have "encode_message3 sha ops body (v, st) = Inr (Inr (c1 @ c2), (v4, st4))"
    using s hs_rel_public(7) [OF rel s] re tail(1-4,7)
    by (simp add: encode_message3_def get_s_def get_re_def ok_or_def run_simps run_ok_def)
  then show ?thesis by (rule that) (use tail in simp_all)
qed

lemma decode_message3_value:
  assumes rel: "hs_rel (b + 3) ss es v st nz" and spub: "length spub = 32"
    and body: "length body \<le> max_plaintext" and c1: "length c1 = 48"
    and t: "noise_tail sha seal derive spub (agree es spub) body nz = (c1, c2, nz')"
  obtains v' st' where "decode_message3 sha ops (c1 @ c2) (v, st) = Inr (Inr body, (v', st'))"
    "hs_rel b ss es v' st' nz'" "hs_rs st' = Some (PublicKey_new spub X25519Type)" "hs_status st' = hs_status st"
proof -
  obtain e where e: "hs_e st = Some e" using hs_rel_public(4) [OF rel] by auto
  obtain st2 d2 v3 v4 st3 st4 where tail:
      "hash_and_decrypt sha ops c1 (v, st) = Inr (Inr spub, (v, st2))"
      "dh ops e (PublicKey_new spub X25519Type) (v, st2\<lparr>hs_rs := Some (PublicKey_new spub X25519Type)\<rparr>)
         = Inr (Inr d2, (v3, st2\<lparr>hs_rs := Some (PublicKey_new spub X25519Type)\<rparr>))"
      "hkdf ops d2 (v3, st2\<lparr>hs_rs := Some (PublicKey_new spub X25519Type)\<rparr>) = Inr (Inr (), (v4, st3))"
      "hash_and_decrypt sha ops c2 (v4, st3) = Inr (Inr body, (v4, st4))"
      "hs_rel b ss es v4 st4 nz'" "hs_e st2 = Some e"
      "hs_re st4 = hs_re st" "hs_rs st4 = Some (PublicKey_new spub X25519Type)" "hs_status st4 = hs_status st"
    using open_tail [OF rel e spub body t] .
  have "decode_message3 sha ops (c1 @ c2) (v, st) = Inr (Inr body, (v4, st4))"
    using tail(1-4,6) c1
    by (simp add: decode_message3_def read_start_def read_message3_encrypted_key_def
      read_message3_payload_def read_end_def key_size_def encrypted_key_size_def AES_GCM_TAGSIZE_USIZE_def
      vault_constants get_e_def get_rs_def run_modify_def ok_or_def run_simps run_ok_def)
  then show ?thesis by (rule that) (use tail in simp_all)
qed

text \<open>The final keys: two halves of one derivation from the chaining key, swapped between the roles.\<close>

lemma final_state_value:
  assumes rel: "hs_rel (b + 2) ss es v st nz"
  obtains v' st' keys where "set_final_state ops role (v, st) = Inr (Inr (), (v', st'))"
    "hs_status st' = Ready keys" "good b v'" "hs_rs st' = hs_rs st"
    "session_key look (if is_initiator role then drop 32 (derive (nz_ck nz) []) else take 32 (derive (nz_ck nz) []))
       v' (encryption_key keys)"
    "session_key look (if is_initiator role then take 32 (derive (nz_ck nz) []) else drop 32 (derive (nz_ck nz) []))
       v' (decryption_key keys)"
proof -
  let ?out = "derive (nz_ck nz) []"
  obtain s e ck k where ids: "hs_s st = Some s" "look v s = Some (curve_secret ss)"
      "hs_e st = Some e" "look v e = Some (curve_secret es)"
      "hs_ck st = Some ck" "look v ck = Some \<lparr>secret = nz_ck nz, attributes = Buffer 32\<rparr>"
      "hs_k st = Some k" "look v k = Some \<lparr>secret = nz_k nz, attributes = Aes256\<rparr>"
    using rel by (auto simp: hs_rel_def)
  have good: "good (Suc (Suc b)) v" using rel by (simp add: hs_rel_def)
  obtain k1 k2 v2 where h: "xx_hkdf ops ck [] None [Aes256, Aes256] v = Inr (Inr [k1, k2], v2)"
      "good b v2" "look v k1 = None" "look v k2 = None" "k1 \<noteq> k2"
      "look v2 = (look v)(k1 \<mapsto> \<lparr>secret = take 32 ?out, attributes = Aes256\<rparr>,
                          k2 \<mapsto> \<lparr>secret = drop 32 ?out, attributes = Aes256\<rparr>)"
    using hkdf_law [OF good ids(6), of "[]" None Aes256 Aes256] by auto
  obtain v3 where v3: "xx_delete ops ck v2 = Inr (Inr (look v2 ck \<noteq> None), v3)" "good b v3" "look v3 = (look v2)(ck := None)"
    using delete_obtain [OF h(2)] .
  obtain v4 where v4: "xx_delete ops k v3 = Inr (Inr (look v3 k \<noteq> None), v4)" "good b v4" "look v4 = (look v3)(k := None)"
    using delete_obtain [OF v3(2)] .
  obtain v5 where v5: "xx_delete ops s v4 = Inr (Inr (look v4 s \<noteq> None), v5)" "good b v5" "look v5 = (look v4)(s := None)"
    using delete_obtain [OF v4(2)] .
  obtain v6 where v6: "xx_delete ops e v5 = Inr (Inr (look v5 e \<noteq> None), v6)" "good b v6" "look v6 = (look v5)(e := None)"
    using delete_obtain [OF v5(2)] .
  have fresh: "k1 \<notin> {s, e, ck, k}" "k2 \<notin> {s, e, ck, k}" using h(3,4) ids by auto
  let ?keys = "if is_initiator role then \<lparr>encryption_key = k2, decryption_key = k1\<rparr>
    else \<lparr>encryption_key = k1, decryption_key = k2\<rparr>"
  let ?st = "st\<lparr>hs_ck := None, hs_k := None, hs_status := Ready ?keys, hs_s := None, hs_e := None\<rparr>"
  have "set_final_state ops role (v, st) = Inr (Inr (), (v6, ?st))"
    using ids h(1) v3(1) v4(1) v5(1) v6(1)
    by (simp add: set_final_state_def compute_final_keys_def delete_handshake_keys_def hs_defs run_simps
      run_ok_def split: if_splits)
  moreover have "session_key look (take 32 ?out) v6 k1" "session_key look (drop 32 ?out) v6 k2"
    using fresh h(5) derive_length [OF good]
    by (simp_all add: session_key_def v6(3) v5(3) v4(3) v3(3) h(6))
  ultimately show ?thesis using v6(2) by (intro that [of v6 ?st ?keys]) simp_all
qed

end

end
