(* ===== verification/Handshake_Machine.thy ===== *)
theory Handshake_Machine
  imports Handshake
begin

text \<open>
  The state machines that drive the key exchange
  (\<open>ockam_identity/src/secure_channel/handshake/handshake_state_machine.rs\<close>,
  \<open>initiator_state_machine.rs\<close>, \<open>responder_state_machine.rs\<close>): which message is expected in
  which state, the exchange and verification of identities, and the results of the handshake.

  Identities, credentials and the trust policy are reached through trait objects; they are the
  fields of \<open>IdentityServices\<close>, operations on the same state as the vault.
\<close>

subsection \<open>Events, actions and services\<close>

datatype Event = Initialize | ReceivedMessage bytes

datatype HandshakeAction = NoAction | SendMessage bytes

record HandshakeResults =
  handshake_keys :: HandshakeKeys
  their_identifier :: IdentityIdentifier

record 'cr IdentityAndCredentials =
  iac_identity :: bytes
  iac_signature :: bytes
  iac_credentials :: "'cr list"

record ('v, 'i, 'cr) IdentityServices =
  id_identifier :: "'i \<Rightarrow> IdentityIdentifier"
  id_get_identity :: "IdentityIdentifier \<Rightarrow> ('v, error, 'i) state_exec"
  id_export :: "'i \<Rightarrow> error + bytes"
  id_create_signature :: "'i \<Rightarrow> bytes \<Rightarrow> ('v, error, bytes) state_exec"
  id_decode_identity :: "bytes \<Rightarrow> ('v, error, 'i) state_exec"
  id_verify_signature :: "'i \<Rightarrow> bytes \<Rightarrow> bytes \<Rightarrow> ('v, error, bool) state_exec"
  id_trust_check :: "IdentityIdentifier \<Rightarrow> ('v, error, bool) state_exec"
  id_authority :: "('v, error, 'i) state_exec option"
  id_receive_credential :: "IdentityIdentifier \<Rightarrow> 'i list \<Rightarrow> 'cr \<Rightarrow> ('v, error, unit) state_exec"
  id_update_identity :: "'i \<Rightarrow> ('v, error, unit) state_exec"
  bare_encode :: "'cr IdentityAndCredentials \<Rightarrow> error + bytes"
  bare_decode :: "bytes \<Rightarrow> 'cr IdentityAndCredentials option"

text \<open>The part of both machines that changes: the handshake, the identity payload still to be sent,
  and the verified peer.\<close>

record StateMachine =
  sm_handshake :: HandshakeState
  sm_identity_payload :: "bytes option"
  sm_their_identifier :: "IdentityIdentifier option"

type_synonym ('v, 'a) sm_run = "('v \<times> StateMachine, error, 'a) state_exec"

definition on_handshake :: "('v, 'a) hs_run \<Rightarrow> ('v, 'a) sm_run" where
  "on_handshake m w = (case m (fst w, sm_handshake (snd w)) of
     Inl p \<Rightarrow> Inl p
   | Inr (r, (v, st)) \<Rightarrow> Inr (r, (v, (snd w)\<lparr>sm_handshake := st\<rparr>)))"

subsection \<open>Making a machine\<close>

definition get_static_key :: "('v, 'x) XXVault_scheme \<Rightarrow> ('v, error, KeyId) state_exec" where
  "get_static_key vault = xx_create vault X25519"

definition sign_static_key ::
  "('v, 'x) XXVault_scheme \<Rightarrow> ('v, 'i, 'cr) IdentityServices \<Rightarrow> 'i \<Rightarrow> KeyId \<Rightarrow> ('v, error, bytes) state_exec" where
  "sign_static_key vault svc identity key_id =
     run_bind (xx_public_key vault key_id) (\<lambda>public_static_key.
     id_create_signature svc identity (data public_static_key))"

definition make_identity_payload ::
  "('v, 'x) XXVault_scheme \<Rightarrow> ('v, 'i, 'cr) IdentityServices \<Rightarrow> IdentityIdentifier \<Rightarrow> 'cr list \<Rightarrow> KeyId
   \<Rightarrow> ('v, error, bytes) state_exec" where
  "make_identity_payload vault svc identifier credentials static_key =
     run_bind (id_get_identity svc identifier) (\<lambda>identity.
     run_bind (run_result (id_export svc identity)) (\<lambda>exported.
     run_bind (sign_static_key vault svc identity static_key) (\<lambda>signature.
     run_result (bare_encode svc
       \<lparr>iac_identity = exported, iac_signature = signature, iac_credentials = credentials\<rparr>))))"

definition StateMachine_new ::
  "('v, 'x) XXVault_scheme \<Rightarrow> ('v, 'i, 'cr) IdentityServices \<Rightarrow> IdentityIdentifier \<Rightarrow> 'cr list
   \<Rightarrow> ('v, error, StateMachine) state_exec" where
  "StateMachine_new vault svc identifier credentials =
     run_bind (get_static_key vault) (\<lambda>static_key.
     run_bind (make_identity_payload vault svc identifier credentials static_key) (\<lambda>identity_payload.
     run_bind (Handshake_new vault static_key) (\<lambda>hs.
     run_ok \<lparr>sm_handshake = hs, sm_identity_payload = Some identity_payload, sm_their_identifier = None\<rparr>)))"

subsection \<open>Verifying the peer\<close>

definition deserialize_payload ::
  "('v, 'i, 'cr) IdentityServices \<Rightarrow> bytes \<Rightarrow> error + 'cr IdentityAndCredentials" where
  "deserialize_payload svc p = ok_or (bare_decode svc p) (ErrorCode_new OriginChannel KindInvalid)"

definition verify_signature ::
  "('v, 'i, 'cr) IdentityServices \<Rightarrow> 'i \<Rightarrow> bytes \<Rightarrow> PublicKey \<Rightarrow> ('v, error, unit) state_exec" where
  "verify_signature svc identity signature public_key =
     run_bind (id_verify_signature svc identity signature (data public_key)) (\<lambda>verified.
     if \<not> verified then run_err (identity_error SecureChannelVerificationFailed) else run_ok ())"

definition verify_credentials ::
  "('v, 'i, 'cr) IdentityServices \<Rightarrow> 'i \<Rightarrow> 'cr list \<Rightarrow> ('v, error, unit) state_exec" where
  "verify_credentials svc identity credentials =
     run_bind (id_trust_check svc (id_identifier svc identity)) (\<lambda>trusted.
     if \<not> trusted then run_err (identity_error SecureChannelTrustCheckFailed)
     else run_then (case id_authority svc of
         Some authority \<Rightarrow> run_each (\<lambda>credential.
           run_bind authority (\<lambda>a.
           run_bind (run_try (id_receive_credential svc (id_identifier svc identity) [a] credential)) (\<lambda>r.
           if is_ok r then run_ok () else run_err (identity_error SecureChannelVerificationFailed)))) credentials
       | None \<Rightarrow> if credentials \<noteq> [] then run_err (identity_error SecureChannelVerificationFailed)
           else run_ok ())
     (id_update_identity svc identity))"

definition check_peer ::
  "('v, 'i, 'cr) IdentityServices \<Rightarrow> 'cr IdentityAndCredentials \<Rightarrow> PublicKey
   \<Rightarrow> ('v, error, IdentityIdentifier) state_exec" where
  "check_peer svc peer peer_public_key =
     run_bind (id_decode_identity svc (iac_identity peer)) (\<lambda>identity.
     run_then (verify_signature svc identity (iac_signature peer) peer_public_key)
     (run_then (verify_credentials svc identity (iac_credentials peer))
     (run_ok (id_identifier svc identity))))"

definition verify_identity ::
  "('v, 'i, 'cr) IdentityServices \<Rightarrow> 'cr IdentityAndCredentials \<Rightarrow> PublicKey \<Rightarrow> ('v, unit) sm_run" where
  "verify_identity svc peer peer_public_key =
     run_bind (run_fst (check_peer svc peer peer_public_key)) (\<lambda>identifier.
     run_modify (\<lambda>sm. sm\<lparr>sm_their_identifier := Some identifier\<rparr>))"

definition make_handshake_results ::
  "IdentityIdentifier option \<Rightarrow> HandshakeKeys option \<Rightarrow> HandshakeResults option" where
  "make_handshake_results identifier keys = (case (identifier, keys) of
     (Some i, Some k) \<Rightarrow> Some \<lparr>handshake_keys = k, their_identifier = i\<rparr>
   | _ \<Rightarrow> None)"

definition get_handshake_results :: "StateMachine \<Rightarrow> HandshakeResults option" where
  "get_handshake_results sm =
     make_handshake_results (sm_their_identifier sm) (get_handshake_keys (sm_handshake sm))"

subsection \<open>Transitions\<close>

definition unexpected :: error where
  "unexpected = ErrorCode_new OriginChannel KindInvalid"

definition set_status :: "Status \<Rightarrow> ('v, unit) sm_run" where
  "set_status s = on_handshake (run_modify (\<lambda>st. st\<lparr>hs_status := s\<rparr>))"

definition take_identity_payload :: "('v, bytes) sm_run" where
  "take_identity_payload =
     run_bind run_get (\<lambda>sm.
     run_then (run_put (sm\<lparr>sm_identity_payload := None\<rparr>))
     (run_result (ok_or (sm_identity_payload sm) (xx_error XXInvalidInternalState))))"

definition initiator_on_event ::
  "(bytes \<Rightarrow> bytes) \<Rightarrow> ('v, 'x) XXVault_scheme \<Rightarrow> ('v, 'i, 'cr) IdentityServices \<Rightarrow> Event \<Rightarrow> ('v, HandshakeAction) sm_run" where
  "initiator_on_event sha vault svc event =
     run_bind run_get (\<lambda>sm. case (hs_status (sm_handshake sm), event) of
       (Initial, Initialize) \<Rightarrow>
         run_then (on_handshake (Handshake_initialize sha vault))
        (run_bind (on_handshake (encode_message1 sha vault [])) (\<lambda>message1.
         run_then (set_status WaitingForMessage2)
         (run_ok (SendMessage message1))))
     | (WaitingForMessage2, ReceivedMessage message) \<Rightarrow>
         run_bind (on_handshake (decode_message2 sha vault message)) (\<lambda>message2_payload.
         run_bind (run_result (deserialize_payload svc message2_payload)) (\<lambda>peer.
         run_bind (on_handshake get_rs) (\<lambda>rs.
         run_then (verify_identity svc peer rs)
        (run_bind take_identity_payload (\<lambda>identity_payload.
         run_bind (on_handshake (encode_message3 sha vault identity_payload)) (\<lambda>message3.
         run_then (on_handshake (set_final_state vault Initiator))
         (run_ok (SendMessage message3))))))))
     | _ \<Rightarrow> run_err unexpected)"

definition responder_on_event ::
  "(bytes \<Rightarrow> bytes) \<Rightarrow> ('v, 'x) XXVault_scheme \<Rightarrow> ('v, 'i, 'cr) IdentityServices \<Rightarrow> Event \<Rightarrow> ('v, HandshakeAction) sm_run" where
  "responder_on_event sha vault svc event =
     run_bind run_get (\<lambda>sm. case (hs_status (sm_handshake sm), event) of
       (Initial, Initialize) \<Rightarrow>
         run_then (on_handshake (Handshake_initialize sha vault))
        (run_then (set_status WaitingForMessage1)
         (run_ok NoAction))
     | (WaitingForMessage1, ReceivedMessage message) \<Rightarrow>
         run_bind (on_handshake (decode_message1 sha message)) (\<lambda>_.
         run_bind take_identity_payload (\<lambda>identity_payload.
         run_bind (on_handshake (encode_message2 sha vault identity_payload)) (\<lambda>message2.
         run_then (set_status WaitingForMessage3)
         (run_ok (SendMessage message2)))))
     | (WaitingForMessage3, ReceivedMessage message) \<Rightarrow>
         run_bind (on_handshake (decode_message3 sha vault message)) (\<lambda>message3_payload.
         run_bind (run_result (deserialize_payload svc message3_payload)) (\<lambda>peer.
         run_bind (on_handshake get_rs) (\<lambda>rs.
         run_then (verify_identity svc peer rs)
        (run_then (on_handshake (set_final_state vault Responder))
         (run_ok NoAction)))))
     | _ \<Rightarrow> run_err unexpected)"

subsection \<open>One transition at a time\<close>

lemma on_handshake_value [run_simps]:
  "m (v, sm_handshake sm) = Inr (r, (v', st)) \<Longrightarrow> on_handshake m (v, sm) = Inr (r, (v', sm\<lparr>sm_handshake := st\<rparr>))"
  by (simp add: on_handshake_def)

lemma set_status_value [run_simps]:
  "set_status s (v, sm) = Inr (Inr (), (v, sm\<lparr>sm_handshake := (sm_handshake sm)\<lparr>hs_status := s\<rparr>\<rparr>))"
  by (simp add: set_status_def on_handshake_def run_modify_def run_simps)

lemma take_identity_payload_value [run_simps]:
  "sm_identity_payload sm = Some p \<Longrightarrow>
   take_identity_payload (v, sm) = Inr (Inr p, (v, sm\<lparr>sm_identity_payload := None\<rparr>))"
  by (simp add: take_identity_payload_def ok_or_def run_simps run_ok_def)

text \<open>A machine before its first event, with its static and ephemeral secret in a vault read by \<open>look\<close>.\<close>

definition new_machine ::
  "('v \<Rightarrow> KeyId \<Rightarrow> StoredSecret option) \<Rightarrow> 'v \<Rightarrow> StateMachine \<Rightarrow> bytes \<Rightarrow> bytes \<Rightarrow> bytes \<Rightarrow> bool" where
  "new_machine look v sm ss es p \<longleftrightarrow> length ss = 32 \<and> length es = 32 \<and> length p \<le> max_plaintext
     \<and> hs_status (sm_handshake sm) = Initial \<and> hs_n (sm_handshake sm) = 0
     \<and> sm_identity_payload sm = Some p
     \<and> (\<exists>s. hs_s (sm_handshake sm) = Some s \<and> look v s = Some (curve_secret ss))
     \<and> (\<exists>e. hs_e (sm_handshake sm) = Some e \<and> look v e = Some (curve_secret es))"

text \<open>The services take payload \<open>p\<close>, received with static key \<open>pk\<close>, for identity \<open>who\<close>, and leave the keys
  of the vault alone.\<close>

definition vouches ::
  "(nat \<Rightarrow> 'v \<Rightarrow> bool) \<Rightarrow> ('v \<Rightarrow> KeyId \<Rightarrow> StoredSecret option) \<Rightarrow> ('v, 'i, 'cr) IdentityServices
   \<Rightarrow> bytes \<Rightarrow> bytes \<Rightarrow> IdentityIdentifier \<Rightarrow> bool" where
  "vouches good look svc p pk who \<longleftrightarrow> (\<exists>peer. bare_decode svc p = Some peer \<and>
     (\<forall>b v. good b v \<longrightarrow> (\<exists>v'. check_peer svc peer (PublicKey_new pk X25519Type) v = Inr (Inr who, v')
        \<and> good b v' \<and> look v' = look v)))"

context agreement_vault
begin

lemma hs_rel_look: "hs_rel b ss es v st nz \<Longrightarrow> good b v' \<Longrightarrow> look v' = look v \<Longrightarrow> hs_rel b ss es v' st nz"
  by (simp add: hs_rel_def)

lemma verify_identity_value:
  assumes "vouches good look svc p pk who" "hs_rel b ss es v (sm_handshake sm) nz"
  obtains peer v' where "deserialize_payload svc p = Inr peer"
    "verify_identity svc peer (PublicKey_new pk X25519Type) (v, sm)
       = Inr (Inr (), (v', sm\<lparr>sm_their_identifier := Some who\<rparr>))"
    "hs_rel b ss es v' (sm_handshake sm) nz"
proof -
  obtain peer where peer: "bare_decode svc p = Some peer"
      "\<forall>b v. good b v \<longrightarrow> (\<exists>v'. check_peer svc peer (PublicKey_new pk X25519Type) v = Inr (Inr who, v')
        \<and> good b v' \<and> look v' = look v)"
    using assms(1) by (auto simp: vouches_def)
  have "good b v" using assms(2) by (simp add: hs_rel_def)
  then obtain v' where "check_peer svc peer (PublicKey_new pk X25519Type) v = Inr (Inr who, v')"
      "good b v'" "look v' = look v"
    using peer(2) by blast
  with peer(1) assms(2) that show ?thesis
    by (simp add: deserialize_payload_def ok_or_def verify_identity_def run_modify_def run_simps hs_rel_look)
qed

lemma machine_initialize:
  assumes "good (b + 2) v" "new_machine look v sm ss es p"
  obtains v' st' where "Handshake_initialize sha ops (v, sm_handshake sm) = Inr (Inr (), (v', st'))"
    "hs_rel b ss es v' st' (noise_start sha)"
proof -
  obtain s e where ids: "hs_s (sm_handshake sm) = Some s" "look v s = Some (curve_secret ss)"
      "hs_e (sm_handshake sm) = Some e" "look v e = Some (curve_secret es)"
    and len: "length ss = 32" "length es = 32" "hs_n (sm_handshake sm) = 0"
    using assms(2) by (auto simp: new_machine_def)
  obtain v' st' where "Handshake_initialize sha ops (v, sm_handshake sm) = Inr (Inr (), (v', st'))"
    "hs_rel b ss es v' st' (noise_start sha)" "hs_re st' = hs_re (sm_handshake sm)"
    "hs_rs st' = hs_rs (sm_handshake sm)" "hs_status st' = hs_status (sm_handshake sm)"
    using initialize_value [OF assms(1) len(1,2) ids len(3)] .
  with that show ?thesis by blast
qed

lemma initiator_start:
  assumes "good (b + 2) v" "new_machine look v sm ss es p"
  obtains v' sm' where "initiator_on_event sha ops svc Initialize (v, sm)
      = Inr (Inr (SendMessage (public es)), (v', sm'))"
    "hs_rel b ss es v' (sm_handshake sm') (noise_hash sha [] (noise_hash sha (public es) (noise_start sha)))"
    "hs_status (sm_handshake sm') = WaitingForMessage2" "sm_identity_payload sm' = Some p"
proof -
  obtain v' st' where i: "Handshake_initialize sha ops (v, sm_handshake sm) = Inr (Inr (), (v', st'))"
      "hs_rel b ss es v' st' (noise_start sha)"
    using machine_initialize [OF assms] .
  let ?st = "mix_hash sha [] (mix_hash sha (public es) st')"
  note m = message1_value [OF i(2), of sha "[]"]
  have sm: "hs_status (sm_handshake sm) = Initial" "sm_identity_payload sm = Some p"
    using assms(2) by (simp_all add: new_machine_def)
  have "initiator_on_event sha ops svc Initialize (v, sm) = Inr (Inr (SendMessage (public es)),
      (v', sm\<lparr>sm_handshake := ?st\<lparr>hs_status := WaitingForMessage2\<rparr>\<rparr>))"
    using sm i(1) m(1) by (simp add: initiator_on_event_def run_simps run_ok_def)
  then show ?thesis by (rule that) (use m(2) sm in simp_all)
qed

lemma responder_start:
  assumes "good (b + 2) v" "new_machine look v sm ss es p"
  obtains v' sm' where "responder_on_event sha ops svc Initialize (v, sm) = Inr (Inr NoAction, (v', sm'))"
    "hs_rel b ss es v' (sm_handshake sm') (noise_start sha)"
    "hs_status (sm_handshake sm') = WaitingForMessage1" "sm_identity_payload sm' = Some p"
proof -
  obtain v' st' where i: "Handshake_initialize sha ops (v, sm_handshake sm) = Inr (Inr (), (v', st'))"
      "hs_rel b ss es v' st' (noise_start sha)"
    using machine_initialize [OF assms] .
  have sm: "hs_status (sm_handshake sm) = Initial" "sm_identity_payload sm = Some p"
    using assms(2) by (simp_all add: new_machine_def)
  have "responder_on_event sha ops svc Initialize (v, sm) = Inr (Inr NoAction,
      (v', sm\<lparr>sm_handshake := st'\<lparr>hs_status := WaitingForMessage1\<rparr>\<rparr>))"
    using sm i(1) by (simp add: responder_on_event_def run_simps run_ok_def)
  then show ?thesis by (rule that) (use i(2) sm in simp_all)
qed

lemma responder_message1:
  assumes rel: "hs_rel (b + 6) ss es v (sm_handshake sm) nz"
    and st: "hs_status (sm_handshake sm) = WaitingForMessage1" "sm_identity_payload sm = Some p"
    and len: "length epub = 32" "length p \<le> max_plaintext"
    and t: "noise_tail sha seal derive (public ss) (agree ss epub) p (noise_mix_key derive (agree es epub)
      (noise_hash sha (public es) (noise_hash sha [] (noise_hash sha epub nz)))) = (c1, c2, nz')"
  obtains v' sm' where "responder_on_event sha ops svc (ReceivedMessage epub) (v, sm)
      = Inr (Inr (SendMessage (public es @ c1 @ c2)), (v', sm'))"
    "hs_rel b ss es v' (sm_handshake sm') nz'" "length c1 = 48"
    "hs_status (sm_handshake sm') = WaitingForMessage3"
proof -
  obtain st1 where d: "decode_message1 sha (epub @ []) (v, sm_handshake sm) = Inr (Inr [], (v, st1))"
      "hs_rel (b + 6) ss es v st1 (noise_hash sha [] (noise_hash sha epub nz))"
      "hs_re st1 = Some (PublicKey_new epub X25519Type)" "hs_rs st1 = hs_rs (sm_handshake sm)"
      "hs_status st1 = hs_status (sm_handshake sm)"
    using decode_message1_value [OF rel len(1)] .
  have re: "data (PublicKey_new epub X25519Type) = epub" by (simp add: PublicKey_new_def)
  obtain v2 st2 where e: "encode_message2 sha ops p (v, st1) = Inr (Inr (public es @ c1 @ c2), (v2, st2))"
      "hs_rel b ss es v2 st2 nz'" "length c1 = 48" "hs_rs st2 = hs_rs st1" "hs_status st2 = hs_status st1"
    using encode_message2_value [OF d(2,3) _ len(2), unfolded re, OF len(1) t] .
  have "responder_on_event sha ops svc (ReceivedMessage epub) (v, sm) = Inr (Inr (SendMessage (public es @ c1 @ c2)),
      (v2, sm\<lparr>sm_handshake := st2\<lparr>hs_status := WaitingForMessage3\<rparr>, sm_identity_payload := None\<rparr>))"
    using st d(1) e(1) by (simp add: responder_on_event_def run_simps run_ok_def)
  then show ?thesis by (rule that) (use e in simp_all)
qed

lemma initiator_message2:
  assumes rel: "hs_rel (b + 11) ss es v (sm_handshake sm) nz"
    and st: "hs_status (sm_handshake sm) = WaitingForMessage2" "sm_identity_payload sm = Some p"
    and len: "length epub = 32" "length spub = 32" "length q \<le> max_plaintext" "length p \<le> max_plaintext"
      "length c1 = 48"
    and who: "vouches good look svc q spub who"
    and t: "noise_tail sha seal derive spub (agree es spub) q
      (noise_mix_key derive (agree es epub) (noise_hash sha epub nz)) = (c1, c2, nz1)"
    and u: "noise_tail sha seal derive (public ss) (agree ss epub) p nz1 = (d1, d2, nz2)"
  obtains v' sm' keys where "initiator_on_event sha ops svc (ReceivedMessage (epub @ c1 @ c2)) (v, sm)
      = Inr (Inr (SendMessage (d1 @ d2)), (v', sm'))" "length d1 = 48" "good b v'"
    "get_handshake_results sm' = Some \<lparr>handshake_keys = keys, their_identifier = who\<rparr>"
    "session_key look (drop 32 (derive (nz_ck nz2) [])) v' (encryption_key keys)"
    "session_key look (take 32 (derive (nz_ck nz2) [])) v' (decryption_key keys)"
proof -
  have rel: "hs_rel (b + 5 + 6) ss es v (sm_handshake sm) nz" using rel by (simp add: eval_nat_numeral)
  obtain v1 st1 where d: "decode_message2 sha ops (epub @ c1 @ c2) (v, sm_handshake sm) = Inr (Inr q, (v1, st1))"
      "hs_rel (b + 5) ss es v1 st1 nz1" "hs_re st1 = Some (PublicKey_new epub X25519Type)"
      "hs_rs st1 = Some (PublicKey_new spub X25519Type)" "hs_status st1 = hs_status (sm_handshake sm)"
    using decode_message2_value [OF rel len(1,2,3,5) t] .
  have "hs_rel (b + 5) ss es v1 (sm_handshake (sm\<lparr>sm_handshake := st1\<rparr>)) nz1" using d(2) by simp
  then obtain peer v2 where i: "deserialize_payload svc q = Inr peer"
      "verify_identity svc peer (PublicKey_new spub X25519Type) (v1, sm\<lparr>sm_handshake := st1\<rparr>)
         = Inr (Inr (), (v2, (sm\<lparr>sm_handshake := st1\<rparr>)\<lparr>sm_their_identifier := Some who\<rparr>))"
      "hs_rel (b + 5) ss es v2 (sm_handshake (sm\<lparr>sm_handshake := st1\<rparr>)) nz1"
    using verify_identity_value [OF who] by blast
  have rel2: "hs_rel (b + 2 + 3) ss es v2 st1 nz1" using i(3) by (simp add: eval_nat_numeral)
  have re: "data (PublicKey_new epub X25519Type) = epub" by (simp add: PublicKey_new_def)
  obtain v3 st3 where e: "encode_message3 sha ops p (v2, st1) = Inr (Inr (d1 @ d2), (v3, st3))"
      "hs_rel (b + 2) ss es v3 st3 nz2" "length d1 = 48" "hs_rs st3 = hs_rs st1" "hs_status st3 = hs_status st1"
    using encode_message3_value [OF rel2 d(3) _ len(4), unfolded re, OF len(1) u] .
  obtain v4 st4 keys where f: "set_final_state ops Initiator (v3, st3) = Inr (Inr (), (v4, st4))"
      "hs_status st4 = Ready keys" "good b v4" "hs_rs st4 = hs_rs st3"
      "session_key look (drop 32 (derive (nz_ck nz2) [])) v4 (encryption_key keys)"
      "session_key look (take 32 (derive (nz_ck nz2) [])) v4 (decryption_key keys)"
    using final_state_value [OF e(2), of Initiator, unfolded is_initiator.simps if_True if_False] .
  have "initiator_on_event sha ops svc (ReceivedMessage (epub @ c1 @ c2)) (v, sm) = Inr (Inr (SendMessage (d1 @ d2)),
      (v4, sm\<lparr>sm_handshake := st4, sm_identity_payload := None, sm_their_identifier := Some who\<rparr>))"
    using st d(1,4) i(1,2) e(1) f(1) by (simp add: initiator_on_event_def get_rs_def ok_or_def run_simps run_ok_def)
  then show ?thesis
    by (rule that) (use e(3) f in \<open>simp_all add: get_handshake_results_def make_handshake_results_def get_handshake_keys_def\<close>)
qed

lemma responder_message3:
  assumes rel: "hs_rel (b + 5) ss es v (sm_handshake sm) nz"
    and st: "hs_status (sm_handshake sm) = WaitingForMessage3"
    and len: "length spub = 32" "length q \<le> max_plaintext" "length d1 = 48"
    and who: "vouches good look svc q spub who"
    and t: "noise_tail sha seal derive spub (agree es spub) q nz = (d1, d2, nz2)"
  obtains v' sm' keys where "responder_on_event sha ops svc (ReceivedMessage (d1 @ d2)) (v, sm)
      = Inr (Inr NoAction, (v', sm'))" "good b v'"
    "get_handshake_results sm' = Some \<lparr>handshake_keys = keys, their_identifier = who\<rparr>"
    "session_key look (take 32 (derive (nz_ck nz2) [])) v' (encryption_key keys)"
    "session_key look (drop 32 (derive (nz_ck nz2) [])) v' (decryption_key keys)"
proof -
  have rel: "hs_rel (b + 2 + 3) ss es v (sm_handshake sm) nz" using rel by (simp add: eval_nat_numeral)
  obtain v1 st1 where d: "decode_message3 sha ops (d1 @ d2) (v, sm_handshake sm) = Inr (Inr q, (v1, st1))"
      "hs_rel (b + 2) ss es v1 st1 nz2" "hs_rs st1 = Some (PublicKey_new spub X25519Type)"
      "hs_status st1 = hs_status (sm_handshake sm)"
    using decode_message3_value [OF rel len t] .
  have "hs_rel (b + 2) ss es v1 (sm_handshake (sm\<lparr>sm_handshake := st1\<rparr>)) nz2" using d(2) by simp
  then obtain peer v2 where i: "deserialize_payload svc q = Inr peer"
      "verify_identity svc peer (PublicKey_new spub X25519Type) (v1, sm\<lparr>sm_handshake := st1\<rparr>)
         = Inr (Inr (), (v2, (sm\<lparr>sm_handshake := st1\<rparr>)\<lparr>sm_their_identifier := Some who\<rparr>))"
      "hs_rel (b + 2) ss es v2 (sm_handshake (sm\<lparr>sm_handshake := st1\<rparr>)) nz2"
    using verify_identity_value [OF who] by blast
  have rel2: "hs_rel (b + 2) ss es v2 st1 nz2" using i(3) by simp
  obtain v4 st4 keys where f: "set_final_state ops Responder (v2, st1) = Inr (Inr (), (v4, st4))"
      "hs_status st4 = Ready keys" "good b v4" "hs_rs st4 = hs_rs st1"
      "session_key look (take 32 (derive (nz_ck nz2) [])) v4 (encryption_key keys)"
      "session_key look (drop 32 (derive (nz_ck nz2) [])) v4 (decryption_key keys)"
    using final_state_value [OF rel2, of Responder, unfolded is_initiator.simps if_True if_False] .
  have "responder_on_event sha ops svc (ReceivedMessage (d1 @ d2)) (v, sm) = Inr (Inr NoAction,
      (v4, sm\<lparr>sm_handshake := st4, sm_their_identifier := Some who\<rparr>))"
    using st d(1,3) i(1,2) f(1) by (simp add: responder_on_event_def get_rs_def ok_or_def run_simps run_ok_def)
  then show ?thesis
    by (rule that) (use f in \<open>simp_all add: get_handshake_results_def make_handshake_results_def get_handshake_keys_def\<close>)
qed

text \<open>Both parties run the same key schedule: what one seals with its own secret and the peer's public
  key, the other opens with the peer's and its own.\<close>

lemma exchange:
  assumes a: "good (b + 13) va" "new_machine look va sma ssa esa pa" "vouches good look svca pb (public ssb) idb"
    and b: "good (b + 13) vb" "new_machine look vb smb ssb esb pb" "vouches good look svcb pa (public ssa) ida"
  obtains m1 m2 m3 va1 a1 va2 a2 vb1 b1 vb2 b2 vb3 b3 ka kb k1 k2 where
    "initiator_on_event sha ops svca Initialize (va, sma) = Inr (Inr (SendMessage m1), (va1, a1))"
    "responder_on_event sha ops svcb Initialize (vb, smb) = Inr (Inr NoAction, (vb1, b1))"
    "responder_on_event sha ops svcb (ReceivedMessage m1) (vb1, b1) = Inr (Inr (SendMessage m2), (vb2, b2))"
    "initiator_on_event sha ops svca (ReceivedMessage m2) (va1, a1) = Inr (Inr (SendMessage m3), (va2, a2))"
    "responder_on_event sha ops svcb (ReceivedMessage m3) (vb2, b2) = Inr (Inr NoAction, (vb3, b3))"
    "get_handshake_results a2 = Some \<lparr>handshake_keys = ka, their_identifier = idb\<rparr>"
    "get_handshake_results b3 = Some \<lparr>handshake_keys = kb, their_identifier = ida\<rparr>"
    "good b va2" "good b vb3"
    "session_key look k1 va2 (encryption_key ka)" "session_key look k1 vb3 (decryption_key kb)"
    "session_key look k2 va2 (decryption_key ka)" "session_key look k2 vb3 (encryption_key kb)"
proof -
  have good: "good (b + 11 + 2) va" "good (b + 11 + 2) vb" using a(1) b(1) by (simp_all add: eval_nat_numeral)
  have len: "length ssa = 32" "length esa = 32" "length ssb = 32" "length esb = 32"
      "length pa \<le> max_plaintext" "length pb \<le> max_plaintext"
    using a(2) b(2) by (simp_all add: new_machine_def)
  note pubs = len(1-4) [THEN public_length [OF good(1)]]
  note com = agree_commutes [OF good(1)]
  let ?nz = "noise_hash sha [] (noise_hash sha (public esa) (noise_start sha))"
  let ?mix = "noise_mix_key derive (agree esb (public esa)) (noise_hash sha (public esb) ?nz)"
  obtain c1 c2 nz1 where t: "noise_tail sha seal derive (public ssb) (agree ssb (public esa)) pb ?mix = (c1, c2, nz1)"
    using prod_cases3 by blast
  obtain d1 d2 nz2 where u: "noise_tail sha seal derive (public ssa) (agree ssa (public esb)) pa nz1 = (d1, d2, nz2)"
    using prod_cases3 by blast
  obtain va1 a1 where A1: "initiator_on_event sha ops svca Initialize (va, sma)
        = Inr (Inr (SendMessage (public esa)), (va1, a1))"
      "hs_rel (b + 11) ssa esa va1 (sm_handshake a1) ?nz"
      "hs_status (sm_handshake a1) = WaitingForMessage2" "sm_identity_payload a1 = Some pa"
    using initiator_start [OF good(1) a(2)] .
  obtain vb1 b1 where B1: "responder_on_event sha ops svcb Initialize (vb, smb) = Inr (Inr NoAction, (vb1, b1))"
      "hs_rel (b + 11) ssb esb vb1 (sm_handshake b1) (noise_start sha)"
      "hs_status (sm_handshake b1) = WaitingForMessage1" "sm_identity_payload b1 = Some pb"
    using responder_start [OF good(2) b(2)] .
  have rb: "hs_rel (b + 5 + 6) ssb esb vb1 (sm_handshake b1) (noise_start sha)" using B1(2) by (simp add: eval_nat_numeral)
  obtain vb2 b2 where B2: "responder_on_event sha ops svcb (ReceivedMessage (public esa)) (vb1, b1)
        = Inr (Inr (SendMessage (public esb @ c1 @ c2)), (vb2, b2))"
      "hs_rel (b + 5) ssb esb vb2 (sm_handshake b2) nz1" "length c1 = 48"
      "hs_status (sm_handshake b2) = WaitingForMessage3"
    using responder_message1 [OF rb B1(3,4) pubs(2) len(6) t] .
  obtain va2 a2 ka where A2: "initiator_on_event sha ops svca (ReceivedMessage (public esb @ c1 @ c2)) (va1, a1)
        = Inr (Inr (SendMessage (d1 @ d2)), (va2, a2))" "length d1 = 48" "good b va2"
      "get_handshake_results a2 = Some \<lparr>handshake_keys = ka, their_identifier = idb\<rparr>"
      "session_key look (drop 32 (derive (nz_ck nz2) [])) va2 (encryption_key ka)"
      "session_key look (take 32 (derive (nz_ck nz2) [])) va2 (decryption_key ka)"
    using initiator_message2 [OF A1(2-4) pubs(4,3) len(6,5) B2(3) a(3) t [unfolded com [OF len(4) len(2)] com [OF len(3) len(2)]] u] .
  obtain vb3 b3 kb where B3: "responder_on_event sha ops svcb (ReceivedMessage (d1 @ d2)) (vb2, b2)
        = Inr (Inr NoAction, (vb3, b3))" "good b vb3"
      "get_handshake_results b3 = Some \<lparr>handshake_keys = kb, their_identifier = ida\<rparr>"
      "session_key look (take 32 (derive (nz_ck nz2) [])) vb3 (encryption_key kb)"
      "session_key look (drop 32 (derive (nz_ck nz2) [])) vb3 (decryption_key kb)"
    using responder_message3 [OF B2(2,4) pubs(1) len(5) A2(2) b(3) u [unfolded com [OF len(1) len(4)]]] .
  show ?thesis
    by (rule that [OF A1(1) B1(1) B2(1) A2(1) B3(1) A2(4) B3(3) A2(3) B3(2) A2(5) B3(5) A2(6) B3(4)])
qed

end

subsection \<open>The handshake over the vault of \<open>ockam_vault\<close>\<close>

text \<open>Two parties for the witnesses: vaults with two curve secrets each, and services for which a payload
  is a one-letter identity followed by its signature, the signed key itself.\<close>

definition sample_secret :: "char \<Rightarrow> Secret" where
  "sample_secret x = replicate 32 x"

definition sample_party :: "char \<Rightarrow> char \<Rightarrow> Vault" where
  "sample_party x y = sample_vault\<lparr>ephemeral_secrets :=
     [(''e'', curve_secret (sample_secret y)), (''s'', curve_secret (sample_secret x))]\<rparr>"

definition sample_machine :: "bytes \<Rightarrow> StateMachine" where
  "sample_machine p = \<lparr>sm_handshake = HandshakeState_new ''s'' ''e'', sm_identity_payload = Some p,
     sm_their_identifier = None\<rparr>"

definition sample_services :: "(Vault, bytes, unit) IdentityServices" where
  "sample_services =
     \<lparr>id_identifier = (\<lambda>i. i), id_get_identity = run_ok, id_export = Inr,
      id_create_signature = (\<lambda>i d. run_ok d), id_decode_identity = run_ok,
      id_verify_signature = (\<lambda>i s d. run_ok (s = d)), id_trust_check = (\<lambda>i. run_ok True),
      id_authority = None, id_receive_credential = (\<lambda>i a cr. run_ok ()), id_update_identity = (\<lambda>i. run_ok ()),
      bare_encode = (\<lambda>p. Inr (iac_identity p @ iac_signature p)),
      bare_decode = (\<lambda>b. Some \<lparr>iac_identity = take 1 b, iac_signature = drop 1 b, iac_credentials = []\<rparr>)\<rparr>"

lemma sample_party_good:
  assumes "b \<le> 256"
  shows "vault_good sample_crypto b (sample_party x y)"
proof -
  have "look_up (sample_party x y) (replicate 16 z) = None" for z
    by (simp add: sample_party_def bt_get_def numeral_eq_Suc)
  moreover have "random_id sample_crypto (sample_party x y) = random_id sample_crypto sample_vault"
    by (simp add: random_id_def [abs_def] sample_party_def)
  ultimately show ?thesis
    using sample_vault_good [OF assms] by (simp add: vault_good_def ids_fresh_def sample_ids) (simp add: sample_party_def)
qed

lemma sample_machine_new:
  "length p \<le> max_plaintext \<Longrightarrow>
   new_machine look_up (sample_party x y) (sample_machine p) (sample_secret x) (sample_secret y) p"
  by (simp add: new_machine_def sample_machine_def sample_party_def sample_secret_def HandshakeState_new_def bt_get_def)

lemma sample_services_vouch:
  "vouches (vault_good c) look_up sample_services (CHR ''A'' # s) s ''A''"
  "vouches (vault_good c) look_up sample_services (CHR ''B'' # s) s ''B''"
  by (simp_all add: vouches_def sample_services_def check_peer_def verify_signature_def verify_credentials_def
    PublicKey_new_def run_simps run_ok_def)

text \<open>The hypotheses of the handshake hold for the two parties.\<close>

lemma sample_hypotheses:
  fixes pa pb
  defines "pa \<equiv> CHR ''A'' # sample_secret (CHR ''1'')" and "pb \<equiv> CHR ''B'' # sample_secret (CHR ''3'')"
  shows "vault_good sample_crypto (3 + 13) (sample_party (CHR ''1'') (CHR ''2''))"
    "new_machine look_up (sample_party (CHR ''1'') (CHR ''2'')) (sample_machine pa)
       (sample_secret (CHR ''1'')) (sample_secret (CHR ''2'')) pa"
    "vouches (vault_good sample_crypto) look_up sample_services pb
       (x25519_public_key sample_crypto (sample_secret (CHR ''3''))) ''B''"
    "vault_good sample_crypto (3 + 13) (sample_party (CHR ''3'') (CHR ''4''))"
    "new_machine look_up (sample_party (CHR ''3'') (CHR ''4'')) (sample_machine pb)
       (sample_secret (CHR ''3'')) (sample_secret (CHR ''4'')) pb"
    "vouches (vault_good sample_crypto) look_up sample_services pa
       (x25519_public_key sample_crypto (sample_secret (CHR ''1''))) ''A''"
proof -
  have public: "x25519_public_key sample_crypto s = s" for s by (simp add: sample_crypto_def)
  show "vouches (vault_good sample_crypto) look_up sample_services pb
      (x25519_public_key sample_crypto (sample_secret (CHR ''3''))) ''B''"
    "vouches (vault_good sample_crypto) look_up sample_services pa
      (x25519_public_key sample_crypto (sample_secret (CHR ''1''))) ''A''"
    unfolding public pa_def pb_def by (rule sample_services_vouch)+
  have "length pa \<le> max_plaintext" "length pb \<le> max_plaintext"
    by (simp_all add: pa_def pb_def sample_secret_def max_plaintext_def)
  then show "new_machine look_up (sample_party (CHR ''1'') (CHR ''2'')) (sample_machine pa)
      (sample_secret (CHR ''1'')) (sample_secret (CHR ''2'')) pa"
    "new_machine look_up (sample_party (CHR ''3'') (CHR ''4'')) (sample_machine pb)
      (sample_secret (CHR ''3'')) (sample_secret (CHR ''4'')) pb"
    by (simp_all add: sample_machine_new)
qed (simp_all add: sample_party_good)

lemma sample_exchange:
  "\<exists>m1 m2 m3 va1 a1 va2 a2 vb1 b1 vb2 b2 vb3 b3 ka kb k1.
    initiator_on_event (sha256_digest sample_crypto) (to_xx_vault sample_crypto) sample_services Initialize
      (sample_party (CHR ''1'') (CHR ''2''), sample_machine (CHR ''A'' # sample_secret (CHR ''1'')))
      = Inr (Inr (SendMessage m1), (va1, a1))
    \<and> responder_on_event (sha256_digest sample_crypto) (to_xx_vault sample_crypto) sample_services Initialize
      (sample_party (CHR ''3'') (CHR ''4''), sample_machine (CHR ''B'' # sample_secret (CHR ''3'')))
      = Inr (Inr NoAction, (vb1, b1))
    \<and> responder_on_event (sha256_digest sample_crypto) (to_xx_vault sample_crypto) sample_services
      (ReceivedMessage m1) (vb1, b1) = Inr (Inr (SendMessage m2), (vb2, b2))
    \<and> initiator_on_event (sha256_digest sample_crypto) (to_xx_vault sample_crypto) sample_services
      (ReceivedMessage m2) (va1, a1) = Inr (Inr (SendMessage m3), (va2, a2))
    \<and> responder_on_event (sha256_digest sample_crypto) (to_xx_vault sample_crypto) sample_services
      (ReceivedMessage m3) (vb2, b2) = Inr (Inr NoAction, (vb3, b3))
    \<and> get_handshake_results a2 = Some \<lparr>handshake_keys = ka, their_identifier = ''B''\<rparr>
    \<and> get_handshake_results b3 = Some \<lparr>handshake_keys = kb, their_identifier = ''A''\<rparr>
    \<and> session_key look_up k1 va2 (encryption_key ka) \<and> session_key look_up k1 vb3 (decryption_key kb)"
  by (rule av.exchange [OF sample_hypotheses, of "sha256_digest sample_crypto"]) blast



end
