(* ===== verification/Handshake_Safety.thy ===== *)
theory Handshake_Safety
  imports Handshake_Machine
begin

text \<open>
  What a state machine reports, whatever vault and services it is given and whatever it receives: a
  machine that has session keys has verified an identity against the static key of the exchange.
  The proofs follow which fields of the handshake state each operation can change.
\<close>

subsection \<open>Fields that an operation leaves alone\<close>

locale handshake_field =
  fixes P :: "HandshakeState \<Rightarrow> bool"
  assumes P_fields: "P (st\<lparr>hs_s := s\<rparr>) = P st" "P (st\<lparr>hs_e := s\<rparr>) = P st" "P (st\<lparr>hs_k := s\<rparr>) = P st"
    "P (st\<lparr>hs_ck := s\<rparr>) = P st" "P (st\<lparr>hs_re := re\<rparr>) = P st" "P (st\<lparr>hs_h := h\<rparr>) = P st"
    "P (st\<lparr>hs_n := n\<rparr>) = P st"

sublocale handshake_field \<subseteq> state_invariant "\<lambda>w :: 'v \<times> HandshakeState. P (snd w)" .

context handshake_field
begin

lemma keeps_fst: "keeps (run_fst m) w"
  by (auto simp: keeps_def run_fst_def split: sum.splits)

lemma keeps_result: "keeps (run_result r) w"
  by (cases r) (simp_all add: run_simps keeps_ok keeps_err)

lemma keeps_get: "keeps run_get w"
  by (auto simp: keeps_def run_get_def run_ok_def)

lemma keeps_put: "(P (snd w) \<Longrightarrow> P st) \<Longrightarrow> keeps (run_put st) w"
  by (auto simp: keeps_def run_put_def run_ok_def)

lemma keeps_modify: "(\<And>st. P st \<Longrightarrow> P (f st)) \<Longrightarrow> keeps (run_modify f) w"
  by (auto simp: keeps_def run_modify_def run_get_def run_put_def run_bind_def run_ok_def)

lemma keeps_copy: "keeps m w \<Longrightarrow> keeps (on_copy m) w"
  by (auto simp: keeps_def on_copy_def split: sum.splits prod.splits)

lemmas keeps_rules = keeps_bind keeps_ok keeps_err keeps_fst keeps_result keeps_get keeps_modify keeps_copy

lemma keeps_fields:
  "keeps get_s w" "keeps get_e w" "keeps get_k w" "keeps get_ck w" "keeps get_re w" "keeps get_rs w"
  by (simp_all add: get_s_def get_e_def get_k_def get_ck_def get_re_def get_rs_def keeps_rules)

lemma keeps_take: "keeps take_s w" "keeps take_e w" "keeps take_k w" "keeps take_ck w"
  by (auto simp: keeps_def take_s_def take_e_def take_k_def take_ck_def run_get_def run_put_def run_bind_def
    run_ok_def run_result_def run_err_def P_fields split: sum.splits)

lemma keeps_delete: "keeps (hs_delete vault k) w"
  by (simp add: hs_delete_def keeps_rules)

lemma keeps_hkdf: "keeps (hkdf vault d) w"
  unfolding hkdf_def
  by (auto intro!: keeps_rules keeps_fields keeps_take keeps_delete simp: P_fields)

lemma keeps_seal: "keeps (encrypt_and_hash sha vault p) w" "keeps (hash_and_decrypt sha vault p) w"
  unfolding encrypt_and_hash_def hash_and_decrypt_def
  by (auto intro!: keeps_rules keeps_fields keeps_put simp: P_fields mix_hash_def run_get_def run_ok_def)

lemmas keeps_steps = keeps_rules keeps_fields keeps_take keeps_delete keeps_hkdf keeps_seal

lemma keeps_initialize: "keeps (Handshake_initialize sha vault) w"
  unfolding Handshake_initialize_def import_k_secret_def import_ck_secret_def
  by (auto intro!: keeps_steps simp: P_fields)

lemma keeps_message1: "keeps (encode_message1 sha vault p) w" "keeps (decode_message1 sha m) w"
  unfolding encode_message1_def decode_message1_def hs_public_key_def
  by (auto intro!: keeps_steps simp: P_fields mix_hash_def)

lemma keeps_encode: "keeps (encode_message2 sha vault p) w" "keeps (encode_message3 sha vault p) w"
  unfolding encode_message2_def encode_message3_def hs_public_key_def dh_def
  by (auto intro!: keeps_steps simp: P_fields mix_hash_def)

end

text \<open>Nothing but \<open>set_final_state\<close> changes the status, and nothing but reading the peer's static key changes
  that key.\<close>

interpretation same_status: handshake_field "\<lambda>st. hs_status st = x" for x
  by unfold_locales simp_all

interpretation same_rs: handshake_field "\<lambda>st. hs_rs st = x" for x
  by unfold_locales simp_all

lemma status_decode:
  "same_status.keeps x (decode_message2 sha vault m) w" "same_status.keeps x (decode_message3 sha vault m) w"
  unfolding decode_message2_def decode_message3_def dh_def
  by (auto intro!: same_status.keeps_steps simp: mix_hash_def)

lemma rs_final: "same_rs.keeps x (set_final_state vault role) w"
  unfolding set_final_state_def compute_final_keys_def delete_handshake_keys_def
  by (auto intro!: same_rs.keeps_steps same_rs.keeps_each simp: Let_def)

subsection \<open>Authentication\<close>

text \<open>The services decoded an identity \<open>who\<close>, verified its signature of the public key \<open>pk\<close>, and the
  trust policy accepted it.  Credentials are only accepted with an authority to verify them.\<close>

definition authenticated_by :: "('v, 'i, 'cr) IdentityServices \<Rightarrow> IdentityIdentifier \<Rightarrow> PublicKey \<Rightarrow> bool" where
  "authenticated_by svc who pk \<longleftrightarrow> (\<exists>(peer :: 'cr IdentityAndCredentials) identity v v1 v2 v3.
     id_decode_identity svc (iac_identity peer) v = Inr (Inr identity, v1)
     \<and> id_identifier svc identity = who
     \<and> id_verify_signature svc identity (iac_signature peer) (data pk) v1 = Inr (Inr True, v2)
     \<and> id_trust_check svc who v2 = Inr (Inr True, v3)
     \<and> (id_authority svc = None \<longrightarrow> iac_credentials peer = []))"

definition machine_authenticated :: "('v, 'i, 'cr) IdentityServices \<Rightarrow> StateMachine \<Rightarrow> bool" where
  "machine_authenticated svc sm \<longleftrightarrow> (\<forall>keys. hs_status (sm_handshake sm) = Ready keys \<longrightarrow>
     (\<exists>who pk. sm_their_identifier sm = Some who \<and> hs_rs (sm_handshake sm) = Some pk \<and> authenticated_by svc who pk))"

lemma check_peer_authenticated:
  assumes "check_peer svc peer pk v = Inr (Inr who, v')"
  shows "authenticated_by svc who pk"
proof -
  obtain identity v1 v2 v3 where "id_decode_identity svc (iac_identity peer) v = Inr (Inr identity, v1)"
      "id_identifier svc identity = who"
      "id_verify_signature svc identity (iac_signature peer) (data pk) v1 = Inr (Inr True, v2)"
      "id_trust_check svc who v2 = Inr (Inr True, v3)" "id_authority svc = None \<longrightarrow> iac_credentials peer = []"
    using assms unfolding check_peer_def verify_signature_def verify_credentials_def
    by (auto elim!: run_bind_cases simp: run_ok_def run_err_def split: if_splits option.splits)
  then show ?thesis unfolding authenticated_by_def by (intro exI conjI)
qed

abbreviation waiting :: "Status \<Rightarrow> 'v \<times> StateMachine \<Rightarrow> bool" where
  "waiting x w \<equiv> hs_status (sm_handshake (snd w)) = x"

abbreviation checked :: "IdentityIdentifier \<Rightarrow> PublicKey \<Rightarrow> 'v \<times> StateMachine \<Rightarrow> bool" where
  "checked who pk w \<equiv> sm_their_identifier (snd w) = Some who \<and> hs_rs (sm_handshake (snd w)) = Some pk"

lemma on_handshake_cases:
  assumes "on_handshake m w = Inr (r, w')"
  obtains st where "m (fst w, sm_handshake (snd w)) = Inr (r, (fst w', st))" "snd w' = (snd w)\<lparr>sm_handshake := st\<rparr>"
  using assms by (auto simp: on_handshake_def split: sum.splits prod.splits)

lemma on_handshake_status:
  assumes "on_handshake m w = Inr (r, w')" "waiting x w" "\<And>w. same_status.keeps x m w"
  shows "waiting x w'"
  using assms(2,3) by (rule_tac on_handshake_cases [OF assms(1)]) (fastforce dest: same_status.keepsD)

lemma on_handshake_checked:
  assumes "on_handshake m w = Inr (r, w')" "checked who pk w" "\<And>w. same_rs.keeps (Some pk) m w"
  shows "checked who pk w'"
  using assms(2,3) by (rule_tac on_handshake_cases [OF assms(1)]) (fastforce dest: same_rs.keepsD)

lemma verify_identity_ends:
  assumes "verify_identity svc peer pk w = Inr (r, w')"
  shows "sm_handshake (snd w') = sm_handshake (snd w)"
    and "r = Inr () \<Longrightarrow> \<exists>who. sm_their_identifier (snd w') = Some who \<and> authenticated_by svc who pk"
  using assms check_peer_authenticated [of svc peer pk "fst w"] unfolding verify_identity_def
  by (auto elim!: run_bind_cases
      simp: run_fst_def run_modify_def run_get_def run_put_def run_ok_def split: sum.splits)

lemma take_identity_payload_ends:
  assumes "take_identity_payload w = Inr (r, w')"
  shows "sm_handshake (snd w') = sm_handshake (snd w)" "sm_their_identifier (snd w') = sm_their_identifier (snd w)"
  using assms unfolding take_identity_payload_def
  by (auto elim!: run_bind_cases simp: run_get_def run_put_def run_ok_def run_result_def run_err_def split: sum.splits)

lemma final_authenticated:
  assumes "on_handshake (set_final_state vault role) w = Inr (r, w')" "checked who pk w" "authenticated_by svc who pk"
  shows "machine_authenticated svc (snd w')"
  using on_handshake_checked [OF assms(1,2) rs_final] assms(3) by (simp add: machine_authenticated_def)

lemma waiting_authenticated: "waiting x w \<Longrightarrow> \<forall>keys. x \<noteq> Ready keys \<Longrightarrow> machine_authenticated svc (snd w)"
  by (simp add: machine_authenticated_def)

lemma get_rs_ends:
  assumes "on_handshake get_rs w = Inr (r, w')"
  shows "w' = w" "r = ok_or (hs_rs (sm_handshake (snd w))) not_set"
  using assms by (auto simp: on_handshake_def get_rs_def run_get_def run_ok_def run_bind_def run_result_def
      run_err_def split: sum.splits prod.splits)

lemma run_result_ends: "run_result x w = Inr (r, w') \<Longrightarrow> w' = w"
  by (auto simp: run_result_def run_ok_def run_err_def split: sum.splits)

text \<open>The part that both machines share: read the payload, verify it against the static key, go on.\<close>

lemma verify_then:
  assumes run: "run_bind (run_result (deserialize_payload svc p)) (\<lambda>peer. run_bind (on_handshake get_rs) (\<lambda>rs.
       run_then (verify_identity svc peer rs) k)) w = Inr (r, w')"
    and w: "waiting x w" "\<forall>keys. x \<noteq> Ready keys"
    and after: "\<And>w1 who pk. k w1 = Inr (r, w') \<Longrightarrow> waiting x w1 \<Longrightarrow> checked who pk w1
      \<Longrightarrow> authenticated_by svc who pk \<Longrightarrow> machine_authenticated svc (snd w')"
  shows "machine_authenticated svc (snd w')"
  using run
proof (elim run_bind_cases)
  fix e assume "run_result (deserialize_payload svc p) w = Inr (Inl e, w')"
  then show ?thesis using run_result_ends waiting_authenticated w by metis
next
  fix e peer w1 assume "run_result (deserialize_payload svc p) w = Inr (Inr peer, w1)"
    "on_handshake get_rs w1 = Inr (Inl e, w')"
  then show ?thesis using run_result_ends get_rs_ends(1) waiting_authenticated w by metis
next
  fix e peer w1 rs w2 assume "run_result (deserialize_payload svc p) w = Inr (Inr peer, w1)"
    "on_handshake get_rs w1 = Inr (Inr rs, w2)" "verify_identity svc peer rs w2 = Inr (Inl e, w')"
  then show ?thesis using run_result_ends get_rs_ends(1) verify_identity_ends(1) waiting_authenticated w by metis
next
  fix peer w1 rs w2 u w3 assume p: "run_result (deserialize_payload svc p) w = Inr (Inr peer, w1)"
    and rs: "on_handshake get_rs w1 = Inr (Inr rs, w2)" and v: "verify_identity svc peer rs w2 = Inr (Inr u, w3)"
    and k: "k w3 = Inr (r, w')"
  have eq: "w1 = w" "w2 = w" "hs_rs (sm_handshake (snd w)) = Some rs"
    using run_result_ends [OF p] get_rs_ends [OF rs] by (auto simp: ok_or_def split: option.splits)
  have hs: "sm_handshake (snd w3) = sm_handshake (snd w)" using verify_identity_ends(1) [OF v] eq by simp
  obtain who where who: "sm_their_identifier (snd w3) = Some who" "authenticated_by svc who rs"
    using verify_identity_ends(2) [OF v] by auto
  show ?thesis by (rule after [OF k _ _ who(2)]) (use hs w eq who in simp_all)
qed

lemma set_status_waiting: "set_status s w = Inr (r, w') \<Longrightarrow> waiting s w'"
  by (cases w) (auto simp: run_simps)

lemma run_ok_ends: "run_ok a w = Inr (r, w') \<Longrightarrow> w' = w"
  by (simp add: run_ok_def)

lemma initiator_after_verify:
  assumes run: "run_bind take_identity_payload (\<lambda>p. run_bind (on_handshake (encode_message3 sha vault p)) (\<lambda>m.
      run_then (on_handshake (set_final_state vault Initiator)) (run_ok (SendMessage m)))) w = Inr (r, w')"
    and w: "checked who pk w" "authenticated_by svc who pk" "waiting x w" "\<forall>keys. x \<noteq> Ready keys"
  shows "machine_authenticated svc (snd w')"
proof -
  have take: "waiting x w1 \<and> checked who pk w1" if "take_identity_payload w = Inr (q, w1)" for q w1
    using take_identity_payload_ends [OF that] w by simp
  have encode: "waiting x w2 \<and> checked who pk w2"
    if "take_identity_payload w = Inr (q, w1)" "on_handshake (encode_message3 sha vault p) w1 = Inr (t, w2)" for q w1 p t w2
    using take [OF that(1)] on_handshake_status [OF that(2)] on_handshake_checked [OF that(2)]
      same_status.keeps_encode(2) same_rs.keeps_encode(2) by blast
  show ?thesis
    using run w
    by (elim run_bind_cases)
      (use take encode final_authenticated run_ok_ends waiting_authenticated in \<open>metis+\<close>)
qed

lemma initiator_keeps_authenticated:
  assumes run: "initiator_on_event sha vault svc ev w = Inr (r, w')" and inv: "machine_authenticated svc (snd w)"
  shows "machine_authenticated svc (snd w')"
proof -
  consider "waiting Initial w" "ev = Initialize" | m where "waiting WaitingForMessage2 w" "ev = ReceivedMessage m"
    | "initiator_on_event sha vault svc ev w = run_err unexpected w"
    by (cases w; cases "hs_status (sm_handshake (snd w))"; cases ev) (auto simp: initiator_on_event_def run_simps)
  then show ?thesis
  proof cases
    case 1
    then have "run_then (on_handshake (Handshake_initialize sha vault))
        (run_bind (on_handshake (encode_message1 sha vault [])) (\<lambda>message1.
         run_then (set_status WaitingForMessage2) (run_ok (SendMessage message1)))) w = Inr (r, w')"
      using run by (cases w) (simp add: initiator_on_event_def run_simps)
    then show ?thesis
      by (elim run_bind_cases)
        (metis 1(1) on_handshake_status same_status.keeps_initialize same_status.keeps_message1(1)
           waiting_authenticated set_status_waiting run_ok_ends Status.distinct)+
  next
    case (2 m)
    then have "run_bind (on_handshake (decode_message2 sha vault m)) (\<lambda>message2_payload.
         run_bind (run_result (deserialize_payload svc message2_payload)) (\<lambda>peer.
         run_bind (on_handshake get_rs) (\<lambda>rs.
         run_then (verify_identity svc peer rs)
        (run_bind take_identity_payload (\<lambda>identity_payload.
         run_bind (on_handshake (encode_message3 sha vault identity_payload)) (\<lambda>message3.
         run_then (on_handshake (set_final_state vault Initiator))
         (run_ok (SendMessage message3)))))))) w = Inr (r, w')"
      using run by (cases w) (simp add: initiator_on_event_def run_simps)
    then show ?thesis
    proof (rule run_bind_cases)
      fix e assume "on_handshake (decode_message2 sha vault m) w = Inr (Inl e, w')"
      from waiting_authenticated [OF on_handshake_status [OF this 2(1) status_decode(1)]] show ?thesis by simp
    next
      fix p w1 assume d: "on_handshake (decode_message2 sha vault m) w = Inr (Inr p, w1)"
      note w1 = on_handshake_status [OF d 2(1) status_decode(1)]
      assume rest: "run_bind (run_result (deserialize_payload svc p)) (\<lambda>peer.
         run_bind (on_handshake get_rs) (\<lambda>rs.
         run_then (verify_identity svc peer rs)
        (run_bind take_identity_payload (\<lambda>identity_payload.
         run_bind (on_handshake (encode_message3 sha vault identity_payload)) (\<lambda>message3.
         run_then (on_handshake (set_final_state vault Initiator))
         (run_ok (SendMessage message3))))))) w1 = Inr (r, w')"
      show ?thesis
        by (rule verify_then [OF rest w1]) (auto intro: initiator_after_verify)
    qed
  next
    case 3
    then show ?thesis using run inv by (simp add: run_err_def)
  qed
qed

lemma responder_keeps_authenticated:
  assumes run: "responder_on_event sha vault svc ev w = Inr (r, w')" and inv: "machine_authenticated svc (snd w)"
  shows "machine_authenticated svc (snd w')"
proof -
  consider "waiting Initial w" "ev = Initialize" | m where "waiting WaitingForMessage1 w" "ev = ReceivedMessage m"
    | m where "waiting WaitingForMessage3 w" "ev = ReceivedMessage m"
    | "responder_on_event sha vault svc ev w = run_err unexpected w"
    by (cases w; cases "hs_status (sm_handshake (snd w))"; cases ev) (auto simp: responder_on_event_def run_simps)
  then show ?thesis
  proof cases
    case 1
    then have "run_then (on_handshake (Handshake_initialize sha vault))
        (run_then (set_status WaitingForMessage1) (run_ok NoAction)) w = Inr (r, w')"
      using run by (cases w) (simp add: responder_on_event_def run_simps)
    then show ?thesis
      by (elim run_bind_cases)
        (metis 1(1) on_handshake_status same_status.keeps_initialize
           waiting_authenticated set_status_waiting run_ok_ends Status.distinct)+
  next
    case (2 m)
    then have "run_bind (on_handshake (decode_message1 sha m)) (\<lambda>_.
         run_bind take_identity_payload (\<lambda>identity_payload.
         run_bind (on_handshake (encode_message2 sha vault identity_payload)) (\<lambda>message2.
         run_then (set_status WaitingForMessage3) (run_ok (SendMessage message2))))) w = Inr (r, w')"
      using run by (cases w) (simp add: responder_on_event_def run_simps)
    then show ?thesis
      by (elim run_bind_cases)
        (metis 2(1) on_handshake_status same_status.keeps_message1(2) same_status.keeps_encode(1)
           take_identity_payload_ends(1) waiting_authenticated set_status_waiting run_ok_ends Status.distinct)+
  next
    case (3 m)
    let ?rest = "\<lambda>p. run_bind (run_result (deserialize_payload svc p)) (\<lambda>peer.
         run_bind (on_handshake get_rs) (\<lambda>rs.
         run_then (verify_identity svc peer rs)
        (run_then (on_handshake (set_final_state vault Responder)) (run_ok NoAction))))"
    have "run_bind (on_handshake (decode_message3 sha vault m)) ?rest w = Inr (r, w')"
      using run 3 by (cases w) (simp add: responder_on_event_def run_simps)
    then show ?thesis
    proof (rule run_bind_cases)
      fix e assume "on_handshake (decode_message3 sha vault m) w = Inr (Inl e, w')"
      from waiting_authenticated [OF on_handshake_status [OF this 3(1) status_decode(2)]] show ?thesis by simp
    next
      fix p w1 assume d: "on_handshake (decode_message3 sha vault m) w = Inr (Inr p, w1)" and rest: "?rest p w1 = Inr (r, w')"
      note w1 = on_handshake_status [OF d 3(1) status_decode(2)]
      show ?thesis
        by (rule verify_then [OF rest w1]) (auto elim!: run_bind_cases dest: run_ok_ends intro: final_authenticated)
    qed
  next
    case 4
    then show ?thesis using run inv by (simp add: run_err_def)
  qed
qed

lemma results_authenticated:
  assumes "hs_status (sm_handshake sm) = Initial"
    and "run_map (\<lambda>ev. run_try (on_event ev)) events (v, sm) = Inr (rs, (v', sm'))"
    and "on_event = initiator_on_event sha vault svc \<or> on_event = responder_on_event sha vault svc"
    and "get_handshake_results sm' = Some results"
  shows "\<exists>pk. hs_rs (sm_handshake sm') = Some pk \<and> authenticated_by svc (their_identifier results) pk"
proof -
  have step: "machine_authenticated svc (snd w')"
    if ev: "run_try (on_event ev) w = Inr (r, w')" "machine_authenticated svc (snd w)" for ev w r w'
  proof -
    obtain q where "on_event ev w = Inr (q, w')"
      using ev(1) by (auto simp: run_try_def split: sum.splits prod.splits)
    with ev(2) assms(3) initiator_keeps_authenticated responder_keeps_authenticated show ?thesis by metis
  qed
  have "machine_authenticated svc (snd w')"
    if "run_map (\<lambda>ev. run_try (on_event ev)) events w = Inr (rs, w')" "machine_authenticated svc (snd w)" for w rs w'
    using that
  proof (induction events arbitrary: w rs)
    case (Cons ev events)
    from Cons.prems(1) show ?case unfolding run_map.simps
    proof (elim run_bind_cases)
      fix e assume "run_try (on_event ev) w = Inr (Inl e, w')"
      with step Cons.prems(2) show ?thesis by blast
    next
      fix y w1 e assume "run_try (on_event ev) w = Inr (Inr y, w1)"
        "run_map (\<lambda>ev. run_try (on_event ev)) events w1 = Inr (Inl e, w')"
      with Cons.IH step Cons.prems(2) show ?thesis by blast
    next
      fix y w1 ys w2 assume "run_try (on_event ev) w = Inr (Inr y, w1)"
        "run_map (\<lambda>ev. run_try (on_event ev)) events w1 = Inr (Inr ys, w2)" "run_ok (y # ys) w2 = Inr (rs, w')"
      with Cons.IH step Cons.prems(2) run_ok_ends show ?thesis by metis
    qed
  qed (simp add: run_ok_def)
  from this [OF assms(2)] assms(1,4) show ?thesis
    by (auto simp: machine_authenticated_def get_handshake_results_def make_handshake_results_def
      get_handshake_keys_def split: option.splits Status.splits)
qed

text \<open>C4: a state machine, initiator or responder, with any vault and any services, is fed any
  events in any order, failing ones included.  If it ever reports results, then the identity in
  them was decoded from a payload, its signature of the static public key used in this exchange was
  verified, the trust policy accepted it, and credentials came with it only if there was an
  authority to check them.\<close>

theorem handshake_results_authenticated:
  assumes "hs_status (sm_handshake sm) = Initial"
    and "run_map (\<lambda>ev. run_try (on_event ev)) events (v, sm) = Inr (rs, (v', sm'))"
    and "on_event = initiator_on_event sha vault svc \<or> on_event = responder_on_event sha vault svc"
    and "get_handshake_results sm' = Some results"
  shows "\<exists>pk. hs_rs (sm_handshake sm') = Some pk \<and> authenticated_by svc (their_identifier results) pk"
  using results_authenticated [OF assms] .

theorem handshake_results_authenticated_witness:
  "\<exists>m1 m3 rs v' sm' pk.
    run_map (\<lambda>ev. run_try (responder_on_event (sha256_digest sample_crypto) (to_xx_vault sample_crypto) sample_services ev))
      [Initialize, ReceivedMessage m1, ReceivedMessage m3]
      (sample_party (CHR ''3'') (CHR ''4''), sample_machine (CHR ''B'' # sample_secret (CHR ''3''))) = Inr (rs, (v', sm'))
    \<and> hs_rs (sm_handshake sm') = Some pk \<and> authenticated_by sample_services ''A'' pk"
proof -
  let ?on = "responder_on_event (sha256_digest sample_crypto) (to_xx_vault sample_crypto) sample_services"
  let ?w = "(sample_party (CHR ''3'') (CHR ''4''), sample_machine (CHR ''B'' # sample_secret (CHR ''3'')))"
  obtain m1 m2 m3 vb1 b1 vb2 b2 vb3 b3 kb where run: "?on Initialize ?w = Inr (Inr NoAction, (vb1, b1))"
      "?on (ReceivedMessage m1) (vb1, b1) = Inr (Inr (SendMessage m2), (vb2, b2))"
      "?on (ReceivedMessage m3) (vb2, b2) = Inr (Inr NoAction, (vb3, b3))"
    and results: "get_handshake_results b3 = Some \<lparr>handshake_keys = kb, their_identifier = ''A''\<rparr>"
    using sample_exchange by blast
  let ?events = "[Initialize, ReceivedMessage m1, ReceivedMessage m3]"
  have all: "run_map (\<lambda>ev. run_try (?on ev)) ?events ?w
      = Inr (Inr [Inr NoAction, Inr (SendMessage m2), Inr NoAction], (vb3, b3))"
    using run by (simp add: run_simps run_ok_def)
  have start: "hs_status (sm_handshake (sample_machine p)) = Initial" for p
    by (simp add: sample_machine_def HandshakeState_new_def)
  have "\<exists>pk. hs_rs (sm_handshake b3) = Some pk \<and> authenticated_by sample_services ''A'' pk"
    using handshake_results_authenticated [OF start all disjI2 [OF refl] results] by simp
  with all show ?thesis by blast
qed

end
