(* ===== verification/Net_Addr.thy ===== *)
theory Net_Addr
  imports Ockam_Prelude
begin

text \<open>
  The internet addresses of the standard library (\<open>std::net\<close>, as of Rust 1.71, the toolchain of the
  repository): parsing and printing of \<open>Ipv4Addr\<close> and \<open>Ipv6Addr\<close>, and printing of socket addresses.
  An address is its list of octets, four or sixteen bytes.

  Shown: every address is read back from its printed form, whichever of the forms of an IPv6 address the
  printer picks.
\<close>

subsection \<open>The parser\<close>

type_synonym 'a reader = "string \<Rightarrow> ('a \<times> string) option"

fun read_digits :: "nat \<Rightarrow> nat \<Rightarrow> nat \<Rightarrow> nat \<Rightarrow> nat \<Rightarrow> string \<Rightarrow> (nat \<times> nat \<times> string) option" where
  "read_digits radix max_digits bound n acc [] = Some (n, acc, [])"
| "read_digits radix max_digits bound n acc (c # cs) = (case radix_digit radix c of
     None \<Rightarrow> Some (n, acc, c # cs)
   | Some d \<Rightarrow>
       if bound < acc * radix \<or> bound < acc * radix + d \<or> max_digits < n + 1 then None
       else read_digits radix max_digits bound (n + 1) (acc * radix + d) cs)"

definition read_number :: "nat \<Rightarrow> nat \<Rightarrow> bool \<Rightarrow> nat \<Rightarrow> nat reader" where
  "read_number radix max_digits allow_zero_prefix bound s = (case read_digits radix max_digits bound 0 0 s of
     None \<Rightarrow> None
   | Some (n, v, rest) \<Rightarrow>
       if n = 0 then None
       else if \<not> allow_zero_prefix \<and> prefix ''0'' s \<and> n > 1 then None
       else Some (v, rest))"

fun read_given_char :: "char \<Rightarrow> string \<Rightarrow> string option" where
  "read_given_char c [] = None"
| "read_given_char c (x # xs) = (if x = c then Some xs else None)"

definition read_separator :: "char \<Rightarrow> nat \<Rightarrow> 'a reader \<Rightarrow> 'a reader" where
  "read_separator sep index inner s =
     (if index > 0 then (case read_given_char sep s of None \<Rightarrow> None | Some s' \<Rightarrow> inner s') else inner s)"

fun read_octets :: "nat \<Rightarrow> nat \<Rightarrow> nat list reader" where
  "read_octets i 0 s = Some ([], s)"
| "read_octets i (Suc k) s = (case read_separator (CHR ''.'') i (read_number 10 3 False 255) s of
     None \<Rightarrow> None
   | Some (g, s') \<Rightarrow> (case read_octets (i + 1) k s' of
       None \<Rightarrow> None
     | Some (gs, s'') \<Rightarrow> Some (g # gs, s'')))"

definition read_ipv4_addr :: "bytes reader" where
  "read_ipv4_addr s = map_option (\<lambda>(gs, rest). (map char_of gs, rest)) (read_octets 0 4 s)"

definition be_pair :: "char \<Rightarrow> char \<Rightarrow> nat" where
  "be_pair a b = of_char a * 256 + of_char b"

fun segments :: "bytes \<Rightarrow> nat list" where
  "segments (a # b # rest) = be_pair a b # segments rest"
| "segments _ = []"

definition octets :: "nat list \<Rightarrow> bytes" where
  "octets gs = concat (map (\<lambda>g. [char_of (g div 256), char_of (g mod 256)]) gs)"

text \<open>Groups \<open>i\<close> to \<open>limit\<close> of an IPv6 address: those read, whether they end in an embedded IPv4
  address, and what is left.\<close>

function read_groups :: "nat \<Rightarrow> nat \<Rightarrow> string \<Rightarrow> nat list \<times> bool \<times> string" where
  "read_groups limit i s =
     (if limit \<le> i then ([], False, s)
      else case (if i < limit - 1 then read_separator (CHR '':'') i read_ipv4_addr s else None) of
        Some (v4, s') \<Rightarrow> (segments v4, True, s')
      | None \<Rightarrow> (case read_separator (CHR '':'') i (read_number 16 4 True 65535) s of
          Some (g, s') \<Rightarrow> (let (gs, v4, s'') = read_groups limit (i + 1) s' in (g # gs, v4, s''))
        | None \<Rightarrow> ([], False, s)))"
  by auto
termination by (relation "measure (\<lambda>(limit, i, s). limit - i)") auto

declare read_groups.simps [simp del]

definition read_ipv6_addr :: "bytes reader" where
  "read_ipv6_addr s =
     (let (head, head_ipv4, s1) = read_groups 8 0 s in
      if length head = 8 then Some (octets head, s1)
      else if head_ipv4 then None
      else case Option.bind (read_given_char (CHR '':'') s1) (read_given_char (CHR '':'')) of
        None \<Rightarrow> None
      | Some s2 \<Rightarrow>
          let (tail, tail_ipv4, s3) = read_groups (8 - (length head + 1)) 0 s2
          in Some (octets (head @ replicate (8 - (length head + length tail)) 0 @ tail), s3))"

definition parse_with :: "'a reader \<Rightarrow> string \<Rightarrow> 'a option" where
  "parse_with inner s = (case inner s of Some (a, []) \<Rightarrow> Some a | _ \<Rightarrow> None)"

definition Ipv4Addr_from_str :: "string \<Rightarrow> bytes option" where
  "Ipv4Addr_from_str s = (if 15 < length s then None else parse_with read_ipv4_addr s)"

definition Ipv6Addr_from_str :: "string \<Rightarrow> bytes option" where
  "Ipv6Addr_from_str s = parse_with read_ipv6_addr s"

subsection \<open>The printer\<close>

definition hex_char :: "nat \<Rightarrow> char" where
  "hex_char d = (if d < 10 then char_of (48 + d) else char_of (87 + d))"

fun show_hex :: "nat \<Rightarrow> string" where
  "show_hex n = (if n < 16 then [hex_char n] else show_hex (n div 16) @ [hex_char (n mod 16)])"

declare show_hex.simps [simp del]

definition Ipv4Addr_display :: "bytes \<Rightarrow> string" where
  "Ipv4Addr_display a = join_with ''.'' (map (\<lambda>b. show_nat (of_char b)) a)"

definition fmt_subslice :: "nat list \<Rightarrow> string" where
  "fmt_subslice chunk = join_with '':'' (map show_hex chunk)"

text \<open>The longest run of zero groups, the first one if there are several: its start and length.\<close>

fun zero_span :: "nat \<Rightarrow> nat \<times> nat \<Rightarrow> nat \<times> nat \<Rightarrow> nat list \<Rightarrow> nat \<times> nat" where
  "zero_span i current longest [] = longest"
| "zero_span i current longest (g # gs) =
     (if g = 0 then
        let current = (if snd current = 0 then i else fst current, snd current + 1);
            longest = (if snd longest < snd current then current else longest)
        in zero_span (i + 1) current longest gs
      else zero_span (i + 1) (0, 0) longest gs)"

definition to_ipv4 :: "bytes \<Rightarrow> bytes option" where
  "to_ipv4 a = (let gs = segments a in
     if take 5 gs = replicate 5 0 \<and> gs ! 5 \<in> {0, 65535} then Some (drop 12 a) else None)"

definition Ipv6Addr_display :: "bytes \<Rightarrow> string" where
  "Ipv6Addr_display a =
     (let gs = segments a in
      if gs = replicate 8 0 then ''::''
      else if gs = replicate 7 0 @ [1] then ''::1''
      else case to_ipv4 a of
        Some v4 \<Rightarrow> if gs ! 5 = 0 then ''::'' @ Ipv4Addr_display v4 else ''::ffff:'' @ Ipv4Addr_display v4
      | None \<Rightarrow>
          let (start, n) = zero_span 0 (0, 0) (0, 0) gs in
          if n > 1 then fmt_subslice (take start gs) @ ''::'' @ fmt_subslice (drop (start + n) gs)
          else fmt_subslice gs)"

definition SocketAddrV4_display :: "bytes \<Rightarrow> nat \<Rightarrow> string" where
  "SocketAddrV4_display ip port = Ipv4Addr_display ip @ '':'' @ show_nat port"

definition SocketAddrV6_display :: "bytes \<Rightarrow> nat \<Rightarrow> string" where
  "SocketAddrV6_display ip port = ''['' @ Ipv6Addr_display ip @ '']:'' @ show_nat port"

subsection \<open>Numbers\<close>

fun radix_value :: "nat \<Rightarrow> nat \<Rightarrow> string \<Rightarrow> nat option" where
  "radix_value radix acc [] = Some acc"
| "radix_value radix acc (c # cs) = (case radix_digit radix c of
     None \<Rightarrow> None | Some d \<Rightarrow> radix_value radix (acc * radix + d) cs)"

lemma radix_value_append:
  "radix_value r acc (xs @ ys) = Option.bind (radix_value r acc xs) (\<lambda>a. radix_value r a ys)"
  by (induction xs arbitrary: acc) (auto split: option.split)

lemma radix_value_le: "radix_value r acc s = Some v \<Longrightarrow> 0 < r \<Longrightarrow> acc \<le> v"
proof (induction s arbitrary: acc)
  case (Cons c cs)
  then obtain d where d: "radix_digit r c = Some d" "radix_value r (acc * r + d) cs = Some v"
    by (auto split: option.splits)
  have "acc \<le> acc * r" using Cons.prems(2) by simp
  also have "\<dots> \<le> v" using Cons.IH [OF d(2) Cons.prems(2)] by simp
  finally show ?case .
qed simp

definition no_digit :: "nat \<Rightarrow> string \<Rightarrow> bool" where
  "no_digit r s \<longleftrightarrow> (case s of [] \<Rightarrow> True | c # _ \<Rightarrow> radix_digit r c = None)"

lemma read_digits_value:
  assumes "radix_value r acc ds = Some v" "0 < r" "v \<le> bound" "k + length ds \<le> m" "no_digit r rest"
  shows "read_digits r m bound k acc (ds @ rest) = Some (k + length ds, v, rest)"
  using assms(1,4)
proof (induction ds arbitrary: acc k)
  case Nil
  then show ?case using assms(5) by (cases rest) (simp_all add: no_digit_def)
next
  case (Cons c cs)
  then obtain d where d: "radix_digit r c = Some d" "radix_value r (acc * r + d) cs = Some v"
    by (auto split: option.splits)
  have "acc * r + d \<le> bound" using radix_value_le [OF d(2) assms(2)] assms(3) by simp
  then show ?case using Cons.IH [OF d(2), of "k + 1"] Cons.prems(2) d(1) by simp
qed

lemma radix_digit_to_digit: "radix_digit 10 c = to_digit c"
  by (auto simp: radix_digit_def to_digit_def in_range_def Let_def)

lemma radix_digit_hex_char: "d < 16 \<Longrightarrow> radix_digit 16 (hex_char d) = Some d"
  by (auto simp: radix_digit_def hex_char_def in_range_def)

lemma radix_value_show_nat: "radix_value 10 0 (show_nat n) = Some n"
proof (induction n rule: show_nat.induct)
  case (1 n)
  then show ?case
    by (subst show_nat.simps) (auto simp: radix_value_append radix_digit_to_digit str_simps)
qed

lemma radix_value_show_hex: "radix_value 16 0 (show_hex n) = Some n"
proof (induction n rule: show_hex.induct)
  case (1 n)
  then show ?case
    by (subst show_hex.simps) (auto simp: radix_value_append radix_digit_hex_char)
qed

lemma length_show_nat: "n < 10 ^ k \<Longrightarrow> 0 < k \<Longrightarrow> length (show_nat n) \<le> k"
proof (induction k arbitrary: n)
  case (Suc k)
  show ?case
  proof (cases "n < 10")
    case True
    then show ?thesis by (subst show_nat.simps) simp
  next
    case False
    then have "0 < k" using Suc.prems by (cases k) auto
    then have "length (show_nat (n div 10)) \<le> k" using Suc by (simp add: div_less_iff_less_mult mult.commute)
    with False show ?thesis by (subst show_nat.simps) simp
  qed
qed simp

lemma length_show_hex: "n < 16 ^ k \<Longrightarrow> 0 < k \<Longrightarrow> length (show_hex n) \<le> k"
proof (induction k arbitrary: n)
  case (Suc k)
  show ?case
  proof (cases "n < 16")
    case True
    then show ?thesis by (subst show_hex.simps) simp
  next
    case False
    then have "0 < k" using Suc.prems by (cases k) auto
    then have "length (show_hex (n div 16)) \<le> k" using Suc by (simp add: div_less_iff_less_mult mult.commute)
    with False show ?thesis by (subst show_hex.simps) simp
  qed
qed simp

lemma show_nat_leading: "prefix ''0'' (show_nat n) \<Longrightarrow> length (show_nat n) = 1"
proof (induction n rule: show_nat.induct)
  case (1 n)
  show ?case
  proof (cases "n < 10")
    case True
    then show ?thesis by (subst show_nat.simps) simp
  next
    case False
    have "prefix ''0'' (show_nat (n div 10))"
      using "1.prems" False by (subst (asm) show_nat.simps) (cases "show_nat (n div 10)"; simp)
    from "1.IH" [OF False this] have "length (show_nat (n div 10)) = 1" .
    with \<open>prefix ''0'' (show_nat (n div 10))\<close> have "show_nat (n div 10) = ''0''"
      by (cases "show_nat (n div 10)") auto
    then have "n div 10 = 0" using radix_value_show_nat [of "n div 10"] by (simp add: radix_digit_def in_range_def)
    with False show ?thesis by simp
  qed
qed

lemma show_hex_not_Nil [simp]: "show_hex n \<noteq> []"
  by (subst show_hex.simps) simp

lemma read_octet:
  assumes "n < 256" "no_digit 10 rest"
  shows "read_number 10 3 False 255 (show_nat n @ rest) = Some (n, rest)"
proof -
  have "length (show_nat n) \<le> 3" using length_show_nat [of n 3] assms(1) by simp
  then have "read_digits 10 3 255 0 0 (show_nat n @ rest) = Some (length (show_nat n), n, rest)"
    using read_digits_value [OF radix_value_show_nat, of n 255 0 3 rest] assms by simp
  moreover have "prefix ''0'' (show_nat n @ rest) \<Longrightarrow> prefix ''0'' (show_nat n)"
    by (cases "show_nat n") auto
  ultimately show ?thesis using show_nat_leading [of n] by (auto simp: read_number_def)
qed

lemma read_group:
  assumes "n < 65536" "no_digit 16 rest"
  shows "read_number 16 4 True 65535 (show_hex n @ rest) = Some (n, rest)"
proof -
  have "length (show_hex n) \<le> 4" using length_show_hex [of n 4] assms(1) by simp
  then show ?thesis
    using read_digits_value [OF radix_value_show_hex, of n 65535 0 4 rest] assms by (simp add: read_number_def)
qed

subsection \<open>IPv4 round trip\<close>

lemma no_digit_char: "radix_digit r c = None \<Longrightarrow> no_digit r (c # s)"
  by (simp add: no_digit_def)

lemma no_digit_punctuation [simp]:
  "no_digit 10 (CHR ''.'' # s)" "no_digit 10 (CHR '':'' # s)" "no_digit 16 (CHR '':'' # s)" "no_digit r []"
  by (simp_all add: no_digit_def radix_digit_def in_range_def)

lemma length4_cases: "length a = 4 \<Longrightarrow> \<exists>w x y z. a = [w, x, y, z]"
  by (auto simp: eval_nat_numeral length_Suc_conv)

lemma of_char_less [simp]: "(of_char c :: nat) < 256"
  by (rule nat_of_char_less_256)

lemma read_ipv4_display:
  assumes "length a = 4" "no_digit 10 rest"
  shows "read_ipv4_addr (Ipv4Addr_display a @ rest) = Some (a, rest)"
proof -
  obtain w x y z where a: "a = [w, x, y, z]" using length4_cases [OF assms(1)] by blast
  have "read_octets 0 (Suc (Suc (Suc (Suc 0)))) (Ipv4Addr_display a @ rest)
      = Some ([of_char w, of_char x, of_char y, of_char z], rest)"
    using assms(2) by (simp add: a Ipv4Addr_display_def read_separator_def read_octet)
  then show ?thesis by (simp add: a read_ipv4_addr_def numeral_eq_Suc)
qed

lemma length_octet: "length (show_nat (of_char c)) \<le> 3"
proof -
  have "(of_char c :: nat) < 10 ^ 3" by (rule less_trans [OF of_char_less]) simp
  from length_show_nat [OF this] show ?thesis by simp
qed

lemma Ipv4Addr_from_str_display:
  assumes "length a = 4"
  shows "Ipv4Addr_from_str (Ipv4Addr_display a) = Some a"
proof -
  obtain w x y z where a: "a = [w, x, y, z]" using length4_cases [OF assms] by blast
  have "length (Ipv4Addr_display a) \<le> 15"
    using length_octet [of w] length_octet [of x] length_octet [of y] length_octet [of z]
    by (simp add: a Ipv4Addr_display_def)
  then show ?thesis
    using read_ipv4_display [OF assms, of "[]"] by (simp add: Ipv4Addr_from_str_def parse_with_def)
qed

subsection \<open>IPv6 round trip\<close>

lemma read_digits_suffix: "read_digits r m b n acc s = Some (k, v, rest) \<Longrightarrow> set rest \<subseteq> set s"
  by (induction s arbitrary: n acc) (auto split: option.splits if_splits)

lemma read_number_suffix: "read_number r m z b s = Some (v, rest) \<Longrightarrow> set rest \<subseteq> set s"
  using read_digits_suffix [of r m b 0 0 s] by (fastforce simp: read_number_def split: option.splits if_splits)

lemma read_ipv4_no_dot:
  assumes "CHR ''.'' \<notin> set s"
  shows "read_ipv4_addr s = None"
proof -
  have dot: "read_given_char (CHR ''.'') s' = None" if "set s' \<subseteq> set s" for s'
    using that assms by (cases s') auto
  have "read_octets 0 (Suc (Suc k)) s = None" for k
  proof (cases "read_number 10 3 False 255 s")
    case (Some p)
    with dot [OF read_number_suffix [of 10 3 False 255 s]] show ?thesis
      by (cases p) (simp add: read_separator_def)
  qed (simp add: read_separator_def)
  then show ?thesis by (simp add: read_ipv4_addr_def numeral_eq_Suc)
qed

definition colon_groups :: "nat list \<Rightarrow> string" where
  "colon_groups gs = concat (map (\<lambda>g. CHR '':'' # show_hex g) gs)"

lemma fmt_subslice_Cons: "fmt_subslice (g # gs) = show_hex g @ colon_groups gs"
proof (induction gs arbitrary: g)
  case (Cons h gs)
  then show ?case by (simp add: fmt_subslice_def colon_groups_def)
qed (simp add: fmt_subslice_def colon_groups_def)

lemma hex_char_no_dot: "d < 16 \<Longrightarrow> hex_char d \<noteq> CHR ''.''"
  using radix_digit_hex_char [of d] by (auto simp: radix_digit_def in_range_def)

lemma show_hex_no_dot: "CHR ''.'' \<notin> set (show_hex n)"
proof (induction n rule: show_hex.induct)
  case (1 n)
  then show ?case
    using hex_char_no_dot [of n] hex_char_no_dot [of "n mod 16"] by (subst show_hex.simps) auto
qed

text \<open>What may follow the groups: nothing, or a colon before something that is not a group.\<close>

definition stops :: "string \<Rightarrow> bool" where
  "stops rest \<longleftrightarrow> CHR ''.'' \<notin> set rest \<and> (rest = [] \<or> (\<exists>s. rest = CHR '':'' # s \<and> no_digit 16 s))"

lemma no_digit_read: "no_digit r s \<Longrightarrow> read_number r m z b s = None"
  by (cases s) (simp_all add: no_digit_def read_number_def)

lemma read_groups_plain:
  assumes "stops rest" "0 < i" "i + length gs \<le> limit" "\<forall>g \<in> set gs. g < 65536"
  shows "read_groups limit i (colon_groups gs @ rest) = (gs, False, rest)"
  using assms(2-4)
proof (induction gs arbitrary: i)
  case Nil
  have "read_separator (CHR '':'') i read_ipv4_addr rest = None"
      "read_separator (CHR '':'') i (read_number 16 4 True 65535) rest = None"
    using assms(1) by (auto simp: stops_def read_separator_def no_digit_read read_ipv4_no_dot)
  then show ?case by (subst read_groups.simps) (simp add: colon_groups_def)
next
  case (Cons g gs)
  let ?s = "show_hex g @ colon_groups gs @ rest"
  have "CHR ''.'' \<notin> set ?s" using assms(1) show_hex_no_dot by (auto simp: stops_def colon_groups_def)
  then have "read_separator (CHR '':'') i read_ipv4_addr (CHR '':'' # ?s) = None"
    by (simp add: read_separator_def read_ipv4_no_dot)
  moreover have "no_digit 16 (colon_groups gs @ rest)"
    using assms(1) by (cases gs) (auto simp: stops_def colon_groups_def)
  then have "read_separator (CHR '':'') i (read_number 16 4 True 65535) (CHR '':'' # ?s)
      = Some (g, colon_groups gs @ rest)"
    using Cons.prems by (simp add: read_separator_def read_group)
  moreover have "read_groups limit (i + 1) (colon_groups gs @ rest) = (gs, False, rest)"
    using Cons.prems by (intro Cons.IH) auto
  moreover have "colon_groups (g # gs) @ rest = CHR '':'' # ?s" by (simp add: colon_groups_def)
  ultimately show ?case using Cons.prems by (subst read_groups.simps) simp
qed

lemma read_groups_first:
  assumes "stops rest" "length gs \<le> limit" "\<forall>g \<in> set gs. g < 65536"
  shows "read_groups limit 0 (fmt_subslice gs @ rest) = (gs, False, rest)"
proof (cases gs)
  case Nil
  have "read_ipv4_addr rest = None" "read_number 16 4 True 65535 rest = None"
    using assms(1) by (auto simp: stops_def read_ipv4_no_dot intro!: no_digit_read)
  then show ?thesis by (subst read_groups.simps) (simp add: Nil fmt_subslice_def read_separator_def)
next
  case (Cons g gs')
  let ?s = "show_hex g @ colon_groups gs' @ rest"
  have "CHR ''.'' \<notin> set ?s" using assms(1) show_hex_no_dot by (auto simp: stops_def colon_groups_def)
  then have "read_ipv4_addr ?s = None" by (rule read_ipv4_no_dot)
  moreover have "no_digit 16 (colon_groups gs' @ rest)"
    using assms(1) by (cases gs') (auto simp: stops_def colon_groups_def)
  then have "read_number 16 4 True 65535 ?s = Some (g, colon_groups gs' @ rest)"
    using assms(3) Cons by (simp add: read_group)
  moreover have "read_groups limit 1 (colon_groups gs' @ rest) = (gs', False, rest)"
    using assms Cons by (intro read_groups_plain) auto
  ultimately show ?thesis
    using assms(2) Cons by (subst read_groups.simps) (simp add: fmt_subslice_Cons read_separator_def)
qed

lemma read_ipv4_first: "no_digit 10 s \<Longrightarrow> read_ipv4_addr s = None"
proof -
  assume "no_digit 10 s"
  then have "read_octets 0 (Suc k) s = None" for k by (simp add: read_separator_def no_digit_read)
  from this [of 3] show ?thesis by (simp add: read_ipv4_addr_def)
qed

lemma read_groups_colon: "read_groups limit 0 (CHR '':'' # s) = ([], False, CHR '':'' # s)"
proof -
  have "read_number 16 4 True 65535 (CHR '':'' # s) = None" "read_ipv4_addr (CHR '':'' # s) = None"
    by (simp_all add: no_digit_read read_ipv4_first)
  then show ?thesis by (subst read_groups.simps) (simp add: read_separator_def)
qed

lemma segments_less: "g \<in> set (segments a) \<Longrightarrow> g < 65536"
proof (induction a rule: segments.induct)
  case (1 a b rest)
  have "be_pair a b < 65536" using of_char_less [of a] of_char_less [of b] unfolding be_pair_def by linarith
  with 1 show ?case by auto
qed auto

lemma length_segments: "length (segments a) = length a div 2"
  by (induction a rule: segments.induct) auto

lemma octets_segments: "even (length a) \<Longrightarrow> octets (segments a) = a"
proof (induction a rule: segments.induct)
  case (1 a b rest)
  have "char_of (be_pair a b div 256) = a" "char_of (be_pair a b mod 256) = b"
    by (simp_all add: be_pair_def)
  with 1 show ?case by (simp add: octets_def)
qed (auto simp: octets_def)

lemma read_ipv6_full:
  assumes "length gs = 8" "\<forall>g \<in> set gs. g < 65536"
  shows "read_ipv6_addr (fmt_subslice gs) = Some (octets gs, [])"
  using read_groups_first [of "[]" gs 8] assms by (simp add: read_ipv6_addr_def stops_def)

lemma read_ipv6_short:
  assumes "length (hs @ ts) < 8" "\<forall>g \<in> set (hs @ ts). g < 65536"
  shows "read_ipv6_addr (fmt_subslice hs @ ''::'' @ fmt_subslice ts)
    = Some (octets (hs @ replicate (8 - length (hs @ ts)) 0 @ ts), [])"
proof -
  have "CHR ''.'' \<notin> set (fmt_subslice ts)"
    using show_hex_no_dot by (cases ts) (auto simp: fmt_subslice_Cons colon_groups_def, simp add: fmt_subslice_def)
  then have "stops (''::'' @ fmt_subslice ts)" by (simp add: stops_def)
  then have "read_groups 8 0 (fmt_subslice hs @ ''::'' @ fmt_subslice ts) = (hs, False, ''::'' @ fmt_subslice ts)"
    using assms by (intro read_groups_first) auto
  moreover have "read_groups (8 - (length hs + 1)) 0 (fmt_subslice ts @ []) = (ts, False, [])"
    using assms by (intro read_groups_first) (auto simp: stops_def)
  ultimately show ?thesis using assms(1) by (simp add: read_ipv6_addr_def)
qed

lemma read_ipv6_embedded:
  assumes "length v4 = 4"
  shows "read_ipv6_addr (''::'' @ Ipv4Addr_display v4) = Some (octets (replicate 6 0 @ segments v4), [])"
    and "read_ipv6_addr (''::ffff:'' @ Ipv4Addr_display v4) = Some (octets (replicate 5 0 @ [65535] @ segments v4), [])"
proof -
  have v4: "read_ipv4_addr (Ipv4Addr_display v4) = Some (v4, [])" using read_ipv4_display [OF assms, of "[]"] by simp
  have len: "length (segments v4) = 2" using assms by (simp add: length_segments)
  have "read_groups 7 0 (Ipv4Addr_display v4) = (segments v4, True, [])"
    by (subst read_groups.simps) (simp add: v4 read_separator_def)
  then show "read_ipv6_addr (''::'' @ Ipv4Addr_display v4) = Some (octets (replicate 6 0 @ segments v4), [])"
    by (simp add: read_ipv6_addr_def read_groups_colon len)
  have ffff: "show_hex 65535 = ''ffff''"
    by (simp add: show_hex.simps [of 65535] show_hex.simps [of 4095] show_hex.simps [of 255] show_hex.simps [of 15]
      hex_char_def char_of_eq_iff take_bit_eq_mod)
  have "read_groups 7 1 ('':'' @ Ipv4Addr_display v4) = (segments v4, True, [])"
    by (subst read_groups.simps) (simp add: v4 read_separator_def)
  moreover have "read_number 16 4 True 65535 (''ffff'' @ '':'' @ Ipv4Addr_display v4)
      = Some (65535, '':'' @ Ipv4Addr_display v4)"
    using read_group [of 65535 "'':'' @ Ipv4Addr_display v4"] ffff by simp
  moreover have "read_ipv4_addr (CHR ''f'' # s) = None" for s
    by (rule read_ipv4_first) (simp add: no_digit_def radix_digit_to_digit to_digit_def in_range_def)
  ultimately have "read_groups 7 0 (''ffff:'' @ Ipv4Addr_display v4) = (65535 # segments v4, True, [])"
    by (subst read_groups.simps) (simp add: read_separator_def)
  then show "read_ipv6_addr (''::ffff:'' @ Ipv4Addr_display v4) = Some (octets (replicate 5 0 @ [65535] @ segments v4), [])"
    by (simp add: read_ipv6_addr_def read_groups_colon len)
qed

definition zero_at :: "nat list \<Rightarrow> nat \<times> nat \<Rightarrow> bool" where
  "zero_at gs p \<longleftrightarrow> fst p + snd p \<le> length gs \<and> (\<forall>j < snd p. gs ! (fst p + j) = 0)"

lemma zero_at_append: "zero_at gs p \<Longrightarrow> zero_at (gs @ hs) p"
  by (auto simp: zero_at_def nth_append)

lemma zero_span_at:
  assumes "zero_at done current" "zero_at done longest" "i = length done" "snd current = 0 \<or> fst current + snd current = i"
  shows "zero_at (done @ gs) (zero_span i current longest gs)"
  using assms
proof (induction gs arbitrary: "done" i current longest)
  case (Cons g gs)
  define current' where "current' = (if snd current = 0 then i else fst current, snd current + 1)"
  have ext: "zero_at (done @ [g]) longest" "zero_at (done @ [g]) (0, 0)"
    by (rule zero_at_append [OF Cons.prems(2)]) (simp add: zero_at_def)
  have cur: "zero_at (done @ [g]) current'" "fst current' + snd current' = i + 1" if "g = 0"
    using Cons.prems that unfolding current'_def zero_at_def by (auto simp: nth_append less_Suc_eq)
  show ?case
  proof (cases "g = 0")
    case True
    have "zero_at ((done @ [g]) @ gs) (zero_span (i + 1) current'
        (if snd longest < snd current' then current' else longest) gs)"
      by (rule Cons.IH) (use cur [OF True] ext Cons.prems(3) in auto)
    moreover have "zero_span i current longest (g # gs)
        = zero_span (i + 1) current' (if snd longest < snd current' then current' else longest) gs"
      using True by (simp only: zero_span.simps if_True Let_def current'_def refl)
    ultimately show ?thesis by (simp only: append.assoc append.simps)
  next
    case False
    have "zero_at ((done @ [g]) @ gs) (zero_span (i + 1) (0, 0) longest gs)"
      by (rule Cons.IH) (use ext Cons.prems(3) in auto)
    then show ?thesis using False by simp
  qed
qed simp

lemma zero_at_split:
  assumes "zero_at gs (start, n)"
  shows "take start gs @ replicate n 0 @ drop (start + n) gs = gs"
proof (rule nth_equalityI)
  fix j assume "j < length (take start gs @ replicate n 0 @ drop (start + n) gs)"
  with assms show "(take start gs @ replicate n 0 @ drop (start + n) gs) ! j = gs ! j"
    by (auto simp: zero_at_def nth_append not_less)
qed (use assms in \<open>auto simp: zero_at_def\<close>)

lemma to_ipv4_segments:
  assumes "to_ipv4 a = Some v4" "length a = 16"
  shows "length v4 = 4" "segments a = replicate 5 0 @ [segments a ! 5] @ segments v4" "segments a ! 5 \<in> {0, 65535}"
proof -
  have v4: "v4 = drop 12 a" "take 5 (segments a) = replicate 5 0" "segments a ! 5 \<in> {0, 65535}"
    using assms(1) by (auto simp: to_ipv4_def Let_def split: if_splits)
  have drop: "segments (drop (2 * k) b) = drop k (segments b)" for k b
  proof (induction k arbitrary: b)
    case (Suc k)
    then show ?case by (cases b rule: segments.cases) auto
  qed simp
  have "segments a = take 5 (segments a) @ drop 5 (segments a)" by simp
  also have "drop 5 (segments a) = segments a ! 5 # drop 6 (segments a)"
    using Cons_nth_drop_Suc [of 5 "segments a"] assms(2) by (simp add: length_segments)
  finally show "length v4 = 4" "segments a = replicate 5 0 @ [segments a ! 5] @ segments v4"
      "segments a ! 5 \<in> {0, 65535}"
    using v4 drop [of 6 a] assms(2) by simp_all
qed

lemma Ipv6Addr_from_str_display:
  assumes "length a = 16"
  shows "Ipv6Addr_from_str (Ipv6Addr_display a) = Some a"
proof -
  let ?gs = "segments a"
  have len: "length ?gs = 8" and oct: "octets ?gs = a" and less: "\<forall>g \<in> set ?gs. g < 65536"
    using assms by (simp_all add: length_segments octets_segments segments_less)
  have "read_ipv6_addr (Ipv6Addr_display a) = Some (octets ?gs, [])"
  proof -
    consider "?gs = replicate 8 0" | "?gs = replicate 7 0 @ [1]"
      | v4 where "to_ipv4 a = Some v4" "?gs \<noteq> replicate 8 0" "?gs \<noteq> replicate 7 0 @ [1]"
      | "to_ipv4 a = None" "?gs \<noteq> replicate 8 0" "?gs \<noteq> replicate 7 0 @ [1]"
      by fastforce
    then show ?thesis
    proof cases
      case 1
      then show ?thesis using read_ipv6_short [of "[]" "[]"]
        by (simp add: Ipv6Addr_display_def fmt_subslice_def)
    next
      case 2
      have "replicate 7 0 @ [1] \<noteq> replicate 8 (0 :: nat)" by (simp add: numeral_eq_Suc)
      moreover have "show_hex 1 = ''1''"
        by (simp add: show_hex.simps [of "Suc 0"] hex_char_def char_of_eq_iff take_bit_eq_mod)
      ultimately show ?thesis using 2 read_ipv6_short [of "[]" "[1]"]
        by (simp add: Ipv6Addr_display_def fmt_subslice_def)
    next
      case (3 v4)
      note v4 = to_ipv4_segments [OF 3(1) assms]
      show ?thesis
      proof (cases "?gs ! 5 = 0")
        case True
        then have "?gs = replicate 6 0 @ segments v4" using v4(2) by (simp add: numeral_eq_Suc)
        with read_ipv6_embedded(1) [OF v4(1)] 3 True show ?thesis by (simp add: Ipv6Addr_display_def Let_def)
      next
        case False
        then have "?gs = replicate 5 0 @ [65535] @ segments v4" using v4(2,3) by simp
        with read_ipv6_embedded(2) [OF v4(1)] 3 False show ?thesis by (simp add: Ipv6Addr_display_def Let_def)
      qed
    next
      case 4
      obtain start n where span: "zero_span 0 (0, 0) (0, 0) ?gs = (start, n)" by force
      have at: "zero_at ?gs (start, n)"
        using zero_span_at [of "[]" "(0, 0)" "(0, 0)" 0 ?gs] span by (simp add: zero_at_def)
      show ?thesis
      proof (cases "n > 1")
        case True
        let ?hs = "take start ?gs" and ?ts = "drop (start + n) ?gs"
        have lens: "length (?hs @ ?ts) = 8 - n" "n \<le> 8" using at len by (auto simp: zero_at_def)
        have "\<forall>g \<in> set (?hs @ ?ts). g < 65536" using less by (auto dest: in_set_takeD in_set_dropD)
        from read_ipv6_short [OF _ this] have
          "read_ipv6_addr (fmt_subslice ?hs @ ''::'' @ fmt_subslice ?ts) = Some (octets (?hs @ replicate n 0 @ ?ts), [])"
          using lens True by (simp del: append_assoc length_append)
        then show ?thesis
          using 4 True span zero_at_split [OF at] by (simp add: Ipv6Addr_display_def Let_def)
      next
        case False
        then show ?thesis using 4 span read_ipv6_full [OF len less] by (simp add: Ipv6Addr_display_def Let_def)
      qed
    qed
  qed
  then show ?thesis using oct by (simp add: Ipv6Addr_from_str_def parse_with_def)
qed

end
