(* ===== verification/Multiaddr.thy ===== *)
theory Multiaddr
  imports BTree Net_Addr Error_Code
begin

text \<open>
  Multi-addresses (\<open>ockam_multiaddr/src\<close>): the protocols, the standard codec, the registry, the iterators
  over binary and textual addresses, and the operations on an address.

  An address is a byte vector with an offset behind which it starts.  Variable length integers
  come from the crate \<open>unsigned-varint\<close>; its encoders and decoders are the fields of \<open>Varint\<close>.  A protocol
  type of the source is a value of \<open>ProtoType\<close>, a codec (a trait object) a record of its methods.  Loops over
  an iterator are partial functions: whether they end is a theorem.
\<close>

type_synonym Code = "32 word"

record Varint =
  encode_u32 :: "32 word \<Rightarrow> bytes"
  decode_u32 :: "bytes \<Rightarrow> (32 word \<times> bytes) option"
  encode_usize :: "u64 \<Rightarrow> bytes"
  decode_usize :: "bytes \<Rightarrow> (u64 \<times> bytes) option"

datatype MaMessage = IntMessage parse_int_error | Utf8Message bytes | TextMessage string

datatype MaError =
    Unregistered Code
  | InvalidProto Code
  | UnregisteredPrefix string
  | InvalidVarint
  | Message MaMessage
  | Format
  | RequiredBytes Code nat
  | Custom

subsection \<open>Protocols\<close>

datatype StrType = WorkerT | DnsAddrT | ServiceT | NodeT | ProjectT | SpaceT | SecureT

datatype ProtoType = Ip4T | Ip6T | TcpT | StrT StrType

datatype Proto = Ip4 bytes | Ip6 bytes | Tcp u16 | StrP StrType string

fun proto_type :: "Proto \<Rightarrow> ProtoType" where
  "proto_type (Ip4 _) = Ip4T"
| "proto_type (Ip6 _) = Ip6T"
| "proto_type (Tcp _) = TcpT"
| "proto_type (StrP t _) = StrT t"

fun CODE :: "ProtoType \<Rightarrow> Code" where
  "CODE Ip4T = 4"
| "CODE Ip6T = 41"
| "CODE TcpT = 6"
| "CODE (StrT WorkerT) = 102526"
| "CODE (StrT DnsAddrT) = 56"
| "CODE (StrT ServiceT) = 62526"
| "CODE (StrT NodeT) = 72526"
| "CODE (StrT ProjectT) = 82526"
| "CODE (StrT SpaceT) = 92526"
| "CODE (StrT SecureT) = 99526"

fun PREFIX :: "ProtoType \<Rightarrow> string" where
  "PREFIX Ip4T = ''ip4''"
| "PREFIX Ip6T = ''ip6''"
| "PREFIX TcpT = ''tcp''"
| "PREFIX (StrT WorkerT) = ''worker''"
| "PREFIX (StrT DnsAddrT) = ''dnsaddr''"
| "PREFIX (StrT ServiceT) = ''service''"
| "PREFIX (StrT NodeT) = ''node''"
| "PREFIX (StrT ProjectT) = ''project''"
| "PREFIX (StrT SpaceT) = ''space''"
| "PREFIX (StrT SecureT) = ''secure''"

definition u16_to_be_bytes :: "u16 \<Rightarrow> bytes" where
  "u16_to_be_bytes n = [char_of (unat n div 256), char_of (unat n mod 256)]"

definition u16_from_be_bytes :: "bytes \<Rightarrow> u16" where
  "u16_from_be_bytes b = of_nat (be_pair (b ! 0) (b ! 1))"

definition copy_from_slice :: "nat \<Rightarrow> bytes \<Rightarrow> bytes exec" where
  "copy_from_slice n b = (if length b = n then Inr b
     else Inl (Panic ''source slice length does not match destination slice length''))"

definition Ip4_read_str :: "string \<Rightarrow> MaError + Proto" where
  "Ip4_read_str s = result_map Ip4 (ok_or (Ipv4Addr_from_str s) Custom)"

definition Ip4_read_bytes :: "bytes \<Rightarrow> (MaError + Proto) exec" where
  "Ip4_read_bytes b = result_map (\<lambda>b. Inr (Ip4 b)) (copy_from_slice 4 b)"

definition Ip4_write_str :: "bytes \<Rightarrow> string" where
  "Ip4_write_str a = ''/'' @ PREFIX Ip4T @ ''/'' @ Ipv4Addr_display a"

definition Ip4_write_bytes :: "Varint \<Rightarrow> bytes \<Rightarrow> bytes" where
  "Ip4_write_bytes vi a = encode_u32 vi (CODE Ip4T) @ a"

definition Ip6_read_str :: "string \<Rightarrow> MaError + Proto" where
  "Ip6_read_str s = result_map Ip6 (ok_or (Ipv6Addr_from_str s) Custom)"

definition Ip6_read_bytes :: "bytes \<Rightarrow> (MaError + Proto) exec" where
  "Ip6_read_bytes b = result_map (\<lambda>b. Inr (Ip6 b)) (copy_from_slice 16 b)"

definition Ip6_write_str :: "bytes \<Rightarrow> string" where
  "Ip6_write_str a = ''/'' @ PREFIX Ip6T @ ''/'' @ Ipv6Addr_display a"

definition Ip6_write_bytes :: "Varint \<Rightarrow> bytes \<Rightarrow> bytes" where
  "Ip6_write_bytes vi a = encode_u32 vi (CODE Ip6T) @ a"

definition Tcp_read_str :: "string \<Rightarrow> MaError + Proto" where
  "Tcp_read_str s =
     result_map (\<lambda>n. Tcp (of_nat n)) (map_err (\<lambda>e. Message (IntMessage e)) (parse_unsigned 65535 s))"

definition Tcp_read_bytes :: "bytes \<Rightarrow> (MaError + Proto) exec" where
  "Tcp_read_bytes b = result_map (\<lambda>b. Inr (Tcp (u16_from_be_bytes b))) (copy_from_slice 2 b)"

definition Tcp_write_str :: "u16 \<Rightarrow> string" where
  "Tcp_write_str n = ''/'' @ PREFIX TcpT @ ''/'' @ show_nat (unat n)"

definition Tcp_write_bytes :: "Varint \<Rightarrow> u16 \<Rightarrow> bytes" where
  "Tcp_write_bytes vi n = encode_u32 vi (CODE TcpT) @ u16_to_be_bytes n"

definition Str_read_str :: "StrType \<Rightarrow> string \<Rightarrow> MaError + Proto" where
  "Str_read_str t s = Inr (StrP t s)"

definition Str_read_bytes :: "StrType \<Rightarrow> bytes \<Rightarrow> (MaError + Proto) exec" where
  "Str_read_bytes t b = Inr (result_map (StrP t) (ok_or (from_utf8 b) (Message (Utf8Message b))))"

definition Str_write_str :: "StrType \<Rightarrow> string \<Rightarrow> string" where
  "Str_write_str t s = ''/'' @ PREFIX (StrT t) @ ''/'' @ s"

definition Str_write_bytes :: "Varint \<Rightarrow> StrType \<Rightarrow> string \<Rightarrow> bytes" where
  "Str_write_bytes vi t s = encode_u32 vi (CODE (StrT t)) @ encode_usize vi (of_nat (length s)) @ s"

text \<open>The methods of the trait \<open>Protocol\<close>, by implementation.\<close>

fun read_str :: "ProtoType \<Rightarrow> string \<Rightarrow> MaError + Proto" where
  "read_str Ip4T s = Ip4_read_str s"
| "read_str Ip6T s = Ip6_read_str s"
| "read_str TcpT s = Tcp_read_str s"
| "read_str (StrT t) s = Str_read_str t s"

fun read_bytes :: "ProtoType \<Rightarrow> bytes \<Rightarrow> (MaError + Proto) exec" where
  "read_bytes Ip4T b = Ip4_read_bytes b"
| "read_bytes Ip6T b = Ip6_read_bytes b"
| "read_bytes TcpT b = Tcp_read_bytes b"
| "read_bytes (StrT t) b = Str_read_bytes t b"

fun write_str :: "Proto \<Rightarrow> string" where
  "write_str (Ip4 a) = Ip4_write_str a"
| "write_str (Ip6 a) = Ip6_write_str a"
| "write_str (Tcp n) = Tcp_write_str n"
| "write_str (StrP t s) = Str_write_str t s"

fun write_bytes :: "Varint \<Rightarrow> Proto \<Rightarrow> bytes" where
  "write_bytes vi (Ip4 a) = Ip4_write_bytes vi a"
| "write_bytes vi (Ip6 a) = Ip6_write_bytes vi a"
| "write_bytes vi (Tcp n) = Tcp_write_bytes vi n"
| "write_bytes vi (StrP t s) = Str_write_bytes vi t s"

subsection \<open>Codecs and the registry\<close>

record ProtoValue =
  pv_code :: Code
  pv_data :: bytes

record Codec =
  split_str :: "string \<Rightarrow> string \<Rightarrow> MaError + (string \<times> string)"
  split_bytes :: "Code \<Rightarrow> bytes \<Rightarrow> MaError + (bytes \<times> bytes)"
  is_valid_bytes :: "Code \<Rightarrow> bytes \<Rightarrow> bool exec"
  codec_write_bytes :: "ProtoValue \<Rightarrow> (MaError + bytes) exec"
  transcode_str :: "string \<Rightarrow> string \<Rightarrow> MaError + bytes"
  transcode_bytes :: "Code \<Rightarrow> bytes \<Rightarrow> (MaError + string) exec"

record Registry =
  reg_bytes :: "(Code, Codec) btree_map"
  reg_strings :: "(string, Codec) btree_map"

text \<open>The patterns of the \<open>match\<close> expressions over codes and prefixes.\<close>

definition all_types :: "ProtoType list" where
  "all_types = [StrT WorkerT, Ip4T, Ip6T, TcpT, StrT DnsAddrT, StrT ServiceT, StrT NodeT, StrT ProjectT,
     StrT SpaceT, StrT SecureT]"

definition type_of_code :: "Code \<Rightarrow> ProtoType option" where
  "type_of_code c = find (\<lambda>t. CODE t = c) all_types"

definition type_of_prefix :: "string \<Rightarrow> ProtoType option" where
  "type_of_prefix s = find (\<lambda>t. PREFIX t = s) all_types"

definition std_split_str :: "string \<Rightarrow> string \<Rightarrow> MaError + (string \<times> string)" where
  "std_split_str pfx input =
     (if CHR ''/'' \<in> set input
      then Inr (takeWhile (\<lambda>c. c \<noteq> CHR ''/'') input, dropWhile (\<lambda>c. c \<noteq> CHR ''/'') input)
      else Inr (input, []))"

definition split_fixed :: "Code \<Rightarrow> nat \<Rightarrow> bytes \<Rightarrow> MaError + (bytes \<times> bytes)" where
  "split_fixed code n input =
     (if length input < n then Inl (RequiredBytes code n) else Inr (take n input, drop n input))"

definition std_split_bytes :: "Varint \<Rightarrow> Code \<Rightarrow> bytes \<Rightarrow> MaError + (bytes \<times> bytes)" where
  "std_split_bytes vi code input = (case type_of_code code of
     Some Ip4T \<Rightarrow> split_fixed code 4 input
   | Some Ip6T \<Rightarrow> split_fixed code 16 input
   | Some TcpT \<Rightarrow> split_fixed code 2 input
   | Some (StrT _) \<Rightarrow> (case decode_usize vi input of
       None \<Rightarrow> Inl InvalidVarint
     | Some (n, input) \<Rightarrow> split_fixed code (unat n) input)
   | None \<Rightarrow> Inl (Unregistered code))"

definition std_is_valid_bytes :: "Code \<Rightarrow> bytes \<Rightarrow> bool exec" where
  "std_is_valid_bytes code input = (case type_of_code code of
     Some t \<Rightarrow> result_map is_ok (read_bytes t input)
   | None \<Rightarrow> Inr False)"

definition std_write_bytes :: "Varint \<Rightarrow> ProtoValue \<Rightarrow> (MaError + bytes) exec" where
  "std_write_bytes vi val = (case type_of_code (pv_code val) of
     Some t \<Rightarrow> result_map (result_map (write_bytes vi)) (read_bytes t (pv_data val))
   | None \<Rightarrow> Inr (Inl (Unregistered (pv_code val))))"

definition std_transcode_str :: "Varint \<Rightarrow> string \<Rightarrow> string \<Rightarrow> MaError + bytes" where
  "std_transcode_str vi pfx v = (case type_of_prefix pfx of
     Some t \<Rightarrow> result_map (write_bytes vi) (read_str t v)
   | None \<Rightarrow> Inl (UnregisteredPrefix pfx))"

definition std_transcode_bytes :: "Code \<Rightarrow> bytes \<Rightarrow> (MaError + string) exec" where
  "std_transcode_bytes code v = (case type_of_code code of
     Some t \<Rightarrow> result_map (result_map write_str) (read_bytes t v)
   | None \<Rightarrow> Inr (Inl (Unregistered code)))"

definition StdCodec :: "Varint \<Rightarrow> Codec" where
  "StdCodec vi =
     \<lparr>split_str = std_split_str, split_bytes = std_split_bytes vi, is_valid_bytes = std_is_valid_bytes,
      codec_write_bytes = std_write_bytes vi, transcode_str = std_transcode_str vi,
      transcode_bytes = std_transcode_bytes\<rparr>"

definition RegistryBuilder_new :: Registry where
  "RegistryBuilder_new = \<lparr>reg_bytes = [], reg_strings = []\<rparr>"

definition has_code :: "Registry \<Rightarrow> Code \<Rightarrow> bool" where
  "has_code r c = bt_contains_key (reg_bytes r) c"

definition has_prefix :: "Registry \<Rightarrow> string \<Rightarrow> bool" where
  "has_prefix r s = bt_contains_key (reg_strings r) s"

definition register :: "Code \<Rightarrow> string \<Rightarrow> Codec \<Rightarrow> Registry \<Rightarrow> Registry" where
  "register code pfx codec r =
     \<lparr>reg_bytes = bt_insert code codec (reg_bytes r), reg_strings = bt_insert pfx codec (reg_strings r)\<rparr>"

definition Registry_default :: "Varint \<Rightarrow> Registry" where
  "Registry_default vi = (let std_codec = StdCodec vi in
     fold (\<lambda>t. register (CODE t) (PREFIX t) std_codec)
       [StrT WorkerT, TcpT, StrT DnsAddrT, StrT ServiceT, StrT NodeT, StrT ProjectT, StrT SpaceT, StrT SecureT,
        Ip4T, Ip6T] RegistryBuilder_new)"

definition get_by_code :: "Registry \<Rightarrow> Code \<Rightarrow> Codec option" where
  "get_by_code r code = bt_get (reg_bytes r) code"

definition get_by_prefix :: "Registry \<Rightarrow> string \<Rightarrow> Codec option" where
  "get_by_prefix r pfx = bt_get (reg_strings r) pfx"

definition registry_codes :: "Registry \<Rightarrow> Code list" where
  "registry_codes r = bt_keys (reg_bytes r)"

definition registry_prefixes :: "Registry \<Rightarrow> string list" where
  "registry_prefixes r = bt_keys (reg_strings r)"

subsection \<open>Iterators\<close>

record BytesIter =
  it_bytes :: bytes
  it_offset :: nat
  it_is_err :: bool
  it_registry :: Registry

definition BytesIter_with_registry :: "bytes \<Rightarrow> Registry \<Rightarrow> BytesIter" where
  "BytesIter_with_registry b r = \<lparr>it_bytes = b, it_offset = 0, it_is_err = False, it_registry = r\<rparr>"

definition BytesIter_next ::
  "Varint \<Rightarrow> BytesIter \<Rightarrow> ((MaError + (nat \<times> Code \<times> bytes)) option \<times> BytesIter) exec" where
  "BytesIter_next vi it =
     (if length (it_bytes it) \<le> it_offset it \<or> it_is_err it then Inr (None, it)
      else case decode_u32 vi (drop (it_offset it) (it_bytes it)) of
        None \<Rightarrow> Inr (Some (Inl InvalidVarint), it\<lparr>it_is_err := True\<rparr>)
      | Some (code, b) \<Rightarrow> (case get_by_code (it_registry it) code of
          None \<Rightarrow> Inr (Some (Inl (Unregistered code)), it\<lparr>it_is_err := True\<rparr>)
        | Some codec \<Rightarrow> (case split_bytes codec code b of
            Inl e \<Rightarrow> Inr (Some (Inl e), it\<lparr>it_is_err := True\<rparr>)
          | Inr (val, rest) \<Rightarrow>
              if length (it_bytes it) < length rest then Inl (Panic ''attempt to subtract with overflow'')
              else Inr (Some (Inr (it_offset it, code, val)),
                     it\<lparr>it_offset := length (it_bytes it) - length rest\<rparr>))))"

text \<open>\<open>ValidBytesIter\<close>: an item that is not valid panics.\<close>

definition ValidBytesIter_next :: "Varint \<Rightarrow> BytesIter \<Rightarrow> ((nat \<times> Code \<times> bytes) option \<times> BytesIter) exec" where
  "ValidBytesIter_next vi it = result_bind (BytesIter_next vi it) (\<lambda>(x, it').
     case x of
       None \<Rightarrow> Inr (None, it')
     | Some (Inl e) \<Rightarrow> Inl (Panic ''valid protocol'')
     | Some (Inr item) \<Rightarrow> Inr (Some item, it'))"

definition ProtoIter_next :: "Varint \<Rightarrow> BytesIter \<Rightarrow> (ProtoValue option \<times> BytesIter) exec" where
  "ProtoIter_next vi it = result_map (\<lambda>(x, it').
     (map_option (\<lambda>(_, c, p). \<lparr>pv_code = c, pv_data = p\<rparr>) x, it')) (ValidBytesIter_next vi it)"

text \<open>\<open>str::split_once\<close>.\<close>

definition split_once :: "char \<Rightarrow> string \<Rightarrow> (string \<times> string) option" where
  "split_once c s = (if c \<in> set s then Some (takeWhile (\<lambda>x. x \<noteq> c) s, tl (dropWhile (\<lambda>x. x \<noteq> c) s)) else None)"

definition StrIter_next :: "Registry \<Rightarrow> string \<Rightarrow> (MaError + (string \<times> string)) option \<times> string" where
  "StrIter_next reg s =
     (if s = [] then (None, s)
      else let (pfx, v) = (case split_once (CHR ''/'') s of
          Some ([], s') \<Rightarrow> (case split_once (CHR ''/'') s' of Some (p, r) \<Rightarrow> (p, r) | None \<Rightarrow> (s', []))
        | Some (p, s') \<Rightarrow> (p, s')
        | None \<Rightarrow> (s, []))
      in case get_by_prefix reg pfx of
        None \<Rightarrow> (Some (Inl (UnregisteredPrefix pfx)), s)
      | Some codec \<Rightarrow> (case split_str codec pfx v of
          Inl e \<Rightarrow> (Some (Inl e), s)
        | Inr (val, rest) \<Rightarrow> (Some (Inr (pfx, val)), rest)))"

subsection \<open>Addresses\<close>

record MultiAddr =
  ma_dat :: bytes
  ma_off :: nat
  ma_reg :: Registry

definition MultiAddr_new :: "Registry \<Rightarrow> MultiAddr" where
  "MultiAddr_new r = \<lparr>ma_dat = [], ma_off = 0, ma_reg = r\<rparr>"

definition as_ref :: "MultiAddr \<Rightarrow> bytes" where
  "as_ref m = drop (ma_off m) (ma_dat m)"

definition MultiAddr_eq :: "MultiAddr \<Rightarrow> MultiAddr \<Rightarrow> bool" where
  "MultiAddr_eq m n \<longleftrightarrow> as_ref m = as_ref n"

definition MultiAddr_clone :: "MultiAddr \<Rightarrow> MultiAddr" where
  "MultiAddr_clone m =
     (if ma_off m > 0 then \<lparr>ma_dat = drop (ma_off m) (ma_dat m), ma_off = 0, ma_reg = ma_reg m\<rparr> else m)"

definition ma_is_empty :: "MultiAddr \<Rightarrow> bool" where
  "ma_is_empty m \<longleftrightarrow> as_ref m = []"

definition ma_len :: "MultiAddr \<Rightarrow> nat" where
  "ma_len m = length (as_ref m)"

partial_function (option) transcode_all :: "Registry \<Rightarrow> string \<Rightarrow> bytes \<Rightarrow> (MaError + bytes) option" where
  "transcode_all r s b = (case StrIter_next r s of
     (None, _) \<Rightarrow> Some (Inr b)
   | (Some (Inl e), _) \<Rightarrow> Some (Inl e)
   | (Some (Inr (pfx, v)), s') \<Rightarrow> (case get_by_prefix r pfx of
       None \<Rightarrow> Some (Inl (UnregisteredPrefix pfx))
     | Some codec \<Rightarrow> (case transcode_str codec pfx v of
         Inl e \<Rightarrow> Some (Inl e)
       | Inr new \<Rightarrow> transcode_all r s' (b @ new))))"

definition try_from_str :: "string \<Rightarrow> Registry \<Rightarrow> (MaError + MultiAddr) option" where
  "try_from_str input r =
     map_option (result_map (\<lambda>b. \<lparr>ma_dat = b, ma_off = 0, ma_reg = r\<rparr>)) (transcode_all r input [])"

definition MultiAddr_from_string :: "Varint \<Rightarrow> string \<Rightarrow> (error + MultiAddr) option" where
  "MultiAddr_from_string vi s =
     map_option (map_err (\<lambda>_. ErrorCode_new OriginCore KindInternal)) (try_from_str s (Registry_default vi))"

partial_function (option) check_all :: "Varint \<Rightarrow> Registry \<Rightarrow> BytesIter \<Rightarrow> (MaError + unit) exec option" where
  "check_all vi r it = (case BytesIter_next vi it of
     Inl p \<Rightarrow> Some (Inl p)
   | Inr (None, _) \<Rightarrow> Some (Inr (Inr ()))
   | Inr (Some (Inl e), _) \<Rightarrow> Some (Inr (Inl e))
   | Inr (Some (Inr (_, code, v)), it') \<Rightarrow> (case get_by_code r code of
       None \<Rightarrow> Some (Inr (Inl (Unregistered code)))
     | Some codec \<Rightarrow> (case is_valid_bytes codec code v of
         Inl p \<Rightarrow> Some (Inl p)
       | Inr ok \<Rightarrow> if \<not> ok then Some (Inr (Inl (InvalidProto code))) else check_all vi r it')))"

definition try_from_bytes :: "Varint \<Rightarrow> bytes \<Rightarrow> Registry \<Rightarrow> (MaError + MultiAddr) exec option" where
  "try_from_bytes vi input r =
     map_option (result_map (result_map (\<lambda>_. \<lparr>ma_dat = input, ma_off = 0, ma_reg = r\<rparr>)))
       (check_all vi r (BytesIter_with_registry input r))"

definition push_back :: "Varint \<Rightarrow> Proto \<Rightarrow> MultiAddr \<Rightarrow> (MaError + unit) \<times> MultiAddr" where
  "push_back vi p m =
     (if get_by_code (ma_reg m) (CODE (proto_type p)) = None then (Inl (Unregistered (CODE (proto_type p))), m)
      else (Inr (), m\<lparr>ma_dat := ma_dat m @ write_bytes vi p\<rparr>))"

definition push_back_value :: "ProtoValue \<Rightarrow> MultiAddr \<Rightarrow> ((MaError + unit) \<times> MultiAddr) exec" where
  "push_back_value p m = (case get_by_code (ma_reg m) (pv_code p) of
     Some codec \<Rightarrow> result_map (\<lambda>r. case r of
         Inl e \<Rightarrow> (Inl e, m)
       | Inr b \<Rightarrow> (Inr (), m\<lparr>ma_dat := ma_dat m @ b\<rparr>)) (codec_write_bytes codec p)
   | None \<Rightarrow> Inr (Inl (Unregistered (pv_code p)), m))"

definition push_front :: "Varint \<Rightarrow> Proto \<Rightarrow> MultiAddr \<Rightarrow> (MaError + unit) \<times> MultiAddr" where
  "push_front vi p m =
     (if get_by_code (ma_reg m) (CODE (proto_type p)) = None then (Inl (Unregistered (CODE (proto_type p))), m)
      else (Inr (), m\<lparr>ma_dat := write_bytes vi p @ ma_dat m\<rparr>))"

definition push_front_value :: "ProtoValue \<Rightarrow> MultiAddr \<Rightarrow> ((MaError + unit) \<times> MultiAddr) exec" where
  "push_front_value p m = (case get_by_code (ma_reg m) (pv_code p) of
     Some codec \<Rightarrow> result_map (\<lambda>r. case r of
         Inl e \<Rightarrow> (Inl e, m)
       | Inr b \<Rightarrow> (Inr (), m\<lparr>ma_dat := b @ ma_dat m\<rparr>)) (codec_write_bytes codec p)
   | None \<Rightarrow> Inr (Inl (Unregistered (pv_code p)), m))"

definition valid_iter :: "MultiAddr \<Rightarrow> BytesIter" where
  "valid_iter m = BytesIter_with_registry (as_ref m) (ma_reg m)"

text \<open>\<open>Iterator::last\<close> on the items of an address.\<close>

partial_function (option) last_item ::
  "Varint \<Rightarrow> (nat \<times> Code \<times> bytes) option \<Rightarrow> BytesIter \<Rightarrow> (nat \<times> Code \<times> bytes) option exec option" where
  "last_item vi acc it = (case ValidBytesIter_next vi it of
     Inl p \<Rightarrow> Some (Inl p)
   | Inr (None, _) \<Rightarrow> Some (Inr acc)
   | Inr (Some item, it') \<Rightarrow> last_item vi (Some item) it')"

definition pop_back :: "Varint \<Rightarrow> MultiAddr \<Rightarrow> (ProtoValue option \<times> MultiAddr) exec option" where
  "pop_back vi m = map_option (result_map (\<lambda>x. case x of
       Some (i, c, p) \<Rightarrow>
         let at = ma_off m + ma_len m - length p; val = drop at (ma_dat m); dat = take at (ma_dat m)
         in (Some \<lparr>pv_code = c, pv_data = val\<rparr>, m\<lparr>ma_dat := take (ma_off m + i) dat\<rparr>)
     | None \<Rightarrow> (None, m))) (last_item vi None (valid_iter m))"

definition pop_front :: "Varint \<Rightarrow> MultiAddr \<Rightarrow> (ProtoValue option \<times> MultiAddr) exec" where
  "pop_front vi m = result_map (\<lambda>(x, it). case x of
       Some (_, c, p) \<Rightarrow>
         let off = ma_off m + it_offset it
         in (Some \<lparr>pv_code = c, pv_data = take (length p) (drop (off - length p) (ma_dat m))\<rparr>, m\<lparr>ma_off := off\<rparr>)
     | None \<Rightarrow> (None, m)) (ValidBytesIter_next vi (valid_iter m))"

definition drop_first :: "Varint \<Rightarrow> MultiAddr \<Rightarrow> MultiAddr exec" where
  "drop_first vi m = result_map (\<lambda>(x, it). case x of
       Some _ \<Rightarrow> m\<lparr>ma_off := ma_off m + it_offset it\<rparr>
     | None \<Rightarrow> m) (ValidBytesIter_next vi (valid_iter m))"

definition drop_last :: "Varint \<Rightarrow> MultiAddr \<Rightarrow> MultiAddr exec option" where
  "drop_last vi m = map_option (result_map (\<lambda>x. case x of
       Some (i, _, _) \<Rightarrow> m\<lparr>ma_dat := take (ma_off m + i) (ma_dat m)\<rparr>
     | None \<Rightarrow> m)) (last_item vi None (valid_iter m))"

definition ma_first :: "Varint \<Rightarrow> MultiAddr \<Rightarrow> ProtoValue option exec" where
  "ma_first vi m = result_map fst (ProtoIter_next vi (valid_iter m))"

definition ma_last :: "Varint \<Rightarrow> MultiAddr \<Rightarrow> ProtoValue option exec option" where
  "ma_last vi m = map_option (result_map (map_option (\<lambda>(_, c, p). \<lparr>pv_code = c, pv_data = p\<rparr>)))
     (last_item vi None (valid_iter m))"

text \<open>A loop that pushes what an iterator yields, at most \<open>n\<close> items if \<open>take(n)\<close> bounds it.\<close>

partial_function (option) push_all ::
  "Varint \<Rightarrow> nat option \<Rightarrow> MultiAddr \<Rightarrow> BytesIter \<Rightarrow> (((MaError + unit) \<times> MultiAddr) \<times> BytesIter) exec option" where
  "push_all vi n m it =
     (if n = Some 0 then Some (Inr ((Inr (), m), it))
      else case ProtoIter_next vi it of
        Inl p \<Rightarrow> Some (Inl p)
      | Inr (None, it') \<Rightarrow> Some (Inr ((Inr (), m), it'))
      | Inr (Some pv, it') \<Rightarrow> (case push_back_value pv m of
          Inl p \<Rightarrow> Some (Inl p)
        | Inr (Inl e, m') \<Rightarrow> Some (Inr ((Inl e, m'), it'))
        | Inr (Inr _, m') \<Rightarrow> push_all vi (map_option (\<lambda>k. k - 1) n) m' it'))"

definition concat_mut :: "Varint \<Rightarrow> MultiAddr \<Rightarrow> MultiAddr \<Rightarrow> ((MaError + unit) \<times> MultiAddr) exec option" where
  "concat_mut vi other m = map_option (result_map fst) (push_all vi None m (valid_iter other))"

definition ma_concat :: "Varint \<Rightarrow> MultiAddr \<Rightarrow> MultiAddr \<Rightarrow> (MaError + MultiAddr) exec option" where
  "ma_concat vi m other =
     map_option (result_map (\<lambda>(r, m'). result_map (\<lambda>_. m') r)) (concat_mut vi other m)"

definition expect_address :: "((MaError + unit) \<times> MultiAddr) \<times> BytesIter \<Rightarrow> (MultiAddr \<times> BytesIter) exec" where
  "expect_address x = (case x of ((Inr _, m), it) \<Rightarrow> Inr (m, it) | _ \<Rightarrow> Inl (Panic ''valid address''))"

definition ma_split :: "Varint \<Rightarrow> nat \<Rightarrow> MultiAddr \<Rightarrow> (MultiAddr \<times> MultiAddr) exec option" where
  "ma_split vi at m = (case push_all vi (Some at) (MultiAddr_new (Registry_default vi)) (valid_iter m) of
     None \<Rightarrow> None
   | Some x \<Rightarrow> (case result_bind x expect_address of
       Inl p \<Rightarrow> Some (Inl p)
     | Inr (a, it) \<Rightarrow> map_option (\<lambda>y. result_map (\<lambda>(b, _). (a, b)) (result_bind y expect_address))
         (push_all vi None (MultiAddr_new (Registry_default vi)) it)))"

datatype Match = MatchVal Code | MatchAny "Code list"

fun match_code :: "Match \<Rightarrow> Code \<Rightarrow> bool" where
  "match_code (MatchVal c) code = (code = c)"
| "match_code (MatchAny cs) code = (code \<in> set cs)"

fun skip_items :: "Varint \<Rightarrow> nat \<Rightarrow> BytesIter \<Rightarrow> BytesIter exec" where
  "skip_items vi 0 it = Inr it"
| "skip_items vi (Suc k) it = result_bind (ProtoIter_next vi it) (\<lambda>(x, it').
     case x of None \<Rightarrow> Inr it' | Some _ \<Rightarrow> skip_items vi k it')"

fun match_all :: "Varint \<Rightarrow> BytesIter \<Rightarrow> Match list \<Rightarrow> bool exec" where
  "match_all vi it [] = result_map (\<lambda>_. True) (ProtoIter_next vi it)"
| "match_all vi it (c # codes) = result_bind (ProtoIter_next vi it) (\<lambda>(x, it').
     case x of
       None \<Rightarrow> Inr False
     | Some p \<Rightarrow> if match_code c (pv_code p) then match_all vi it' codes else Inr False)"

definition ma_matches :: "Varint \<Rightarrow> nat \<Rightarrow> Match list \<Rightarrow> MultiAddr \<Rightarrow> bool exec" where
  "ma_matches vi start codes m = result_bind (skip_items vi start (valid_iter m)) (\<lambda>it. match_all vi it codes)"

definition cast :: "ProtoType \<Rightarrow> ProtoValue \<Rightarrow> Proto option exec" where
  "cast t p = (if pv_code p \<noteq> CODE t then Inr None
     else result_map (\<lambda>r. case r of Inl _ \<Rightarrow> None | Inr x \<Rightarrow> Some x) (read_bytes t (pv_data p)))"

definition unwrap :: "'a option \<Rightarrow> 'a exec" where
  "unwrap x = (case x of Some a \<Rightarrow> Inr a | None \<Rightarrow> Inl (Panic ''called `Option::unwrap()` on a `None` value''))"

definition unwrap_cast :: "ProtoType \<Rightarrow> ProtoValue \<Rightarrow> Proto exec" where
  "unwrap_cast t p = result_bind (cast t p) unwrap"

fun tcp_port :: "Proto \<Rightarrow> nat" where
  "tcp_port (Tcp n) = unat n"
| "tcp_port _ = 0"

fun host_name :: "Proto \<Rightarrow> string" where
  "host_name (StrP _ s) = s"
| "host_name _ = []"

partial_function (option) socket_addr :: "Varint \<Rightarrow> BytesIter \<Rightarrow> (MaError + string) exec option" where
  "socket_addr vi it = (case ProtoIter_next vi it of
     Inl e \<Rightarrow> Some (Inl e)
   | Inr (None, _) \<Rightarrow> Some (Inr (Inl (Message (TextMessage ''No socket address found''))))
   | Inr (Some p, it') \<Rightarrow>
       if pv_code p = CODE Ip4T \<or> pv_code p = CODE Ip6T then
         let t = (if pv_code p = CODE Ip4T then Ip4T else Ip6T) in
         Some (result_bind (unwrap_cast t p) (\<lambda>ip.
               result_bind (ProtoIter_next vi it') (\<lambda>(x, _).
               result_bind (unwrap x) (\<lambda>q.
               result_map (\<lambda>port. Inr ((if t = Ip4T then SocketAddrV4_display (pv_data p)
                    else SocketAddrV6_display (pv_data p)) (tcp_port port)))
                 (unwrap_cast TcpT q)))))
       else if pv_code p = CODE (StrT DnsAddrT) then
         (case unwrap_cast (StrT DnsAddrT) p of
            Inl e \<Rightarrow> Some (Inl e)
          | Inr host \<Rightarrow> (case ProtoIter_next vi it' of
              Inl e \<Rightarrow> Some (Inl e)
            | Inr (Some q, _) \<Rightarrow>
                if pv_code q = CODE TcpT then
                  Some (result_map (\<lambda>port. Inr (host_name host @ '':'' @ show_nat (tcp_port port))) (unwrap_cast TcpT q))
                else socket_addr vi it'
            | Inr (None, _) \<Rightarrow> socket_addr vi it'))
       else Some (Inr (Inl (InvalidProto (pv_code p)))))"

definition to_socket_addr :: "Varint \<Rightarrow> MultiAddr \<Rightarrow> (MaError + string) exec option" where
  "to_socket_addr vi m = socket_addr vi (valid_iter m)"

text \<open>\<open>Display\<close>: an error of the codec other than a formatter error is passed over.\<close>

partial_function (option) display_all :: "Varint \<Rightarrow> Registry \<Rightarrow> BytesIter \<Rightarrow> string \<Rightarrow> (MaError + string) exec option" where
  "display_all vi r it out = (case ProtoIter_next vi it of
     Inl p \<Rightarrow> Some (Inl p)
   | Inr (None, _) \<Rightarrow> Some (Inr (Inr out))
   | Inr (Some pv, it') \<Rightarrow> (case get_by_code r (pv_code pv) of
       None \<Rightarrow> Some (Inl (Panic ''valid code''))
     | Some codec \<Rightarrow> (case transcode_bytes codec (pv_code pv) (pv_data pv) of
         Inl p \<Rightarrow> Some (Inl p)
       | Inr (Inr s) \<Rightarrow> display_all vi r it' (out @ s)
       | Inr (Inl e) \<Rightarrow> if e = Format then Some (Inr (Inl Format)) else display_all vi r it' out)))"

definition MultiAddr_display :: "Varint \<Rightarrow> MultiAddr \<Rightarrow> (MaError + string) exec option" where
  "MultiAddr_display vi m = display_all vi (ma_reg m) (valid_iter m) []"

end
