(* ===== verification/Multiaddr_Laws.thy ===== *)
theory Multiaddr_Laws
  imports Multiaddr
begin

text \<open>
  Multi-addresses are sequences of protocol values.  The bytes of an address are related to the list of its
  components; the operations are shown to be the list operations, parsing and printing to be inverse
  to each other, and the loops over untrusted bytes and strings to end.
\<close>

subsection \<open>Codes, prefixes and the standard registry\<close>

lemma CODE_inject [simp]: "CODE s = CODE t \<longleftrightarrow> s = t"
  by (cases s rule: CODE.cases; cases t rule: CODE.cases) simp_all

lemma PREFIX_inject [simp]: "PREFIX s = PREFIX t \<longleftrightarrow> s = t"
  by (cases s rule: PREFIX.cases; cases t rule: PREFIX.cases) simp_all

lemma all_types_complete [simp]: "t \<in> set all_types"
  by (cases t rule: CODE.cases) (simp_all add: all_types_def)

lemma find_unique: "x \<in> set xs \<Longrightarrow> (\<And>y. P y \<longleftrightarrow> y = x) \<Longrightarrow> find P xs = Some x"
  by (induction xs) auto

lemma type_of_code_CODE [simp]: "type_of_code (CODE t) = Some t"
  unfolding type_of_code_def by (rule find_unique) auto

lemma type_of_prefix_PREFIX [simp]: "type_of_prefix (PREFIX t) = Some t"
  unfolding type_of_prefix_def by (rule find_unique) auto

lemma type_of_code_Some: "type_of_code c = Some t \<longleftrightarrow> c = CODE t"
  by (auto simp: type_of_code_def find_Some_iff) (metis type_of_code_CODE type_of_code_def find_Some_iff)

lemma type_of_prefix_Some: "type_of_prefix s = Some t \<longleftrightarrow> s = PREFIX t"
  by (auto simp: type_of_prefix_def find_Some_iff) (metis type_of_prefix_PREFIX type_of_prefix_def find_Some_iff)

lemma default_by_code:
  "get_by_code (Registry_default vi) c = (if type_of_code c = None then None else Some (StdCodec vi))"
  by (auto simp: get_by_code_def Registry_default_def Let_def register_def RegistryBuilder_new_def bt_get_def
      type_of_code_def all_types_def)

lemma default_by_prefix:
  "get_by_prefix (Registry_default vi) s = (if type_of_prefix s = None then None else Some (StdCodec vi))"
  by (auto simp: get_by_prefix_def Registry_default_def Let_def register_def RegistryBuilder_new_def bt_get_def
      type_of_prefix_def all_types_def)

subsection \<open>Components\<close>

text \<open>What \<open>unsigned-varint\<close> documents: decoding inverts encoding, whatever follows, and returns what is left
  of the input behind at least one byte.\<close>

definition varint_lawful :: "Varint \<Rightarrow> bool" where
  "varint_lawful vi \<longleftrightarrow>
     (\<forall>n r. decode_u32 vi (encode_u32 vi n @ r) = Some (n, r))
   \<and> (\<forall>n r. decode_usize vi (encode_usize vi n @ r) = Some (n, r))
   \<and> (\<forall>b n r. decode_u32 vi b = Some (n, r) \<longrightarrow> (\<exists>f. f \<noteq> [] \<and> b = f @ r))
   \<and> (\<forall>b n r. decode_usize vi b = Some (n, r) \<longrightarrow> (\<exists>f. f \<noteq> [] \<and> b = f @ r))"

text \<open>The methods of the single protocols are unfolded by the simplifier.\<close>

declare
  Ip4_read_str_def [simp] Ip4_read_bytes_def [simp] Ip4_write_bytes_def [simp]
  Ip6_read_str_def [simp] Ip6_read_bytes_def [simp] Ip6_write_bytes_def [simp]
  Tcp_read_str_def [simp] Tcp_read_bytes_def [simp] Tcp_write_bytes_def [simp]
  Str_read_str_def [simp] Str_read_bytes_def [simp] Str_write_bytes_def [simp]

fun value_str :: "Proto \<Rightarrow> string" where
  "value_str (Ip4 a) = Ipv4Addr_display a"
| "value_str (Ip6 a) = Ipv6Addr_display a"
| "value_str (Tcp n) = show_nat (unat n)"
| "value_str (StrP t s) = s"

lemma write_str_eq: "write_str p = ''/'' @ PREFIX (proto_type p) @ ''/'' @ value_str p"
  by (cases p) (simp_all add: Ip4_write_str_def Ip6_write_str_def Tcp_write_str_def Str_write_str_def)

declare write_str.simps [simp del]

text \<open>The values of the protocol types of the source.\<close>

fun valid_proto :: "Proto \<Rightarrow> bool" where
  "valid_proto (Ip4 a) \<longleftrightarrow> length a = 4"
| "valid_proto (Ip6 a) \<longleftrightarrow> length a = 16"
| "valid_proto (Tcp n) \<longleftrightarrow> True"
| "valid_proto (StrP t s) \<longleftrightarrow> utf8_valid s \<and> length s < 2 ^ 64"

text \<open>The bytes of the value alone, without code and length.\<close>

fun raw_value :: "Proto \<Rightarrow> bytes" where
  "raw_value (Ip4 a) = a"
| "raw_value (Ip6 a) = a"
| "raw_value (Tcp n) = u16_to_be_bytes n"
| "raw_value (StrP t s) = s"

definition proto_value :: "Proto \<Rightarrow> ProtoValue" where
  "proto_value p = \<lparr>pv_code = CODE (proto_type p), pv_data = raw_value p\<rparr>"

definition encode_all :: "Varint \<Rightarrow> Proto list \<Rightarrow> bytes" where
  "encode_all vi ps = concat (map (write_bytes vi) ps)"

lemma encode_all_simps [simp]:
  "encode_all vi [] = []" "encode_all vi (p # ps) = write_bytes vi p @ encode_all vi ps"
  "encode_all vi (ps @ qs) = encode_all vi ps @ encode_all vi qs"
  by (simp_all add: encode_all_def)

lemma u16_bytes_roundtrip [simp]: "u16_from_be_bytes (u16_to_be_bytes n) = n"
proof -
  have "unat n < 65536" using unsigned_less [of n, where 'a = nat] by simp
  then have "unat n div 256 < 256" by auto
  then have "be_pair (char_of (unat n div 256)) (char_of (unat n mod 256)) = unat n"
    by (simp add: be_pair_def)
  then show ?thesis by (simp add: u16_from_be_bytes_def u16_to_be_bytes_def)
qed

lemma read_bytes_raw: "valid_proto p \<Longrightarrow> read_bytes (proto_type p) (raw_value p) = Inr (Inr p)"
  by (cases p) (simp_all add: copy_from_slice_def from_utf8_def, simp add: u16_to_be_bytes_def)

lemma write_bytes_value:
  assumes "varint_lawful vi" "valid_proto p"
  obtains tail where "write_bytes vi p = encode_u32 vi (CODE (proto_type p)) @ tail"
    "\<forall>rest. std_split_bytes vi (CODE (proto_type p)) (tail @ rest) = Inr (raw_value p, rest)"
proof (cases p)
  case (StrP t s)
  have "decode_usize vi (encode_usize vi n @ rest) = Some (n, rest)" for n rest
    using assms(1) by (simp add: varint_lawful_def)
  moreover have "unat (of_nat (length s) :: u64) = length s" using assms(2) StrP by (simp add: unat_of_nat)
  ultimately show ?thesis
    using that [of "encode_usize vi (of_nat (length s)) @ s"] StrP
    by (simp add: std_split_bytes_def split_fixed_def)
next
  case (Ip4 a)
  then show ?thesis using that [of a] assms(2) by (simp add: std_split_bytes_def split_fixed_def del: CODE.simps)
next
  case (Ip6 a)
  then show ?thesis using that [of a] assms(2) by (simp add: std_split_bytes_def split_fixed_def del: CODE.simps)
next
  case (Tcp n)
  then show ?thesis using that [of "u16_to_be_bytes n"]
    by (simp add: std_split_bytes_def split_fixed_def u16_to_be_bytes_def del: CODE.simps)
qed

lemma encode_u32_not_Nil: "varint_lawful vi \<Longrightarrow> encode_u32 vi n \<noteq> []"
  unfolding varint_lawful_def by (metis append_Nil append_is_Nil_conv)

lemma write_bytes_not_Nil [simp]: "varint_lawful vi \<Longrightarrow> write_bytes vi p \<noteq> []"
  by (cases p) (simp_all add: encode_u32_not_Nil)

text \<open>A standard iterator that has read \<open>n\<close> of the bytes \<open>b\<close>.\<close>

definition iter_at :: "Varint \<Rightarrow> bytes \<Rightarrow> nat \<Rightarrow> BytesIter" where
  "iter_at vi b n = \<lparr>it_bytes = b, it_offset = n, it_is_err = False, it_registry = Registry_default vi\<rparr>"

lemma BytesIter_next_end: "BytesIter_next vi (iter_at vi b (length b)) = Inr (None, iter_at vi b (length b))"
  by (simp add: BytesIter_next_def iter_at_def)

lemma BytesIter_next_value:
  assumes vi: "varint_lawful vi" and p: "valid_proto p" and b: "b = pre @ write_bytes vi p @ post"
  shows "BytesIter_next vi (iter_at vi b (length pre))
    = Inr (Some (Inr (length pre, CODE (proto_type p), raw_value p)), iter_at vi b (length (pre @ write_bytes vi p)))"
proof -
  obtain tail where tail: "write_bytes vi p = encode_u32 vi (CODE (proto_type p)) @ tail"
      "\<forall>rest. std_split_bytes vi (CODE (proto_type p)) (tail @ rest) = Inr (raw_value p, rest)"
    using write_bytes_value [OF vi p] .
  have "decode_u32 vi (write_bytes vi p @ post) = Some (CODE (proto_type p), tail @ post)"
    using vi tail(1) by (simp add: varint_lawful_def)
  moreover have "get_by_code (Registry_default vi) (CODE (proto_type p)) = Some (StdCodec vi)"
    by (simp add: default_by_code)
  ultimately show ?thesis
    using b tail(2) write_bytes_not_Nil [OF vi, of p]
    by (simp add: BytesIter_next_def iter_at_def StdCodec_def)
qed

lemma ValidBytesIter_simps:
  "ValidBytesIter_next vi (iter_at vi b (length b)) = Inr (None, iter_at vi b (length b))"
  "varint_lawful vi \<Longrightarrow> valid_proto p \<Longrightarrow> b = pre @ write_bytes vi p @ post \<Longrightarrow>
   ValidBytesIter_next vi (iter_at vi b (length pre))
    = Inr (Some (length pre, CODE (proto_type p), raw_value p), iter_at vi b (length (pre @ write_bytes vi p)))"
  by (simp_all add: ValidBytesIter_next_def BytesIter_next_end BytesIter_next_value del: length_append)

lemma ProtoIter_simps:
  "ProtoIter_next vi (iter_at vi b (length b)) = Inr (None, iter_at vi b (length b))"
  "varint_lawful vi \<Longrightarrow> valid_proto p \<Longrightarrow> b = pre @ write_bytes vi p @ post \<Longrightarrow>
   ProtoIter_next vi (iter_at vi b (length pre))
    = Inr (Some (proto_value p), iter_at vi b (length (pre @ write_bytes vi p)))"
  by (simp_all add: ProtoIter_next_def ValidBytesIter_simps proto_value_def del: length_append)

subsection \<open>Loops\<close>

lemma last_item_value:
  assumes "varint_lawful vi" "list_all valid_proto ps" "b = pre @ encode_all vi ps"
  shows "last_item vi acc (iter_at vi b (length pre)) = Some (Inr (if ps = [] then acc
    else Some (length (pre @ encode_all vi (butlast ps)), CODE (proto_type (last ps)), raw_value (last ps))))"
  using assms(2,3)
proof (induction ps arbitrary: pre acc)
  case Nil
  then show ?case using ValidBytesIter_simps(1) [of vi b] by (subst last_item.simps) simp
next
  case (Cons p ps)
  then have "ValidBytesIter_next vi (iter_at vi b (length pre)) = Inr (Some (length pre, CODE (proto_type p), raw_value p),
      iter_at vi b (length (pre @ write_bytes vi p)))"
    using ValidBytesIter_simps(2) [OF assms(1), of p b pre "encode_all vi ps"] by simp
  then show ?case
    using Cons.IH [of "pre @ write_bytes vi p"] Cons.prems by (subst last_item.simps) simp
qed

lemma std_write_raw: "valid_proto p \<Longrightarrow> std_write_bytes vi (proto_value p) = Inr (Inr (write_bytes vi p))"
  by (simp add: std_write_bytes_def proto_value_def read_bytes_raw)

lemma push_back_value_proto:
  assumes "valid_proto p" "ma_reg m = Registry_default vi"
  shows "push_back_value (proto_value p) m = Inr (Inr (), m\<lparr>ma_dat := ma_dat m @ write_bytes vi p\<rparr>)"
  using assms std_write_raw [of p vi]
  by (simp add: push_back_value_def default_by_code StdCodec_def) (simp add: proto_value_def)

definition take_opt :: "nat option \<Rightarrow> 'a list \<Rightarrow> 'a list" where
  "take_opt n xs = (case n of None \<Rightarrow> xs | Some k \<Rightarrow> take k xs)"

lemma push_all_value:
  assumes "varint_lawful vi" "list_all valid_proto ps" "b = pre @ encode_all vi ps" "ma_reg m = Registry_default vi"
  shows "push_all vi n m (iter_at vi b (length pre))
    = Some (Inr ((Inr (), m\<lparr>ma_dat := ma_dat m @ encode_all vi (take_opt n ps)\<rparr>),
        iter_at vi b (length (pre @ encode_all vi (take_opt n ps)))))"
  using assms(2-4)
proof (induction ps arbitrary: pre n m)
  case Nil
  then show ?case using ProtoIter_simps(1) [of vi b]
    by (subst push_all.simps) (auto simp: take_opt_def split: option.split)
next
  case (Cons p ps)
  show ?case
  proof (cases "n = Some 0")
    case True
    then show ?thesis by (subst push_all.simps) (simp add: take_opt_def)
  next
    case False
    have "ProtoIter_next vi (iter_at vi b (length pre))
        = Inr (Some (proto_value p), iter_at vi b (length (pre @ write_bytes vi p)))"
      using ProtoIter_simps(2) [OF assms(1), of p b pre "encode_all vi ps"] Cons.prems by simp
    moreover have "push_back_value (proto_value p) m = Inr (Inr (), m\<lparr>ma_dat := ma_dat m @ write_bytes vi p\<rparr>)"
      using Cons.prems by (intro push_back_value_proto) simp_all
    moreover have "take_opt n (p # ps) = p # take_opt (map_option (\<lambda>k. k - 1) n) ps"
      using False by (cases n) (auto simp: take_opt_def take_Cons')
    ultimately show ?thesis
      using False Cons.IH [of "pre @ write_bytes vi p" "m\<lparr>ma_dat := ma_dat m @ write_bytes vi p\<rparr>"] Cons.prems
      by (subst push_all.simps) simp
  qed
qed

lemma skip_items_value:
  assumes "varint_lawful vi" "list_all valid_proto ps" "b = pre @ encode_all vi ps"
  shows "skip_items vi k (iter_at vi b (length pre)) = Inr (iter_at vi b (length (pre @ encode_all vi (take k ps))))"
  using assms(2,3)
proof (induction k arbitrary: ps pre)
  case (Suc k)
  show ?case
  proof (cases ps)
    case Nil
    then show ?thesis using Suc.prems ProtoIter_simps(1) [of vi b] by simp
  next
    case (Cons p ps')
    then have "ProtoIter_next vi (iter_at vi b (length pre))
        = Inr (Some (proto_value p), iter_at vi b (length (pre @ write_bytes vi p)))"
      using ProtoIter_simps(2) [OF assms(1), of p b pre "encode_all vi ps'"] Suc.prems by simp
    then show ?thesis using Suc.IH [of ps' "pre @ write_bytes vi p"] Suc.prems Cons by simp
  qed
qed simp

text \<open>\<open>codes\<close> matches a prefix of the components.\<close>

definition match_prefix :: "Match list \<Rightarrow> Proto list \<Rightarrow> bool" where
  "match_prefix codes ps \<longleftrightarrow> length codes \<le> length ps \<and>
     list_all2 (\<lambda>c p. match_code c (CODE (proto_type p))) codes (take (length codes) ps)"

lemma match_all_value:
  assumes "varint_lawful vi" "list_all valid_proto ps" "b = pre @ encode_all vi ps"
  shows "match_all vi (iter_at vi b (length pre)) codes = Inr (match_prefix codes ps)"
  using assms(2,3)
proof (induction codes arbitrary: ps pre)
  case Nil
  show ?case
  proof (cases ps)
    case Nil
    then show ?thesis using Nil.prems ProtoIter_simps(1) [of vi b] by (simp add: match_prefix_def)
  next
    case (Cons p ps')
    then show ?thesis
      using ProtoIter_simps(2) [OF assms(1), of p b pre "encode_all vi ps'"] Nil.prems by (simp add: match_prefix_def)
  qed
next
  case (Cons c codes)
  show ?case
  proof (cases ps)
    case Nil
    then show ?thesis using Cons.prems ProtoIter_simps(1) [of vi b] by (simp add: match_prefix_def)
  next
    case (Cons p ps')
    have "ProtoIter_next vi (iter_at vi b (length pre))
        = Inr (Some (proto_value p), iter_at vi b (length (pre @ write_bytes vi p)))"
      using ProtoIter_simps(2) [OF assms(1), of p b pre "encode_all vi ps'"] Cons.prems \<open>ps = p # ps'\<close> by simp
    then show ?thesis
      using Cons.IH [of ps' "pre @ write_bytes vi p"] Cons.prems \<open>ps = p # ps'\<close>
      by (simp add: match_prefix_def proto_value_def)
  qed
qed

subsection \<open>Reading bytes\<close>

lemma u16_bytes_roundtrip2: "length v = 2 \<Longrightarrow> u16_to_be_bytes (u16_from_be_bytes v) = v"
proof -
  assume "length v = 2"
  then obtain x y where v: "v = [x, y]" by (auto simp: numeral_2_eq_2 length_Suc_conv)
  have "be_pair x y < 65536" using of_char_less [of x] of_char_less [of y] unfolding be_pair_def by linarith
  then have "unat (of_nat (be_pair x y) :: u16) = be_pair x y" by (simp add: unat_of_nat)
  then show ?thesis by (simp add: v u16_from_be_bytes_def u16_to_be_bytes_def be_pair_def)
qed

text \<open>The bytes \<open>b\<close> from position \<open>n\<close> on are read as the components \<open>ps\<close>.\<close>

inductive yields :: "Varint \<Rightarrow> bytes \<Rightarrow> nat \<Rightarrow> Proto list \<Rightarrow> bool" for vi b where
  yields_end: "yields vi b (length b) []"
| yields_step: "BytesIter_next vi (iter_at vi b n)
       = Inr (Some (Inr (n, CODE (proto_type p), raw_value p)), iter_at vi b n')
     \<Longrightarrow> valid_proto p \<Longrightarrow> yields vi b n' ps \<Longrightarrow> yields vi b n (p # ps)"

lemma yields_valid: "yields vi b n ps \<Longrightarrow> list_all valid_proto ps"
  by (induction rule: yields.induct) auto

lemma yields_encode:
  assumes "varint_lawful vi" "list_all valid_proto ps" "b = pre @ encode_all vi ps"
  shows "yields vi b (length pre) ps"
  using assms(2,3)
proof (induction ps arbitrary: pre)
  case Nil
  then show ?case using yields_end [of vi b] by simp
next
  case (Cons p ps)
  have "BytesIter_next vi (iter_at vi b (length pre)) = Inr (Some (Inr (length pre, CODE (proto_type p), raw_value p)),
      iter_at vi b (length (pre @ write_bytes vi p)))"
    using BytesIter_next_value [OF assms(1), of p b pre "encode_all vi ps"] Cons.prems by simp
  then show ?case
    using Cons.IH [of "pre @ write_bytes vi p"] Cons.prems by (intro yields_step) simp_all
qed

lemma display_yields:
  assumes "yields vi b n ps"
  shows "display_all vi (Registry_default vi) (iter_at vi b n) out = Some (Inr (Inr (out @ concat (map write_str ps))))"
  using assms
proof (induction arbitrary: out rule: yields.induct)
  case yields_end
  then show ?case using ProtoIter_simps(1) [of vi b] by (subst display_all.simps) simp
next
  case (yields_step n p n' ps)
  then have "ProtoIter_next vi (iter_at vi b n) = Inr (Some (proto_value p), iter_at vi b n')"
    by (simp add: ProtoIter_next_def ValidBytesIter_next_def proto_value_def)
  then show ?case
    using yields_step.IH [of "out @ write_str p"] yields_step.hyps
    by (subst display_all.simps)
      (simp add: default_by_code StdCodec_def std_transcode_bytes_def proto_value_def read_bytes_raw)
qed

text \<open>A value split off by the standard codec can be read without a panic.\<close>

definition value_of :: "ProtoType \<Rightarrow> bytes \<Rightarrow> bool" where
  "value_of t v \<longleftrightarrow> (\<exists>r. read_bytes t v = Inr r \<and> (\<forall>p. r = Inr p \<longrightarrow>
     valid_proto p \<and> proto_type p = t \<and> raw_value p = v))"

lemma split_fixed_cases:
  assumes "split_fixed code n input = Inr (v, rest)"
  shows "input = v @ rest \<and> length v = n"
  using assms by (auto simp: split_fixed_def split: if_splits)

lemma std_split_bytes_cases:
  assumes vi: "varint_lawful vi" and split: "std_split_bytes vi (CODE t) input = Inr (v, rest)"
  obtains front where "input = front @ rest" "value_of t v"
proof (cases t)
  case (StrT s)
  then obtain n inp where n: "decode_usize vi input = Some (n, inp)" "split_fixed (CODE t) (unat n) inp = Inr (v, rest)"
    using split by (auto simp: std_split_bytes_def simp del: CODE.simps split: option.splits)
  obtain f where input: "input = f @ inp" using vi n(1) unfolding varint_lawful_def by blast
  have v: "inp = v @ rest" "length v = unat n" using split_fixed_cases [OF n(2)] by auto
  have len: "length v < 2 ^ 64" unfolding v(2) by (rule unat_u64_less)
  have "value_of t v"
    using len StrT unfolding value_of_def by (cases "utf8_valid v") (simp_all add: from_utf8_def)
  then show ?thesis using that [of "f @ v"] input v(1) by simp
next
  case Ip4T
  then have "input = v @ rest" "length v = 4"
    using split split_fixed_cases [of _ 4] by (auto simp: std_split_bytes_def simp del: CODE.simps)
  then show ?thesis using that [of v] Ip4T by (auto simp: value_of_def copy_from_slice_def)
next
  case Ip6T
  then have "input = v @ rest" "length v = 16"
    using split split_fixed_cases [of _ 16] by (auto simp: std_split_bytes_def simp del: CODE.simps)
  then show ?thesis using that [of v] Ip6T by (auto simp: value_of_def copy_from_slice_def)
next
  case TcpT
  then have "input = v @ rest" "length v = 2"
    using split split_fixed_cases [of _ 2] by (auto simp: std_split_bytes_def simp del: CODE.simps)
  then show ?thesis using that [of v] TcpT
    by (auto simp: value_of_def copy_from_slice_def u16_bytes_roundtrip2)
qed

lemma BytesIter_next_cases:
  assumes vi: "varint_lawful vi" and n: "n < length b"
  obtains e it where "BytesIter_next vi (iter_at vi b n) = Inr (Some (Inl e), it)"
  | t v n' where "n < n'" "n' \<le> length b" "value_of t v"
      "BytesIter_next vi (iter_at vi b n) = Inr (Some (Inr (n, CODE t, v)), iter_at vi b n')"
proof (cases "decode_u32 vi (drop n b)")
  case None
  then show ?thesis using that(1) n by (simp add: BytesIter_next_def iter_at_def)
next
  case (Some p)
  then obtain code input where d: "decode_u32 vi (drop n b) = Some (code, input)" by (cases p) auto
  then obtain f where f: "f \<noteq> []" "drop n b = f @ input" using vi unfolding varint_lawful_def by blast
  show ?thesis
  proof (cases "type_of_code code")
    case None
    then show ?thesis using that(1) n d by (simp add: BytesIter_next_def iter_at_def default_by_code)
  next
    case (Some t)
    then have code: "code = CODE t" by (simp add: type_of_code_Some)
    show ?thesis
    proof (cases "std_split_bytes vi (CODE t) input")
      case (Inl e)
      then show ?thesis using that(1) n d code
        by (simp add: BytesIter_next_def iter_at_def default_by_code StdCodec_def)
    next
      case (Inr q)
      then obtain v rest where s: "std_split_bytes vi (CODE t) input = Inr (v, rest)" by (cases q) auto
      obtain front where front: "input = front @ rest" "value_of t v"
        using std_split_bytes_cases [OF vi s] .
      have "length (drop n b) = length f + length front + length rest" using f(2) front(1) by simp
      then have len: "length rest \<le> length b" "n < length b - length rest"
        using f(1) n by (auto simp flip: length_greater_0_conv)
      show ?thesis
        by (rule that(2) [OF len(2) _ front(2)])
          (use n d code s len in \<open>simp_all add: BytesIter_next_def iter_at_def default_by_code StdCodec_def\<close>)
    qed
  qed
qed

lemma check_all_total:
  assumes vi: "varint_lawful vi" and n: "n \<le> length b"
  shows "\<exists>r. check_all vi (Registry_default vi) (iter_at vi b n) = Some (Inr r)
    \<and> (is_ok r \<longrightarrow> (\<exists>ps. yields vi b n ps))"
  using n
proof (induction "length b - n" arbitrary: n rule: less_induct)
  case less
  show ?case
  proof (cases "n = length b")
    case True
    then show ?thesis
      using BytesIter_next_end [of vi b] yields_end [of vi b] by (subst check_all.simps) auto
  next
    case False
    with less.prems have n: "n < length b" by simp
    show ?thesis
    proof (rule BytesIter_next_cases [OF vi n])
      fix e it assume "BytesIter_next vi (iter_at vi b n) = Inr (Some (Inl e), it)"
      then show ?thesis by (subst check_all.simps) simp
    next
      fix t v n'
      assume n': "n < n'" "n' \<le> length b" and v: "value_of t v"
        and it: "BytesIter_next vi (iter_at vi b n) = Inr (Some (Inr (n, CODE t, v)), iter_at vi b n')"
      obtain r where r: "read_bytes t v = Inr r" "\<forall>p. r = Inr p \<longrightarrow> valid_proto p \<and> proto_type p = t \<and> raw_value p = v"
        using v by (auto simp: value_of_def)
      have step: "check_all vi (Registry_default vi) (iter_at vi b n)
          = (if is_ok r then check_all vi (Registry_default vi) (iter_at vi b n')
             else Some (Inr (Inl (InvalidProto (CODE t)))))"
        using it r(1) by (subst check_all.simps) (simp add: default_by_code StdCodec_def std_is_valid_bytes_def)
      have "length b - n' < length b - n" using n n' by simp
      from less.hyps [OF this n'(2)] obtain r' where r':
          "check_all vi (Registry_default vi) (iter_at vi b n') = Some (Inr r')"
          "is_ok r' \<longrightarrow> (\<exists>ps. yields vi b n' ps)"
        by blast
      show ?thesis
      proof (cases r)
        case (Inr p)
        then have "yields vi b n (p # ps)" if "yields vi b n' ps" for ps
          using it r(2) that by (intro yields_step) auto
        with step r' Inr show ?thesis by auto
      qed (use step in simp)
    qed
  qed
qed

lemma check_all_value:
  assumes "varint_lawful vi" "list_all valid_proto ps" "b = pre @ encode_all vi ps"
  shows "check_all vi (Registry_default vi) (iter_at vi b (length pre)) = Some (Inr (Inr ()))"
  using assms(2,3)
proof (induction ps arbitrary: pre)
  case Nil
  then show ?case using BytesIter_next_end [of vi b] by (subst check_all.simps) simp
next
  case (Cons p ps)
  then have "BytesIter_next vi (iter_at vi b (length pre)) = Inr (Some (Inr (length pre, CODE (proto_type p), raw_value p)),
      iter_at vi b (length (pre @ write_bytes vi p)))"
    using BytesIter_next_value [OF assms(1), of p b pre "encode_all vi ps"] by simp
  then show ?case
    using Cons.IH [of "pre @ write_bytes vi p"] Cons.prems
    by (subst check_all.simps) (simp add: default_by_code StdCodec_def std_is_valid_bytes_def read_bytes_raw)
qed

subsection \<open>Reading text\<close>

text \<open>Components whose text has no slash.\<close>

fun plain_text :: "Proto \<Rightarrow> bool" where
  "plain_text (StrP t s) \<longleftrightarrow> CHR ''/'' \<notin> set s"
| "plain_text _ \<longleftrightarrow> True"

lemma slash_show_nat: "CHR ''/'' \<notin> set (show_nat n)"
  using show_nat_in_range [of "CHR ''/''" n] by (auto simp: in_range_def)

lemma slash_join: "set (join_with sep xs) \<subseteq> set sep \<union> \<Union> (set ` set xs)"
  by (induction sep xs rule: join_with.induct) auto

lemma slash_ipv4: "CHR ''/'' \<notin> set (Ipv4Addr_display a)"
  using slash_join [of "''.''" "map (\<lambda>b. show_nat (of_char b)) a"] slash_show_nat
  by (auto simp: Ipv4Addr_display_def)

lemma slash_show_hex: "CHR ''/'' \<notin> set (show_hex n)"
proof (induction n rule: show_hex.induct)
  case (1 n)
  have "d < 16 \<Longrightarrow> hex_char d \<noteq> CHR ''/''" for d
    using radix_digit_hex_char [of d] by (auto simp: radix_digit_def in_range_def)
  from this [of n] this [of "n mod 16"] 1 show ?case by (subst show_hex.simps) auto
qed

lemma slash_subslice: "CHR ''/'' \<notin> set (fmt_subslice gs)"
  using slash_join [of "'':''" "map show_hex gs"] slash_show_hex by (auto simp: fmt_subslice_def)

lemma slash_ipv6: "CHR ''/'' \<notin> set (Ipv6Addr_display a)"
  using slash_ipv4 slash_subslice by (auto simp: Ipv6Addr_display_def Let_def split: option.split prod.split)

lemma slash_value_str: "plain_text p \<Longrightarrow> CHR ''/'' \<notin> set (value_str p)"
  by (cases p) (simp_all add: slash_ipv4 slash_ipv6 slash_show_nat)

lemma slash_PREFIX: "CHR ''/'' \<notin> set (PREFIX t)"
  by (cases t rule: PREFIX.cases) simp_all

lemma read_str_value: "valid_proto p \<Longrightarrow> read_str (proto_type p) (value_str p) = Inr p"
proof (cases p)
  case (Tcp n)
  have "unat n \<le> 65535" using unsigned_less [of n, where 'a = nat] by simp
  then show ?thesis by (simp add: Tcp parse_unsigned_show_nat)
qed (simp_all add: Ipv4Addr_from_str_display Ipv6Addr_from_str_display)

lemma split_once_append: "c \<notin> set xs \<Longrightarrow> split_once c (xs @ c # ys) = Some (xs, ys)"
  by (induction xs) (auto simp: split_once_def)

lemma split_at_slash:
  "CHR ''/'' \<notin> set xs \<Longrightarrow> takeWhile (\<lambda>c. c \<noteq> CHR ''/'') (xs @ CHR ''/'' # ys) = xs"
  "CHR ''/'' \<notin> set xs \<Longrightarrow> dropWhile (\<lambda>c. c \<noteq> CHR ''/'') (xs @ CHR ''/'' # ys) = CHR ''/'' # ys"
  by (induction xs) auto

lemma StrIter_next_value:
  assumes "plain_text p" "rest = [] \<or> hd rest = CHR ''/''"
  shows "StrIter_next (Registry_default vi) (write_str p @ rest)
    = (Some (Inr (PREFIX (proto_type p), value_str p)), rest)"
proof -
  have v: "CHR ''/'' \<notin> set (value_str p)" by (rule slash_value_str [OF assms(1)])
  have "split_once (CHR ''/'') (write_str p @ rest) = Some ([], PREFIX (proto_type p) @ CHR ''/'' # value_str p @ rest)"
    using split_once_append [of "CHR ''/''" "[]"] by (simp add: write_str_eq)
  moreover have "std_split_str (PREFIX (proto_type p)) (value_str p @ rest) = Inr (value_str p, rest)"
    using v assms(2) by (cases rest) (auto simp: std_split_str_def split_at_slash)
  moreover have "write_str p \<noteq> []" by (simp add: write_str_eq)
  ultimately show ?thesis
    using split_once_append [OF slash_PREFIX, of "proto_type p" "value_str p @ rest"]
    by (simp add: StrIter_next_def default_by_prefix StdCodec_def)
qed

lemma transcode_all_value:
  assumes "list_all valid_proto ps" "list_all plain_text ps"
  shows "transcode_all (Registry_default vi) (concat (map write_str ps)) b = Some (Inr (b @ encode_all vi ps))"
  using assms
proof (induction ps arbitrary: b)
  case Nil
  then show ?case by (subst transcode_all.simps) (simp add: StrIter_next_def)
next
  case (Cons p ps)
  have "concat (map write_str ps) = [] \<or> hd (concat (map write_str ps)) = CHR ''/''"
    by (cases ps) (simp_all add: write_str_eq)
  with Cons have "StrIter_next (Registry_default vi) (write_str p @ concat (map write_str ps))
      = (Some (Inr (PREFIX (proto_type p), value_str p)), concat (map write_str ps))"
    by (intro StrIter_next_value) simp_all
  then show ?case
    using Cons by (subst transcode_all.simps)
      (simp add: default_by_prefix StdCodec_def std_transcode_str_def read_str_value)
qed

lemma split_once_shorter:
  assumes "split_once c s = Some (x, y)"
  shows "length y < length s"
proof -
  have c: "c \<in> set s" "y = tl (dropWhile (\<lambda>x. x \<noteq> c) s)"
    using assms by (auto simp: split_once_def split: if_splits)
  then have "dropWhile (\<lambda>x. x \<noteq> c) s \<noteq> []" by (simp add: dropWhile_eq_Nil_conv) 
  then have "length y < length (dropWhile (\<lambda>x. x \<noteq> c) s)" by (simp add: c(2))
  also have "\<dots> \<le> length s" by (rule length_dropWhile_le)
  finally show ?thesis .
qed

lemma std_split_str_shorter: "std_split_str pfx v = Inr (x, rest) \<Longrightarrow> length rest \<le> length v"
  by (auto simp: std_split_str_def length_dropWhile_le split: if_splits)

lemma StrIter_next_shorter:
  assumes "StrIter_next (Registry_default vi) s = (Some (Inr x), rest)"
  shows "length rest < length s"
proof -
  define pv where "pv = (case split_once (CHR ''/'') s of
          Some ([], s') \<Rightarrow> (case split_once (CHR ''/'') s' of Some (p, r) \<Rightarrow> (p, r) | None \<Rightarrow> (s', []))
        | Some (p, s') \<Rightarrow> (p, s')
        | None \<Rightarrow> (s, []))"
  have s: "s \<noteq> []" using assms by (auto simp: StrIter_next_def)
  have "length (snd pv) < length s"
    using s unfolding pv_def
    by (auto split: option.split list.split dest!: split_once_shorter)
  moreover have "length rest \<le> length (snd pv)"
    using assms s unfolding StrIter_next_def pv_def [symmetric]
    by (auto simp: default_by_prefix StdCodec_def split: prod.splits option.splits sum.splits if_splits
        dest: std_split_str_shorter)
  ultimately show ?thesis by simp
qed

lemma transcode_all_total: "\<exists>r. transcode_all (Registry_default vi) s b = Some r"
proof (induction "length s" arbitrary: s b rule: less_induct)
  case less
  obtain x s' where nx: "StrIter_next (Registry_default vi) s = (x, s')" by force
  show ?case
  proof (cases "\<exists>pfx v. x = Some (Inr (pfx, v))")
    case True
    then obtain pfx v where x: "x = Some (Inr (pfx, v))" by blast
    then have "length s' < length s" using StrIter_next_shorter nx by metis
    with less have "\<exists>r. transcode_all (Registry_default vi) s' b' = Some r" for b' by blast
    with nx x show ?thesis
      by (subst transcode_all.simps) (auto split: option.split sum.split)
  next
    case False
    with nx show ?thesis by (subst transcode_all.simps) (auto split: option.split sum.split)
  qed
qed

subsection \<open>Addresses as lists of components\<close>

definition is_addr :: "Varint \<Rightarrow> Proto list \<Rightarrow> MultiAddr \<Rightarrow> bool" where
  "is_addr vi ps m \<longleftrightarrow> list_all valid_proto ps \<and> ma_reg m = Registry_default vi
     \<and> ma_off m \<le> length (ma_dat m) \<and> as_ref m = encode_all vi ps"

lemma is_addr_iter: "is_addr vi ps m \<Longrightarrow> valid_iter m = iter_at vi (encode_all vi ps) 0"
  by (simp add: is_addr_def valid_iter_def BytesIter_with_registry_def iter_at_def)

lemma is_addr_dat: "is_addr vi ps m \<Longrightarrow> ma_dat m = take (ma_off m) (ma_dat m) @ encode_all vi ps"
  using append_take_drop_id [of "ma_off m" "ma_dat m"] by (simp add: is_addr_def as_ref_def)

lemma is_addr_append:
  assumes "is_addr vi ps m" "list_all valid_proto qs"
  shows "is_addr vi (ps @ qs) (m\<lparr>ma_dat := ma_dat m @ encode_all vi qs\<rparr>)"
  using assms by (simp add: is_addr_def as_ref_def)

lemma is_addr_off:
  assumes "is_addr vi (ps @ qs) m"
  shows "is_addr vi qs (m\<lparr>ma_off := ma_off m + length (encode_all vi ps)\<rparr>)"
proof -
  have a: "drop (ma_off m) (ma_dat m) = encode_all vi ps @ encode_all vi qs" "ma_off m \<le> length (ma_dat m)"
    using assms by (auto simp: is_addr_def as_ref_def)
  then have "length (ma_dat m) - ma_off m = length (encode_all vi ps) + length (encode_all vi qs)"
    by (metis length_append length_drop)
  moreover have "drop (ma_off m + length (encode_all vi ps)) (ma_dat m) = encode_all vi qs"
    using a(1) by (simp add: drop_drop [symmetric] add.commute [of "ma_off m"])
  ultimately show ?thesis using assms by (auto simp: is_addr_def as_ref_def)
qed

lemma is_addr_truncate:
  assumes "is_addr vi (ps @ qs) m"
  shows "is_addr vi ps (m\<lparr>ma_dat := take (ma_off m + length (encode_all vi ps)) (ma_dat m)\<rparr>)"
proof -
  have a: "drop (ma_off m) (ma_dat m) = encode_all vi ps @ encode_all vi qs" "ma_off m \<le> length (ma_dat m)"
    using assms by (auto simp: is_addr_def as_ref_def)
  then have "drop (ma_off m) (take (ma_off m + length (encode_all vi ps)) (ma_dat m)) = encode_all vi ps"
    by (simp add: drop_take)
  then show ?thesis using assms by (simp add: is_addr_def as_ref_def)
qed

lemma pop_front_value:
  assumes vi: "varint_lawful vi" and m: "is_addr vi (p # ps) m"
  shows "pop_front vi m
    = Inr (Some (proto_value p), m\<lparr>ma_off := ma_off m + length (write_bytes vi p)\<rparr>)"
proof -
  have valid: "valid_proto p" using m by (simp add: is_addr_def)
  have it: "ValidBytesIter_next vi (valid_iter m) = Inr (Some (0, CODE (proto_type p), raw_value p),
      iter_at vi (encode_all vi (p # ps)) (length (write_bytes vi p)))"
    using ValidBytesIter_simps(2) [OF vi valid, of "encode_all vi (p # ps)" "[]" "encode_all vi ps"]
    unfolding is_addr_iter [OF m] by simp
  obtain front where front: "write_bytes vi p = front @ raw_value p" by (cases p) auto
  have "ma_dat m = take (ma_off m) (ma_dat m) @ front @ raw_value p @ encode_all vi ps"
    using is_addr_dat [OF m] front by simp
  moreover have "ma_off m \<le> length (ma_dat m)" using m by (simp add: is_addr_def)
  ultimately have "drop (ma_off m + length front) (ma_dat m) = raw_value p @ encode_all vi ps"
    by (metis append_eq_conv_conj append_assoc length_append length_take min_absorb2)
  then show ?thesis by (simp add: pop_front_def it iter_at_def proto_value_def front)
qed

lemma drop_first_value:
  assumes vi: "varint_lawful vi" and m: "is_addr vi (p # ps) m"
  shows "drop_first vi m = Inr (m\<lparr>ma_off := ma_off m + length (write_bytes vi p)\<rparr>)"
proof -
  have valid: "valid_proto p" using m by (simp add: is_addr_def)
  show ?thesis
    using ValidBytesIter_simps(2) [OF vi valid, of "encode_all vi (p # ps)" "[]" "encode_all vi ps"]
    unfolding drop_first_def is_addr_iter [OF m] by simp (simp add: iter_at_def)
qed

lemma pop_back_value:
  assumes vi: "varint_lawful vi" and m: "is_addr vi (ps @ [p]) m"
  shows "pop_back vi m = Some (Inr (Some (proto_value p),
    m\<lparr>ma_dat := take (ma_off m + length (encode_all vi ps)) (ma_dat m)\<rparr>))"
proof -
  have "last_item vi None (valid_iter m)
      = Some (Inr (Some (length (encode_all vi ps), CODE (proto_type p), raw_value p)))"
    using last_item_value [OF vi, of "ps @ [p]" "encode_all vi (ps @ [p])" "[]" None] m is_addr_iter [OF m]
    by (simp add: is_addr_def)
  moreover obtain front where front: "write_bytes vi p = front @ raw_value p" by (cases p) auto
  have dat: "ma_dat m = take (ma_off m) (ma_dat m) @ encode_all vi ps @ front @ raw_value p"
    using is_addr_dat [OF m] front by simp
  have off: "ma_off m \<le> length (ma_dat m)" and len: "ma_len m = length (encode_all vi ps @ front @ raw_value p)"
    using m front by (simp_all add: is_addr_def ma_len_def)
  have "drop (ma_off m + ma_len m - length (raw_value p)) (ma_dat m) = raw_value p"
  proof -
    have "ma_off m + ma_len m - length (raw_value p) = length (take (ma_off m) (ma_dat m) @ encode_all vi ps @ front)"
      using off len by simp
    then show ?thesis using dat by (metis append_assoc append_eq_conv_conj)
  qed
  moreover have "take (ma_off m + length (encode_all vi ps)) (take (ma_off m + ma_len m - length (raw_value p)) (ma_dat m))
      = take (ma_off m + length (encode_all vi ps)) (ma_dat m)"
    using len by (simp add: take_take min_def)
  ultimately show ?thesis by (simp add: pop_back_def Let_def proto_value_def)
qed

lemma drop_last_value:
  assumes vi: "varint_lawful vi" and m: "is_addr vi (ps @ [p]) m"
  shows "drop_last vi m = Some (Inr (m\<lparr>ma_dat := take (ma_off m + length (encode_all vi ps)) (ma_dat m)\<rparr>))"
  using last_item_value [OF vi, of "ps @ [p]" "encode_all vi (ps @ [p])" "[]" None] m is_addr_iter [OF m]
  by (simp add: drop_last_def is_addr_def)

lemma empty_values:
  assumes vi: "varint_lawful vi" and m: "is_addr vi [] m"
  shows "pop_front vi m = Inr (None, m)" "drop_first vi m = Inr m"
    "pop_back vi m = Some (Inr (None, m))" "drop_last vi m = Some (Inr m)"
  using ValidBytesIter_simps(1) [of vi "[]"] last_item_value [OF vi, of "[]" "[]" "[]" None] is_addr_iter [OF m]
  by (simp_all add: pop_front_def drop_first_def pop_back_def drop_last_def)

lemma push_back_addr:
  assumes "is_addr vi ps m" "valid_proto p"
  shows "push_back vi p m = (Inr (), m\<lparr>ma_dat := ma_dat m @ encode_all vi [p]\<rparr>)"
  using assms by (simp add: push_back_def is_addr_def default_by_code)

lemma push_front_addr:
  assumes "is_addr vi ps m" "valid_proto p"
  shows "push_front vi p m = (Inr (), m\<lparr>ma_dat := write_bytes vi p @ ma_dat m\<rparr>)"
  using assms by (simp add: push_front_def is_addr_def default_by_code)

lemma push_front_zero:
  assumes "is_addr vi ps m" "valid_proto p" "ma_off m = 0"
  shows "is_addr vi (p # ps) (m\<lparr>ma_dat := write_bytes vi p @ ma_dat m\<rparr>)"
  using assms by (simp add: is_addr_def as_ref_def)

lemma push_all_addr:
  assumes "varint_lawful vi" "is_addr vi ps n" "is_addr vi qs m"
  shows "\<exists>m' it. push_all vi k m (valid_iter n) = Some (Inr ((Inr (), m'), it))
    \<and> is_addr vi (qs @ take_opt k ps) m' \<and> it = iter_at vi (encode_all vi ps) (length (encode_all vi (take_opt k ps)))"
proof -
  have "list_all valid_proto ps" "ma_reg m = Registry_default vi" using assms by (simp_all add: is_addr_def)
  from push_all_value [OF assms(1) this(1) _ this(2), of "encode_all vi ps" "[]" k]
  have "push_all vi k m (valid_iter n) = Some (Inr ((Inr (), m\<lparr>ma_dat := ma_dat m @ encode_all vi (take_opt k ps)\<rparr>),
      iter_at vi (encode_all vi ps) (length (encode_all vi (take_opt k ps)))))"
    by (simp add: is_addr_iter [OF assms(2)])
  moreover have "list_all valid_proto (take_opt k ps)"
    using assms(2) by (auto simp: is_addr_def take_opt_def list_all_iff dest: in_set_takeD split: option.split)
  ultimately show ?thesis using is_addr_append [OF assms(3)] by blast
qed

lemma new_is_addr: "is_addr vi [] (MultiAddr_new (Registry_default vi))"
  by (simp add: is_addr_def MultiAddr_new_def as_ref_def)

lemma split_addr:
  assumes vi: "varint_lawful vi" and m: "is_addr vi ps m"
  shows "\<exists>x y. ma_split vi k m = Some (Inr (x, y)) \<and> is_addr vi (take k ps) x \<and> is_addr vi (drop k ps) y"
proof -
  let ?new = "MultiAddr_new (Registry_default vi)"
  let ?it = "iter_at vi (encode_all vi ps) (length (encode_all vi (take k ps)))"
  obtain x where x: "push_all vi (Some k) ?new (valid_iter m) = Some (Inr ((Inr (), x), ?it))" "is_addr vi (take k ps) x"
    using push_all_addr [OF vi m new_is_addr, of "Some k"] by (auto simp: take_opt_def)
  have valid: "list_all valid_proto (drop k ps)"
    using m by (auto simp: is_addr_def list_all_iff dest: in_set_dropD)
  have enc: "encode_all vi ps = encode_all vi (take k ps) @ encode_all vi (drop k ps)"
    by (simp flip: encode_all_simps(3))
  define y where "y = ?new\<lparr>ma_dat := ma_dat ?new @ encode_all vi (drop k ps)\<rparr>"
  have "push_all vi None ?new ?it = Some (Inr ((Inr (), y), iter_at vi (encode_all vi ps) (length (encode_all vi ps))))"
    using push_all_value [OF vi valid enc, of ?new None] enc by (simp add: take_opt_def y_def MultiAddr_new_def)
  moreover have "is_addr vi (drop k ps) y" using is_addr_append [OF new_is_addr valid] by (simp add: y_def)
  ultimately show ?thesis using x by (simp add: ma_split_def expect_address_def)
qed

subsection \<open>A concrete encoding of integers\<close>

text \<open>Seven bits a byte, the lowest first, the top bit set on all but the last; encodings that are not minimal
  are refused.\<close>

fun leb :: "nat \<Rightarrow> bytes" where
  "leb n = (if n < 128 then [char_of n] else char_of (128 + n mod 128) # leb (n div 128))"

declare leb.simps [simp del]

fun unleb :: "bytes \<Rightarrow> (nat \<times> bytes) option" where
  "unleb [] = None"
| "unleb (c # cs) = (let v = of_char c in
     if v < 128 then Some (v, cs)
     else case unleb cs of
       None \<Rightarrow> None
     | Some (m, r) \<Rightarrow> if m = 0 then None else Some (v - 128 + 128 * m, r))"

definition leb_decode :: "bytes \<Rightarrow> ('a::len word \<times> bytes) option" where
  "leb_decode b = (case unleb b of
     None \<Rightarrow> None
   | Some (n, r) \<Rightarrow> if n < 2 ^ LENGTH('a) then Some (word_of_nat n, r) else None)"

definition sample_varint :: Varint where
  "sample_varint = \<lparr>encode_u32 = (\<lambda>n. leb (unat n)), decode_u32 = leb_decode,
     encode_usize = (\<lambda>n. leb (unat n)), decode_usize = leb_decode\<rparr>"

lemma unleb_leb: "unleb (leb n @ r) = Some (n, r)"
proof (induction n rule: leb.induct)
  case (1 n)
  show ?case
  proof (cases "n < 128")
    case True
    then show ?thesis by (subst leb.simps) simp
  next
    case False
    then have "n div 128 \<noteq> 0" by (simp add: div_eq_0_iff)
    moreover have "n mod 128 + 128 * (n div 128) = n" by simp
    ultimately show ?thesis using 1 False by (subst leb.simps) (simp add: Let_def)
  qed
qed

lemma unleb_suffix: "unleb b = Some (n, r) \<Longrightarrow> \<exists>f. f \<noteq> [] \<and> b = f @ r"
proof (induction b arbitrary: n)
  case (Cons c cs)
  show ?case
  proof (cases "(of_char c :: nat) < 128")
    case True
    then show ?thesis using Cons.prems by (intro exI [of _ "[c]"]) simp
  next
    case False
    then obtain m where "unleb cs = Some (m, r)"
      using Cons.prems by (auto simp: Let_def split: option.splits if_splits)
    then obtain f where "cs = f @ r" using Cons.IH by blast
    then show ?thesis by (intro exI [of _ "c # f"]) simp
  qed
qed simp

lemma leb_decode_encode: "leb_decode (leb (unat n) @ r) = Some (n, r)"
  using unsigned_less [of n, where 'a = nat] by (simp add: leb_decode_def unleb_leb)

lemma leb_decode_suffix: "leb_decode b = Some (n, r) \<Longrightarrow> \<exists>f. f \<noteq> [] \<and> b = f @ r"
  by (auto simp: leb_decode_def split: option.splits if_splits dest: unleb_suffix)

lemma sample_varint_lawful: "varint_lawful sample_varint"
  by (simp add: varint_lawful_def sample_varint_def leb_decode_encode leb_decode_suffix)

definition sample_addr :: MultiAddr where
  "sample_addr = \<lparr>ma_dat = encode_all sample_varint [Tcp 80, StrP NodeT ''n1''], ma_off = 0,
     ma_reg = Registry_default sample_varint\<rparr>"

lemma sample_addr_is: "is_addr sample_varint [Tcp 80, StrP NodeT ''n1''] sample_addr"
  by (simp add: is_addr_def sample_addr_def as_ref_def in_range_def)

subsection \<open>Properties\<close>

text \<open>C37: an address behaves as the list of its components.  Whatever was taken off its front before, pushing
  at the back, taking off either end, cloning, looking at the ends, concatenating, splitting and
  matching are the list operations, and none of them panics or fails.\<close>

theorem multiaddr_operations:
  assumes vi: "varint_lawful vi" and m: "is_addr vi ps m" and p: "valid_proto p" and n: "is_addr vi qs n"
  shows "(\<exists>m'. push_back vi p m = (Inr (), m') \<and> is_addr vi (ps @ [p]) m')
    \<and> (\<exists>m'. push_back_value (proto_value p) m = Inr (Inr (), m') \<and> is_addr vi (ps @ [p]) m')
    \<and> (\<exists>m'. pop_back vi m = Some (Inr (if ps = [] then None else Some (proto_value (last ps)), m'))
          \<and> is_addr vi (butlast ps) m')
    \<and> (\<exists>m'. pop_front vi m = Inr (if ps = [] then None else Some (proto_value (hd ps)), m')
          \<and> is_addr vi (tl ps) m')
    \<and> (\<exists>m'. drop_last vi m = Some (Inr m') \<and> is_addr vi (butlast ps) m')
    \<and> (\<exists>m'. drop_first vi m = Inr m' \<and> is_addr vi (tl ps) m')
    \<and> is_addr vi ps (MultiAddr_clone m) \<and> ma_off (MultiAddr_clone m) = 0
    \<and> (\<exists>m'. ma_concat vi m n = Some (Inr (Inr m')) \<and> is_addr vi (ps @ qs) m')
    \<and> (\<exists>x y. ma_split vi k m = Some (Inr (x, y)) \<and> is_addr vi (take k ps) x \<and> is_addr vi (drop k ps) y)
    \<and> ma_matches vi k codes m = Inr (match_prefix codes (drop k ps))"
proof (intro conjI)
  have valid: "list_all valid_proto ps" and reg: "ma_reg m = Registry_default vi" using m by (simp_all add: is_addr_def)
  note appended = is_addr_append [OF m, of "[p]"]
  show "\<exists>m'. push_back vi p m = (Inr (), m') \<and> is_addr vi (ps @ [p]) m'"
    using push_back_addr [OF m p] appended p by auto
  show "\<exists>m'. push_back_value (proto_value p) m = Inr (Inr (), m') \<and> is_addr vi (ps @ [p]) m'"
    using push_back_value_proto [OF p reg] appended p by auto
  show "\<exists>m'. pop_back vi m = Some (Inr (if ps = [] then None else Some (proto_value (last ps)), m'))
      \<and> is_addr vi (butlast ps) m'"
    using pop_back_value [OF vi] is_addr_truncate empty_values(3) [OF vi] m by (cases ps rule: rev_cases) auto
  show "\<exists>m'. pop_front vi m = Inr (if ps = [] then None else Some (proto_value (hd ps)), m') \<and> is_addr vi (tl ps) m'"
    using pop_front_value [OF vi] is_addr_off [of vi "[hd ps]" "tl ps" m] empty_values(1) [OF vi] m
    by (cases ps) auto
  show "\<exists>m'. drop_last vi m = Some (Inr m') \<and> is_addr vi (butlast ps) m'"
    using drop_last_value [OF vi] is_addr_truncate empty_values(4) [OF vi] m by (cases ps rule: rev_cases) auto
  show "\<exists>m'. drop_first vi m = Inr m' \<and> is_addr vi (tl ps) m'"
    using drop_first_value [OF vi] is_addr_off [of vi "[hd ps]" "tl ps" m] empty_values(2) [OF vi] m
    by (cases ps) auto
  show "is_addr vi ps (MultiAddr_clone m)" "ma_off (MultiAddr_clone m) = 0"
    using m by (auto simp: MultiAddr_clone_def is_addr_def as_ref_def)
  show "\<exists>m'. ma_concat vi m n = Some (Inr (Inr m')) \<and> is_addr vi (ps @ qs) m'"
    using push_all_addr [OF vi n m, of None] by (auto simp: ma_concat_def concat_mut_def take_opt_def)
  show "\<exists>x y. ma_split vi k m = Some (Inr (x, y)) \<and> is_addr vi (take k ps) x \<and> is_addr vi (drop k ps) y"
    by (rule split_addr [OF vi m])
  have enc: "encode_all vi ps = encode_all vi (take k ps) @ encode_all vi (drop k ps)"
    by (simp flip: encode_all_simps(3))
  have valid': "list_all valid_proto (drop k ps)" using valid by (auto simp: list_all_iff dest: in_set_dropD)
  show "ma_matches vi k codes m = Inr (match_prefix codes (drop k ps))"
    using skip_items_value [OF vi valid, of "encode_all vi ps" "[]" k] match_all_value [OF vi valid' enc]
    by (simp add: ma_matches_def is_addr_iter [OF m])
qed

theorem multiaddr_operations_witness:
  "(\<exists>m'. pop_front sample_varint sample_addr = Inr (Some (proto_value (Tcp 80)), m')
      \<and> is_addr sample_varint [StrP NodeT ''n1''] m')
   \<and> (\<exists>m'. push_back sample_varint (Tcp 22) sample_addr = (Inr (), m')
      \<and> is_addr sample_varint [Tcp 80, StrP NodeT ''n1'', Tcp 22] m')"
  using multiaddr_operations [OF sample_varint_lawful sample_addr_is _ sample_addr_is, of "Tcp 22" 0 "[]"] by simp

text \<open>C38: printing and parsing are inverse to each other: an address whose string values have no slash in them
  is read back from its text and from its bytes, with equal bytes.\<close>

theorem multiaddr_roundtrip:
  assumes vi: "varint_lawful vi" and m: "is_addr vi ps m" and plain: "list_all plain_text ps"
  shows "\<exists>text m1 m2. MultiAddr_display vi m = Some (Inr (Inr text)) \<and> text = concat (map write_str ps)
    \<and> try_from_str text (Registry_default vi) = Some (Inr m1) \<and> MultiAddr_eq m1 m
    \<and> try_from_bytes vi (as_ref m) (Registry_default vi) = Some (Inr (Inr m2)) \<and> MultiAddr_eq m2 m"
proof -
  have valid: "list_all valid_proto ps" and reg: "ma_reg m = Registry_default vi" and enc: "as_ref m = encode_all vi ps"
    using m by (simp_all add: is_addr_def)
  have "MultiAddr_display vi m = Some (Inr (Inr (concat (map write_str ps))))"
    using display_yields [OF yields_encode [OF vi valid, of "encode_all vi ps" "[]"], of "[]"]
    by (simp add: MultiAddr_display_def is_addr_iter [OF m] reg)
  moreover have "try_from_str (concat (map write_str ps)) (Registry_default vi)
      = Some (Inr \<lparr>ma_dat = encode_all vi ps, ma_off = 0, ma_reg = Registry_default vi\<rparr>)"
    using transcode_all_value [OF valid plain, of vi "[]"] by (simp add: try_from_str_def)
  moreover have "try_from_bytes vi (encode_all vi ps) (Registry_default vi)
      = Some (Inr (Inr \<lparr>ma_dat = encode_all vi ps, ma_off = 0, ma_reg = Registry_default vi\<rparr>))"
    using check_all_value [OF vi valid, of "encode_all vi ps" "[]"]
    by (simp add: try_from_bytes_def BytesIter_with_registry_def iter_at_def)
  moreover have "as_ref \<lparr>ma_dat = encode_all vi ps, ma_off = 0, ma_reg = Registry_default vi\<rparr> = as_ref m"
    unfolding enc by (simp add: as_ref_def)
  ultimately show ?thesis by (simp add: enc MultiAddr_eq_def)
qed

theorem multiaddr_roundtrip_witness:
  "\<exists>m. try_from_str ''/tcp/80/node/n1'' (Registry_default sample_varint) = Some (Inr m) \<and> MultiAddr_eq m sample_addr"
proof -
  have "show_nat 80 = ''80''"
    by (simp add: show_nat.simps [of 80] show_nat.simps [of 8] digit_char_def char_of_eq_iff take_bit_eq_mod)
  then have "concat (map write_str [Tcp 80, StrP NodeT ''n1'']) = ''/tcp/80/node/n1''" by (simp add: write_str_eq)
  moreover have "list_all plain_text [Tcp 80, StrP NodeT ''n1'']" by simp
  ultimately show ?thesis
    using multiaddr_roundtrip [OF sample_varint_lawful sample_addr_is] by metis
qed





text \<open>The socket address of an address that starts with an IP address: the port must follow.  Without one
  the code unwraps \<open>None\<close>.\<close>

lemma socket_addr_ip4:
  assumes vi: "varint_lawful vi" and m: "is_addr vi (Ip4 a # ps) m"
  shows "to_socket_addr vi m = Some (case ps of
      Tcp n # _ \<Rightarrow> Inr (Inr (SocketAddrV4_display a (unat n)))
    | _ \<Rightarrow> Inl (Panic ''called `Option::unwrap()` on a `None` value''))"
proof -
  let ?b = "encode_all vi (Ip4 a # ps)" and ?w = "write_bytes vi (Ip4 a)"
  have valid: "valid_proto (Ip4 a)" "list_all valid_proto ps" using m by (simp_all add: is_addr_def)
  have one: "ProtoIter_next vi (iter_at vi ?b 0) = Inr (Some (proto_value (Ip4 a)), iter_at vi ?b (length ?w))"
    using ProtoIter_simps(2) [OF vi valid(1), of ?b "[]" "encode_all vi ps"] by simp
  have two: "ProtoIter_next vi (iter_at vi ?b (length ?w)) = Inr (case ps of [] \<Rightarrow> (None, iter_at vi ?b (length ?b))
      | q # _ \<Rightarrow> (Some (proto_value q), iter_at vi ?b (length (?w @ write_bytes vi q))))"
  proof (cases ps)
    case Nil
    then show ?thesis using ProtoIter_simps(1) [of vi ?b] by simp
  next
    case (Cons q qs)
    then show ?thesis using ProtoIter_simps(2) [OF vi, of q ?b ?w "encode_all vi qs"] valid(2) by simp
  qed
  have ip: "unwrap_cast Ip4T (proto_value (Ip4 a)) = Inr (Ip4 a)"
    using read_bytes_raw [OF valid(1)] by (simp add: unwrap_cast_def cast_def proto_value_def unwrap_def)
  have port: "unwrap_cast TcpT (proto_value q) = (case q of Tcp n \<Rightarrow> Inr (Tcp n)
      | _ \<Rightarrow> Inl (Panic ''called `Option::unwrap()` on a `None` value''))" if "valid_proto q" for q
    using read_bytes_raw [OF that]
    by (cases q) (simp_all add: unwrap_cast_def cast_def proto_value_def unwrap_def del: CODE.simps read_bytes.simps)
  have code: "pv_code (proto_value (Ip4 a)) = CODE Ip4T" "pv_data (proto_value (Ip4 a)) = a"
    by (simp_all add: proto_value_def)
  have "to_socket_addr vi m = Some (case ps of [] \<Rightarrow> Inl (Panic ''called `Option::unwrap()` on a `None` value'')
      | q # _ \<Rightarrow> result_map (\<lambda>port. Inr (SocketAddrV4_display a (tcp_port port))) (unwrap_cast TcpT (proto_value q)))"
    unfolding to_socket_addr_def is_addr_iter [OF m]
    by (subst socket_addr.simps)
      (simp add: one two ip code unwrap_def del: CODE.simps encode_all_simps write_bytes.simps split: list.split)
  then show ?thesis using port valid(2) by (auto split: list.split Proto.split)
qed

end
