(* ===== verification/Identity_History.thy ===== *)
theory Identity_History
  imports Local_Info Vault
begin

text \<open>
  Identities and their change histories (\<open>ockam_identity/src/identity\<close>): the changes a history is
  made of, the lookup of the key a label has now, the order of changes and the comparison of two
  histories, and identity identifiers.

  Hashing and the hex and BARE encodings are third-party code, the fields of \<open>IdentityCodec\<close>.
\<close>

subsection \<open>Key changes\<close>

type_synonym ChangeIdentifier = bytes

datatype SecretPersistence = Ephemeral | Persistent

record SecretAttributesV1 =
  v1_stype :: SecretType
  v1_persistence :: SecretPersistence
  v1_length :: u32

record KeyAttributes =
  ka_label :: string
  ka_secret_attributes :: SecretAttributesV1

definition key_secret_attributes :: "KeyAttributes \<Rightarrow> SecretAttributes" where
  "key_secret_attributes ka = (case v1_stype (ka_secret_attributes ka) of
     BufferType \<Rightarrow> Buffer (v1_length (ka_secret_attributes ka))
   | AesType \<Rightarrow> if v1_length (ka_secret_attributes ka) = AES256_SECRET_LENGTH_U32 then Aes256 else Aes128
   | X25519Type \<Rightarrow> X25519
   | Ed25519Type \<Rightarrow> Ed25519
   | NistP256Type \<Rightarrow> NistP256)"

definition KeyAttributes_new :: "string \<Rightarrow> SecretAttributes \<Rightarrow> KeyAttributes" where
  "KeyAttributes_new label att = \<lparr>ka_label = label, ka_secret_attributes =
     \<lparr>v1_stype = secret_type att, v1_persistence = Persistent, v1_length = attributes_length att\<rparr>\<rparr>"

definition default_with_label :: "string \<Rightarrow> KeyAttributes" where
  "default_with_label label = KeyAttributes_new label Ed25519"

text \<open>\<open>CreateKeyChangeData\<close> and \<open>RotateKeyChangeData\<close> have the same fields.\<close>

record KeyChangeData =
  kc_prev_change_id :: ChangeIdentifier
  kc_key_attributes :: KeyAttributes
  kc_public_key :: PublicKey

datatype IdentityChange = CreateKey KeyChangeData | RotateKey KeyChangeData

fun change_data :: "IdentityChange \<Rightarrow> KeyChangeData" where
  "change_data (CreateKey d) = d"
| "change_data (RotateKey d) = d"

definition change_label :: "IdentityChange \<Rightarrow> string" where
  "change_label ch = ka_label (kc_key_attributes (change_data ch))"

definition change_public_key :: "IdentityChange \<Rightarrow> PublicKey" where
  "change_public_key ch = kc_public_key (change_data ch)"

definition previous_change_identifier :: "IdentityChange \<Rightarrow> ChangeIdentifier" where
  "previous_change_identifier ch = kc_prev_change_id (change_data ch)"

datatype SignatureType = RootSign | SelfSign | PrevSign

record ChangeSignature =
  sig_type :: SignatureType
  sig_data :: bytes

record IdentitySignedChange =
  ch_identifier :: ChangeIdentifier
  ch_change :: IdentityChange
  ch_signatures :: "ChangeSignature list"

definition INITIAL_CHANGE :: bytes where "INITIAL_CHANGE = ''OCKAM_INITIAL_CHANGE''"
definition ROOT_LABEL :: string where "ROOT_LABEL = ''OCKAM_RK''"

subsection \<open>Histories\<close>

type_synonym IdentityChangeHistory = "IdentitySignedChange list"

record IdentityCodec =
  ic_sha256 :: "bytes \<Rightarrow> bytes"
  ic_hex_encode :: "bytes \<Rightarrow> string"
  ic_hex_decode :: "string \<Rightarrow> bytes option"
  ic_encode_change :: "IdentityChange \<Rightarrow> bytes option"
  ic_encode_history :: "IdentityChangeHistory \<Rightarrow> bytes option"
  ic_decode_history :: "bytes \<Rightarrow> IdentityChangeHistory option"

fun follows :: "IdentitySignedChange option \<Rightarrow> IdentitySignedChange list \<Rightarrow> bool" where
  "follows prev_change [] = True"
| "follows prev_change (change # new_changes) =
     ((case prev_change of
         Some prev \<Rightarrow> ch_identifier prev = previous_change_identifier (ch_change change)
       | None \<Rightarrow> True) \<and> follows (Some change) new_changes)"

definition check_consistency :: "IdentitySignedChange list \<Rightarrow> IdentitySignedChange list \<Rightarrow> bool" where
  "check_consistency existing_changes new_changes =
     follows (if existing_changes = [] then None else Some (last existing_changes)) new_changes"

definition check_entire_consistency :: "IdentityChangeHistory \<Rightarrow> error + unit" where
  "check_entire_consistency h =
     (if \<not> check_consistency [] h then Inl (identity_error ConsistencyError) else Inr ())"

definition history_export :: "IdentityCodec \<Rightarrow> IdentityChangeHistory \<Rightarrow> error + bytes" where
  "history_export p h = ok_or (ic_encode_history p h) (identity_error ConsistencyError)"

definition history_import :: "IdentityCodec \<Rightarrow> bytes \<Rightarrow> error + IdentityChangeHistory" where
  "history_import p d =
     result_bind (ok_or (ic_decode_history p d) (identity_error ConsistencyError)) (\<lambda>h.
     result_map (\<lambda>_. h) (check_entire_consistency h))"

definition history_add_change ::
  "IdentityChangeHistory \<Rightarrow> IdentitySignedChange \<Rightarrow> error + IdentityChangeHistory" where
  "history_add_change h change =
     (if \<not> check_consistency h [change] then Inl (identity_error IdentityVerificationFailed)
      else Inr (h @ [change]))"

datatype IdentityHistoryComparison = HistoryEqual | HistoryConflict | HistoryNewer | HistoryOlder

definition history_compare :: "IdentityChangeHistory \<Rightarrow> IdentityChangeHistory \<Rightarrow> IdentityHistoryComparison" where
  "history_compare self known =
     (if list_ex (\<lambda>(a, b). ch_identifier a \<noteq> ch_identifier b) (zip self known) then HistoryConflict
      else if length self < length known then HistoryOlder
      else if length self = length known then HistoryEqual
      else HistoryNewer)"

definition find_last_key_change ::
  "IdentitySignedChange list \<Rightarrow> string \<Rightarrow> error + IdentitySignedChange" where
  "find_last_key_change existing_changes label =
     ok_or (find (\<lambda>e. change_label (ch_change e) = label) (rev existing_changes))
       (identity_error InvalidInternalState)"

definition get_public_key_static :: "IdentitySignedChange list \<Rightarrow> string \<Rightarrow> error + PublicKey" where
  "get_public_key_static changes label =
     result_map (\<lambda>change. change_public_key (ch_change change)) (find_last_key_change changes label)"

definition get_current_root_public_key :: "IdentitySignedChange list \<Rightarrow> error + PublicKey" where
  "get_current_root_public_key existing_changes = get_public_key_static existing_changes ROOT_LABEL"

definition get_first_root_public_key :: "IdentityChangeHistory \<Rightarrow> error + PublicKey" where
  "get_first_root_public_key h = (case h of
     [] \<Rightarrow> Inl (identity_error InvalidInternalState)
   | root_change # _ \<Rightarrow> (case ch_change root_change of
       CreateKey c \<Rightarrow> Inr (kc_public_key c)
     | RotateKey _ \<Rightarrow> Inl (identity_error InvalidInternalState)))"

definition get_last_change_id :: "IdentityChangeHistory \<Rightarrow> error + ChangeIdentifier" where
  "get_last_change_id h =
     (if h = [] then Inl (identity_error InvalidInternalState) else Inr (ch_identifier (last h)))"

subsection \<open>Identities\<close>

record Identity =
  identity_identifier :: IdentityIdentifier
  change_history :: IdentityChangeHistory

definition Identity_new :: "IdentityIdentifier \<Rightarrow> IdentityChangeHistory \<Rightarrow> Identity" where
  "Identity_new i h = \<lparr>identity_identifier = i, change_history = h\<rparr>"

definition Identity_add_change :: "IdentitySignedChange \<Rightarrow> Identity \<Rightarrow> error + Identity" where
  "Identity_add_change change self =
     result_map (\<lambda>h. self\<lparr>change_history := h\<rparr>) (history_add_change (change_history self) change)"

definition Identity_get_public_key :: "Identity \<Rightarrow> string option \<Rightarrow> error + PublicKey" where
  "Identity_get_public_key self key_label = (case key_label of
     Some label \<Rightarrow> get_public_key_static (change_history self) label
   | None \<Rightarrow> get_public_key_static (change_history self) ROOT_LABEL)"

definition Identity_import :: "IdentityCodec \<Rightarrow> IdentityIdentifier \<Rightarrow> bytes \<Rightarrow> error + Identity" where
  "Identity_import p i d = result_map (Identity_new i) (history_import p d)"

definition from_hex :: "string \<Rightarrow> IdentityIdentifier" where
  "from_hex s = ''P'' @ trim s"

definition from_public_key :: "IdentityCodec \<Rightarrow> PublicKey \<Rightarrow> IdentityIdentifier" where
  "from_public_key p pk = from_hex (ic_hex_encode p (ic_sha256 p (data pk)))"

definition IdentityIdentifier_try_from :: "string \<Rightarrow> error + IdentityIdentifier" where
  "IdentityIdentifier_try_from s =
     (if prefix ''P'' (trim s) then Inr (trim s) else Inl (identity_error InvalidIdentityId))"

subsection \<open>The order of changes\<close>

lemma follows_append:
  "follows prev (xs @ [c]) \<longleftrightarrow> follows prev xs \<and>
     (case (if xs = [] then prev else Some (last xs)) of
        Some e \<Rightarrow> ch_identifier e = previous_change_identifier (ch_change c) | None \<Rightarrow> True)"
  by (induction xs arbitrary: prev) auto

lemma check_consistency_snoc:
  "check_consistency [] (h @ [c]) \<longleftrightarrow> check_consistency [] h \<and> check_consistency h [c]"
  by (auto simp: check_consistency_def follows_append)

lemma check_consistency_nth:
  "check_consistency [] h \<longleftrightarrow>
     (\<forall>i. Suc i < length h \<longrightarrow> ch_identifier (h ! i) = previous_change_identifier (ch_change (h ! Suc i)))"
proof (induction h rule: rev_induct)
  case (snoc c h)
  have "check_consistency h [c] \<longleftrightarrow>
      (h \<noteq> [] \<longrightarrow> ch_identifier (last h) = previous_change_identifier (ch_change c))"
    by (simp add: check_consistency_def)
  also have "\<dots> \<longleftrightarrow> (\<forall>i. Suc i = length h \<longrightarrow>
      ch_identifier (h ! i) = previous_change_identifier (ch_change c))"
    by (cases h rule: rev_cases) (auto simp: nth_append)
  finally show ?case
    unfolding check_consistency_snoc snoc.IH by (auto simp: nth_append less_Suc_eq)
qed (simp add: check_consistency_def)

lemma history_export_eq_Inr: "history_export p h = Inr d \<longleftrightarrow> ic_encode_history p h = Some d"
  by (cases "ic_encode_history p h") (simp_all add: history_export_def)

lemma history_import_eq_Inr:
  "history_import p d = Inr h \<longleftrightarrow> ic_decode_history p d = Some h \<and> check_consistency [] h"
  by (cases "ic_decode_history p d") (auto simp: history_import_def check_entire_consistency_def)

subsection \<open>The key of a label\<close>

lemma find_last_key_change_snoc [simp]:
  "find_last_key_change (h @ [c]) label =
     (if change_label (ch_change c) = label then Inr c else find_last_key_change h label)"
  by (simp add: find_last_key_change_def)

lemma find_last_key_change_Nil [simp]: "find_last_key_change [] label = Inl (identity_error InvalidInternalState)"
  by (simp add: find_last_key_change_def)

lemma find_last_key_change_is_ok:
  "is_ok (find_last_key_change h label) \<longleftrightarrow> label \<in> change_label ` ch_change ` set h"
  by (induction h rule: rev_induct) auto

lemma find_last_key_change_err:
  "find_last_key_change h label = Inl e \<Longrightarrow> e = identity_error InvalidInternalState"
  by (induction h rule: rev_induct) (auto split: if_splits)

subsection \<open>Comparison\<close>

text \<open>A comparison says how the lists of change identifiers are related: one of them a strict prefix of
  the other, equal, or neither.\<close>

lemma zip_agree_prefix:
  "length xs \<le> length ys \<Longrightarrow> \<not> list_ex (\<lambda>(a, b). f a \<noteq> f b) (zip xs ys) \<longleftrightarrow> prefix (map f xs) (map f ys)"
proof (induction xs ys rule: list_induct2')
  case (4 x xs y ys)
  then show ?case by auto
qed auto

lemma zip_agree_swap:
  "list_ex (\<lambda>(a, b). f a \<noteq> f b) (zip xs ys) \<longleftrightarrow> list_ex (\<lambda>(a, b). f a \<noteq> f b) (zip ys xs)"
  by (induction xs ys rule: list_induct2') auto

lemma history_compare_cases:
  "history_compare self known =
     (let a = map ch_identifier self; b = map ch_identifier known in
      if a = b then HistoryEqual else if strict_prefix b a then HistoryNewer
      else if strict_prefix a b then HistoryOlder else HistoryConflict)"
proof -
  let ?a = "map ch_identifier self" and ?b = "map ch_identifier known"
  let ?diff = "list_ex (\<lambda>(a, b). ch_identifier a \<noteq> ch_identifier b) (zip self known)"
  have le: "\<not> ?diff \<longleftrightarrow> prefix ?a ?b" if "length self \<le> length known"
    using zip_agree_prefix [OF that] .
  have ge: "\<not> ?diff \<longleftrightarrow> prefix ?b ?a" if "length known \<le> length self"
    using zip_agree_prefix [OF that, of ch_identifier] zip_agree_swap [of ch_identifier self known] by simp
  have len: "prefix ?a ?b \<Longrightarrow> length self \<le> length known" "prefix ?b ?a \<Longrightarrow> length known \<le> length self"
    using prefix_length_le [of ?a ?b] prefix_length_le [of ?b ?a] by simp_all
  have eq: "prefix ?a ?b \<Longrightarrow> length self = length known \<Longrightarrow> ?a = ?b"
    by (metis length_map not_equal_is_parallel parallel_def)
  consider "length self < length known" | "length self = length known" | "length known < length self"
    by linarith
  then show ?thesis
  proof cases
    case 1
    then show ?thesis using le ge len by (auto simp: history_compare_def Let_def strict_prefix_def)
  next
    case 2
    then show ?thesis using le ge len eq by (auto simp: history_compare_def Let_def strict_prefix_def)
  next
    case 3
    then show ?thesis using le ge len by (auto simp: history_compare_def Let_def strict_prefix_def)
  qed
qed

lemma history_compare_refl [simp]: "history_compare h h = HistoryEqual"
  by (simp add: history_compare_cases)

lemma history_compare_snoc: "history_compare (h @ [c]) h = HistoryNewer"
  by (simp add: history_compare_cases Let_def strict_prefix_def)

subsection \<open>Identifiers\<close>

lemma trim_end_idem: "trim_end (trim_end s) = trim_end s"
proof (induction s rule: trim_end.induct)
  case (1 s)
  show ?case
  proof (cases "find (\<lambda>w. suffix w s) whitespace_seqs")
    case None
    then have "trim_end s = s" by (subst trim_end.simps) simp
    then show ?thesis by simp
  next
    case (Some w)
    then have "w \<noteq> []" using find_space whitespace_seqs_not_Nil by blast
    moreover from this have "trim_end s = trim_end (take (length s - length w) s)"
      using Some by (subst trim_end.simps) simp
    ultimately show ?thesis using 1 [OF Some] by simp
  qed
qed

lemma trim_from_hex: "trim (from_hex s) = from_hex s"
proof -
  have P: "in_range 33 127 CHR ''P''" by (simp add: in_range_def)
  have "\<forall>w \<in> set whitespace_seqs. \<not> suffix w (trim s)"
    using trim_end_idem by (simp add: trim_def flip: trim_end_id_iff)
  then have "\<forall>w \<in> set whitespace_seqs. \<not> suffix w (CHR ''P'' # trim s)"
    using whitespace_not_printable [OF _ P] by (fastforce simp: suffix_Cons)
  then have "trim_end (CHR ''P'' # trim s) = CHR ''P'' # trim s" by (simp add: trim_end_id_iff)
  then show ?thesis using trim_start_id [OF P] by (simp add: from_hex_def trim_def [of "CHR ''P'' # _"])
qed

lemma IdentityIdentifier_roundtrip: "IdentityIdentifier_try_from (from_hex s) = Inr (from_hex s)"
  unfolding IdentityIdentifier_try_from_def trim_from_hex by (simp add: from_hex_def)

end
