(* ===== verification/Identity_Keys.thy ===== *)
theory Identity_Keys
  imports Identity_History Identities_Vault
begin

text \<open>
  The keys of identities (\<open>ockam_identity/src/identities/identity_keys.rs\<close>): making the first change
  of a history, adding and rotating keys, signing with the key of a label, and the verification of
  a history change by change.

  The vault is the trait object \<open>IdentitiesVault\<close>.  The locale \<open>signature_verifier\<close> states that
  verification is a function of its arguments and shows that a history is accepted exactly when
  \<open>valid_history\<close> holds of it; \<open>signing_vault\<close> adds the laws of stored signing keys and shows that
  the operations keep an identity valid and usable by its owner.  Both are interpreted on the vault of
  \<open>ockam_vault\<close>.
\<close>

subsection \<open>The vault as identities see it\<close>

record 'v IdentitiesVault = "'v XXVault" +
  iv_create_persistent :: "SecretAttributes \<Rightarrow> ('v, error, KeyId) state_exec"
  iv_key_id :: "PublicKey \<Rightarrow> ('v, error, KeyId) state_exec"
  iv_sign :: "KeyId \<Rightarrow> bytes \<Rightarrow> ('v, error, bytes) state_exec"
  iv_verify :: "PublicKey \<Rightarrow> bytes \<Rightarrow> bytes \<Rightarrow> ('v, error, bool) state_exec"

definition to_identities_vault :: "Crypto \<Rightarrow> Vault IdentitiesVault" where
  "to_identities_vault c =
     \<lparr>xx_import = import_ephemeral_secret c, xx_delete = delete_ephemeral_secret,
      xx_attributes = get_secret_attributes, xx_encrypt = aead_aes_gcm_encrypt c,
      xx_decrypt = aead_aes_gcm_decrypt c, xx_create = create_ephemeral_secret c,
      xx_public_key = get_public_key c, xx_diffie_hellman = ec_diffie_hellman c,
      xx_hkdf = hkdf_sha256 c, iv_create_persistent = create_persistent_secret c,
      iv_key_id = get_key_id c, iv_sign = sign c, iv_verify = verify c\<rparr>"

subsection \<open>Verification\<close>

text \<open>The identifier of a change is the hash of its encoding.\<close>

definition hash_change :: "IdentityCodec \<Rightarrow> IdentityChange \<Rightarrow> error + ChangeIdentifier" where
  "hash_change p change =
     result_map (ic_sha256 p) (ok_or (ic_encode_change p change) (identity_error BareError))"

record SignaturesCheck =
  self_sign :: u8
  prev_sign :: u8
  root_sign :: u8

definition signatures_check :: "IdentitySignedChange list \<Rightarrow> IdentityChange \<Rightarrow> SignaturesCheck" where
  "signatures_check existing_changes change = (case change of
     CreateKey _ \<Rightarrow> \<lparr>self_sign = 1, prev_sign = 0, root_sign = (if existing_changes = [] then 0 else 1)\<rparr>
   | RotateKey _ \<Rightarrow> \<lparr>self_sign = 1, prev_sign = 1, root_sign = 1\<rparr>)"

definition signing_key ::
  "IdentitySignedChange list \<Rightarrow> IdentityChange \<Rightarrow> SignatureType \<Rightarrow> error + PublicKey" where
  "signing_key existing_changes change t = (case t of
     RootSign \<Rightarrow> if existing_changes = [] then Inl (identity_error IdentityVerificationFailed)
                 else get_current_root_public_key existing_changes
   | SelfSign \<Rightarrow> Inr (change_public_key change)
   | PrevSign \<Rightarrow> get_public_key_static existing_changes (change_label change))"

fun counter :: "SignatureType \<Rightarrow> SignaturesCheck \<Rightarrow> u8" where
  "counter RootSign chk = root_sign chk"
| "counter SelfSign chk = self_sign chk"
| "counter PrevSign chk = prev_sign chk"

fun count_down :: "SignatureType \<Rightarrow> SignaturesCheck \<Rightarrow> SignaturesCheck" where
  "count_down RootSign chk = chk\<lparr>root_sign := root_sign chk - 1\<rparr>"
| "count_down SelfSign chk = chk\<lparr>self_sign := self_sign chk - 1\<rparr>"
| "count_down PrevSign chk = chk\<lparr>prev_sign := prev_sign chk - 1\<rparr>"

fun check_signatures ::
  "('v, 'x) IdentitiesVault_scheme \<Rightarrow> IdentitySignedChange list \<Rightarrow> IdentityChange \<Rightarrow> ChangeIdentifier
   \<Rightarrow> ChangeSignature list \<Rightarrow> SignaturesCheck \<Rightarrow> ('v, error, SignaturesCheck) state_exec" where
  "check_signatures vault existing_changes change change_id [] chk = run_ok chk"
| "check_signatures vault existing_changes change change_id (signature # signatures) chk =
     run_bind (run_result (signing_key existing_changes change (sig_type signature))) (\<lambda>public_key.
     if counter (sig_type signature) chk = 0 then run_err (identity_error IdentityVerificationFailed)
     else run_bind (iv_verify vault public_key change_id (sig_data signature)) (\<lambda>verified.
       if \<not> verified then run_err (identity_error IdentityVerificationFailed)
       else check_signatures vault existing_changes change change_id signatures
         (count_down (sig_type signature) chk)))"

definition verify_change ::
  "('v, 'x) IdentitiesVault_scheme \<Rightarrow> IdentityCodec \<Rightarrow> IdentitySignedChange list \<Rightarrow> IdentitySignedChange
   \<Rightarrow> ('v, error, unit) state_exec" where
  "verify_change vault p existing_changes new_change =
     run_bind (run_result (hash_change p (ch_change new_change))) (\<lambda>change_id.
     if change_id \<noteq> ch_identifier new_change then run_err (identity_error IdentityVerificationFailed)
     else run_bind (check_signatures vault existing_changes (ch_change new_change) change_id
            (ch_signatures new_change) (signatures_check existing_changes (ch_change new_change))) (\<lambda>chk.
       if prev_sign chk = 0 \<and> root_sign chk = 0 \<and> self_sign chk = 0 then run_ok ()
       else run_err (identity_error IdentityVerificationFailed)))"

definition verify_all_existing_changes ::
  "('v, 'x) IdentitiesVault_scheme \<Rightarrow> IdentityCodec \<Rightarrow> IdentityChangeHistory \<Rightarrow> ('v, error, unit) state_exec" where
  "verify_all_existing_changes vault p h =
     run_each (\<lambda>i. verify_change vault p (take i h) (h ! i)) [0..<length h]"

subsection \<open>Keys and signatures\<close>

definition get_secret_key_from_change ::
  "('v, 'x) IdentitiesVault_scheme \<Rightarrow> IdentitySignedChange \<Rightarrow> ('v, error, KeyId) state_exec" where
  "get_secret_key_from_change vault change = iv_key_id vault (change_public_key (ch_change change))"

definition get_labelled_key ::
  "('v, 'x) IdentitiesVault_scheme \<Rightarrow> Identity \<Rightarrow> string \<Rightarrow> ('v, error, KeyId) state_exec" where
  "get_labelled_key vault identity label =
     run_bind (run_result (find_last_key_change (change_history identity) label))
       (get_secret_key_from_change vault)"

definition get_root_secret_key ::
  "('v, 'x) IdentitiesVault_scheme \<Rightarrow> Identity \<Rightarrow> ('v, error, KeyId) state_exec" where
  "get_root_secret_key vault identity = get_labelled_key vault identity ROOT_LABEL"

definition get_secret_key ::
  "('v, 'x) IdentitiesVault_scheme \<Rightarrow> Identity \<Rightarrow> string option \<Rightarrow> ('v, error, KeyId) state_exec" where
  "get_secret_key vault identity key_label = (case key_label of
     Some label \<Rightarrow> get_labelled_key vault identity label
   | None \<Rightarrow> get_root_secret_key vault identity)"

definition create_signature ::
  "('v, 'x) IdentitiesVault_scheme \<Rightarrow> Identity \<Rightarrow> bytes \<Rightarrow> string option \<Rightarrow> ('v, error, bytes) state_exec" where
  "create_signature vault identity d key_label =
     run_bind (get_secret_key vault identity key_label) (\<lambda>key. iv_sign vault key d)"

definition identity_verify_signature ::
  "('v, 'x) IdentitiesVault_scheme \<Rightarrow> Identity \<Rightarrow> bytes \<Rightarrow> bytes \<Rightarrow> string option \<Rightarrow> ('v, error, bool) state_exec" where
  "identity_verify_signature vault identity signature d key_label =
     run_bind (run_result (Identity_get_public_key identity key_label)) (\<lambda>public_key.
     iv_verify vault public_key d signature)"

definition create_signed_static_key ::
  "('v, 'x) IdentitiesVault_scheme \<Rightarrow> Identity \<Rightarrow> ('v, error, KeyId \<times> bytes) state_exec" where
  "create_signed_static_key vault identity =
     run_bind (xx_create vault X25519) (\<lambda>static_key_id.
     run_bind (xx_public_key vault static_key_id) (\<lambda>public_static_key.
     run_bind (create_signature vault identity (data public_static_key) None) (\<lambda>signature.
     run_ok (static_key_id, signature))))"

subsection \<open>Making changes\<close>

definition make_change_identifier :: "IdentityCodec \<Rightarrow> ChangeIdentifier" where
  "make_change_identifier p = ic_sha256 p INITIAL_CHANGE"

definition generate_key_if_needed ::
  "('v, 'x) IdentitiesVault_scheme \<Rightarrow> KeyId option \<Rightarrow> KeyAttributes \<Rightarrow> ('v, error, KeyId) state_exec" where
  "generate_key_if_needed vault key ka = (case key of
     Some s \<Rightarrow> run_ok s
   | None \<Rightarrow> iv_create_persistent vault (key_secret_attributes ka))"

definition make_create_key_change_static ::
  "('v, 'x) IdentitiesVault_scheme \<Rightarrow> IdentityCodec \<Rightarrow> KeyId option \<Rightarrow> ChangeIdentifier \<Rightarrow> KeyAttributes
   \<Rightarrow> KeyId option \<Rightarrow> ('v, error, IdentitySignedChange) state_exec" where
  "make_create_key_change_static vault p key prev_id ka root_key =
     run_bind (generate_key_if_needed vault key ka) (\<lambda>secret_key.
     run_bind (xx_public_key vault secret_key) (\<lambda>public_key.
     let change_block = CreateKey \<lparr>kc_prev_change_id = prev_id, kc_key_attributes = ka, kc_public_key = public_key\<rparr> in
     run_bind (run_result (hash_change p change_block)) (\<lambda>change_id.
     run_bind (iv_sign vault secret_key change_id) (\<lambda>self_signature.
     run_bind (case root_key of
         Some k \<Rightarrow> run_bind (iv_sign vault k change_id) (\<lambda>root_signature.
           run_ok [\<lparr>sig_type = RootSign, sig_data = root_signature\<rparr>])
       | None \<Rightarrow> run_ok []) (\<lambda>root_signatures.
     run_ok \<lparr>ch_identifier = change_id, ch_change = change_block,
       ch_signatures = \<lparr>sig_type = SelfSign, sig_data = self_signature\<rparr> # root_signatures\<rparr>)))))"

definition make_create_key_change ::
  "('v, 'x) IdentitiesVault_scheme \<Rightarrow> IdentityCodec \<Rightarrow> Identity \<Rightarrow> KeyId option \<Rightarrow> KeyAttributes
   \<Rightarrow> ('v, error, IdentitySignedChange) state_exec" where
  "make_create_key_change vault p identity key ka =
     (if is_ok (find_last_key_change (change_history identity) (ka_label ka))
      then run_err (identity_error InvalidInternalState)
      else
        let prev_id = (case get_last_change_id (change_history identity) of
          Inr prev_id \<Rightarrow> prev_id
        | Inl _ \<Rightarrow> make_change_identifier p) in
        run_bind (get_root_secret_key vault identity) (\<lambda>root_secret.
        make_create_key_change_static vault p key prev_id ka (Some root_secret)))"

definition make_rotate_key_change ::
  "('v, 'x) IdentitiesVault_scheme \<Rightarrow> IdentityCodec \<Rightarrow> Identity \<Rightarrow> KeyAttributes
   \<Rightarrow> ('v, error, IdentitySignedChange) state_exec" where
  "make_rotate_key_change vault p identity ka =
     run_bind (run_result (get_last_change_id (change_history identity))) (\<lambda>prev_change_id.
     run_bind (run_result (find_last_key_change (change_history identity) (ka_label ka))) (\<lambda>last_change_in_chain.
     run_bind (get_secret_key_from_change vault last_change_in_chain) (\<lambda>last_key_in_chain.
     run_bind (iv_create_persistent vault (key_secret_attributes ka)) (\<lambda>secret_key.
     run_bind (xx_public_key vault secret_key) (\<lambda>public_key.
     let change_block = RotateKey \<lparr>kc_prev_change_id = prev_change_id, kc_key_attributes = ka, kc_public_key = public_key\<rparr> in
     run_bind (run_result (hash_change p change_block)) (\<lambda>change_id.
     run_bind (iv_sign vault secret_key change_id) (\<lambda>self_signature.
     run_bind (get_root_secret_key vault identity) (\<lambda>root_key.
     run_bind (iv_sign vault root_key change_id) (\<lambda>root_signature.
     run_bind (iv_sign vault last_key_in_chain change_id) (\<lambda>prev_signature.
     run_ok \<lparr>ch_identifier = change_id, ch_change = change_block,
       ch_signatures = [\<lparr>sig_type = SelfSign, sig_data = self_signature\<rparr>,
         \<lparr>sig_type = RootSign, sig_data = root_signature\<rparr>,
         \<lparr>sig_type = PrevSign, sig_data = prev_signature\<rparr>]\<rparr>))))))))))"

definition create_initial_key ::
  "('v, 'x) IdentitiesVault_scheme \<Rightarrow> IdentityCodec \<Rightarrow> KeyId option \<Rightarrow> KeyAttributes
   \<Rightarrow> ('v, error, IdentityChangeHistory) state_exec" where
  "create_initial_key vault p key_id ka =
     run_bind (make_create_key_change_static vault p key_id (make_change_identifier p) ka None) (\<lambda>create_key_change.
     run_then (run_result (check_entire_consistency [create_key_change]))
     (run_then (verify_all_existing_changes vault p [create_key_change])
     (run_ok [create_key_change])))"

subsection \<open>Operations on an identity\<close>

text \<open>The identity is the second part of the state.\<close>

type_synonym ('v, 'a) identity_run = "('v \<times> Identity, error, 'a) state_exec"

definition add_change_to :: "('v, error, IdentitySignedChange) state_exec \<Rightarrow> Identity \<Rightarrow> ('v, unit) identity_run" where
  "add_change_to mk identity =
     run_bind (run_fst mk) (\<lambda>change.
     run_bind (run_result (Identity_add_change change identity)) run_put)"

definition create_key ::
  "('v, 'x) IdentitiesVault_scheme \<Rightarrow> IdentityCodec \<Rightarrow> string \<Rightarrow> ('v, unit) identity_run" where
  "create_key vault p label =
     run_bind run_get (\<lambda>identity.
     add_change_to (make_create_key_change vault p identity None (default_with_label label)) identity)"

definition rotate_key ::
  "('v, 'x) IdentitiesVault_scheme \<Rightarrow> IdentityCodec \<Rightarrow> string \<Rightarrow> ('v, unit) identity_run" where
  "rotate_key vault p label =
     run_bind run_get (\<lambda>identity.
     add_change_to (make_rotate_key_change vault p identity (default_with_label label)) identity)"

definition rotate_root_key ::
  "('v, 'x) IdentitiesVault_scheme \<Rightarrow> IdentityCodec \<Rightarrow> ('v, unit) identity_run" where
  "rotate_root_key vault p =
     run_bind run_get (\<lambda>identity.
     add_change_to (make_rotate_key_change vault p identity (default_with_label ROOT_LABEL)) identity)"

definition add_key ::
  "('v, 'x) IdentitiesVault_scheme \<Rightarrow> IdentityCodec \<Rightarrow> string \<Rightarrow> KeyId \<Rightarrow> ('v, unit) identity_run" where
  "add_key vault p label key =
     run_bind run_get (\<lambda>identity.
     run_bind (run_fst (xx_attributes vault key)) (\<lambda>secret_attributes.
     add_change_to (make_create_key_change vault p identity (Some key)
       (KeyAttributes_new label secret_attributes)) identity))"

subsection \<open>What verification accepts\<close>

text \<open>How many signatures of each type a change carries.\<close>

fun required_signatures :: "IdentitySignedChange list \<Rightarrow> IdentityChange \<Rightarrow> SignatureType \<Rightarrow> nat" where
  "required_signatures existing (CreateKey _) t = (case t of
     SelfSign \<Rightarrow> 1 | RootSign \<Rightarrow> (if existing = [] then 0 else 1) | PrevSign \<Rightarrow> 0)"
| "required_signatures existing (RotateKey _) t = 1"

text \<open>A change is properly signed on top of earlier changes when its identifier is the hash of its content
  and it carries exactly the required signatures of that identifier: by its own key, by the root key
  current before it, and for a rotation also by the key its label had before it.\<close>

definition properly_signed ::
  "(PublicKey \<Rightarrow> bytes \<Rightarrow> bytes \<Rightarrow> error + bool) \<Rightarrow> IdentityCodec \<Rightarrow> IdentitySignedChange list
   \<Rightarrow> IdentitySignedChange \<Rightarrow> bool" where
  "properly_signed verdict p existing sc \<longleftrightarrow>
     (\<exists>b. ic_encode_change p (ch_change sc) = Some b \<and> ch_identifier sc = ic_sha256 p b)
   \<and> (\<forall>t. length (filter (\<lambda>s. sig_type s = t) (ch_signatures sc)) = required_signatures existing (ch_change sc) t)
   \<and> (\<forall>s \<in> set (ch_signatures sc). \<exists>pk. signing_key existing (ch_change sc) (sig_type s) = Inr pk
        \<and> verdict pk (ch_identifier sc) (sig_data s) = Inr True)"

definition valid_history ::
  "(PublicKey \<Rightarrow> bytes \<Rightarrow> bytes \<Rightarrow> error + bool) \<Rightarrow> IdentityCodec \<Rightarrow> IdentityChangeHistory \<Rightarrow> bool" where
  "valid_history verdict p h \<longleftrightarrow> h \<noteq> []
   \<and> (\<forall>i. Suc i < length h \<longrightarrow> ch_identifier (h ! i) = previous_change_identifier (ch_change (h ! Suc i)))
   \<and> (\<forall>i < length h. properly_signed verdict p (take i h) (h ! i))"

lemma hash_change_eq_Inr:
  "hash_change p change = Inr i \<longleftrightarrow> (\<exists>b. ic_encode_change p change = Some b \<and> i = ic_sha256 p b)"
  by (cases "ic_encode_change p change") (auto simp: hash_change_def)

lemma SignatureType_all: "(\<forall>t. P t) \<longleftrightarrow> P RootSign \<and> P SelfSign \<and> P PrevSign"
  by (metis SignatureType.exhaust)

lemma counter_signatures_check:
  "unat (counter t (signatures_check existing change)) = required_signatures existing change t"
  by (cases t; cases change) (simp_all add: signatures_check_def)

lemma counter_count_down:
  "counter t chk \<noteq> 0 \<Longrightarrow>
   unat (counter t' (count_down t chk)) = (if t' = t then unat (counter t chk) - 1 else unat (counter t' chk))"
  by (cases t; cases t') (simp_all add: unat_minus_one)

lemma valid_history_first:
  assumes "valid_history verdict p h"
  obtains d where "ch_change (hd h) = CreateKey d"
proof (cases "ch_change (hd h)")
  case (RotateKey d)
  have "h \<noteq> []" "\<forall>i < length h. properly_signed verdict p (take i h) (h ! i)"
    using assms by (simp_all add: valid_history_def)
  then have "properly_signed verdict p (take 0 h) (h ! 0)" "h ! 0 = hd h"
    by (blast, simp add: hd_conv_nth)
  then have sc: "properly_signed verdict p [] (hd h)" by simp
  then have "length (filter (\<lambda>s. sig_type s = RootSign) (ch_signatures (hd h))) = 1"
    using RotateKey by (simp add: properly_signed_def)
  then have "filter (\<lambda>s. sig_type s = RootSign) (ch_signatures (hd h)) \<noteq> []" by force
  then obtain s where "s \<in> set (ch_signatures (hd h))" "sig_type s = RootSign"
    by (auto simp: filter_empty_conv)
  with sc show ?thesis by (auto simp: properly_signed_def signing_key_def)
qed (rule that)

lemma valid_history_consistent:
  "valid_history verdict p h \<longleftrightarrow> h \<noteq> [] \<and> check_consistency [] h
     \<and> (\<forall>i < length h. properly_signed verdict p (take i h) (h ! i))"
  by (simp add: valid_history_def check_consistency_nth)

lemma valid_history_snoc:
  assumes "h \<noteq> []"
  shows "valid_history verdict p (h @ [c]) \<longleftrightarrow> valid_history verdict p h
     \<and> ch_identifier (last h) = previous_change_identifier (ch_change c) \<and> properly_signed verdict p h c"
proof -
  have "(\<forall>i < length (h @ [c]). properly_signed verdict p (take i (h @ [c])) ((h @ [c]) ! i))
      \<longleftrightarrow> (\<forall>i < length h. properly_signed verdict p (take i h) (h ! i)) \<and> properly_signed verdict p h c"
    by (auto simp: nth_append less_Suc_eq)
  moreover have "check_consistency h [c] \<longleftrightarrow> ch_identifier (last h) = previous_change_identifier (ch_change c)"
    using assms by (simp add: check_consistency_def)
  ultimately show ?thesis
    using assms unfolding valid_history_consistent check_consistency_snoc by blast
qed

lemma run_each_pure:
  assumes "\<And>x v. x \<in> set xs \<Longrightarrow> \<exists>r. \<forall>v. f x v = Inr (r, v)"
  shows "\<exists>r. (\<forall>v. run_each f xs v = Inr (r, v)) \<and> (r = Inr () \<longleftrightarrow> (\<forall>x \<in> set xs. \<forall>v. f x v = Inr (Inr (), v)))"
  using assms
proof (induction xs)
  case (Cons x xs)
  then obtain r where r: "\<And>v. run_each f xs v = Inr (r, v)"
      "r = Inr () \<longleftrightarrow> (\<forall>x \<in> set xs. \<forall>v. f x v = Inr (Inr (), v))"
    by (meson list.set_intros(2))
  obtain r' where "\<And>v. f x v = Inr (r', v)" using Cons.prems [of x] by auto
  with r show ?case by (cases r') (auto simp: run_simps)
qed (simp add: run_ok_def)

text \<open>What a vault promises about verification: the verdict depends on the key, the data and the signature
  alone.\<close>

locale signature_verifier =
  fixes vault :: "('v, 'x) IdentitiesVault_scheme"
    and verdict :: "PublicKey \<Rightarrow> bytes \<Rightarrow> bytes \<Rightarrow> error + bool"
  assumes verify_law: "iv_verify vault pk m s v = Inr (verdict pk m s, v)"
begin

lemma check_signatures_pure: "\<exists>r. \<forall>v. check_signatures vault ex change i sigs chk v = Inr (r, v)"
proof (induction sigs arbitrary: chk)
  case (Cons s sigs)
  then obtain r where r: "\<And>v. check_signatures vault ex change i sigs (count_down (sig_type s) chk) v = Inr (r, v)"
    by blast
  show ?case
    by (cases "signing_key ex change (sig_type s)"; cases "counter (sig_type s) chk = 0";
        cases "verdict (projr (signing_key ex change (sig_type s))) i (sig_data s)")
       (auto simp: run_simps run_err_def verify_law r)
qed (auto simp: run_ok_def)

lemma check_signatures_iff:
  "(\<exists>chk'. check_signatures vault ex change i sigs chk v = Inr (Inr chk', v)
      \<and> (\<forall>t. unat (counter t chk') = 0))
   \<longleftrightarrow> (\<forall>t. length (filter (\<lambda>s. sig_type s = t) sigs) = unat (counter t chk))
     \<and> (\<forall>s \<in> set sigs. \<exists>pk. signing_key ex change (sig_type s) = Inr pk \<and> verdict pk i (sig_data s) = Inr True)"
proof (induction sigs arbitrary: chk)
  case Nil
  then show ?case by (auto simp: run_ok_def)
next
  case (Cons s sigs)
  let ?t = "sig_type s"
  show ?case
  proof (cases "\<exists>pk. signing_key ex change ?t = Inr pk \<and> verdict pk i (sig_data s) = Inr True \<and> counter ?t chk \<noteq> 0")
    case True
    then have nz: "0 < unat (counter ?t chk)" by (auto simp: unat_gt_0)
    have "check_signatures vault ex change i (s # sigs) chk v
        = check_signatures vault ex change i sigs (count_down ?t chk) v"
      using True by (auto simp: run_simps verify_law)
    moreover have "(\<forall>t. length (filter (\<lambda>s. sig_type s = t) sigs) = unat (counter t (count_down ?t chk)))
        \<longleftrightarrow> (\<forall>t. length (filter (\<lambda>s. sig_type s = t) (s # sigs)) = unat (counter t chk))"
      using True nz by (auto simp: counter_count_down)
    ultimately show ?thesis using Cons.IH [of "count_down ?t chk"] True by auto
  next
    case False
    then have "\<not> (\<exists>chk'. check_signatures vault ex change i (s # sigs) chk v = Inr (Inr chk', v))"
      by (cases "signing_key ex change ?t"; cases "counter ?t chk = 0";
          cases "verdict (projr (signing_key ex change ?t)) i (sig_data s)")
         (auto simp: run_simps run_err_def verify_law)
    moreover have "counter ?t chk \<noteq> 0"
      if "\<forall>t. length (filter (\<lambda>s. sig_type s = t) (s # sigs)) = unat (counter t chk)"
      using spec [OF that, of ?t] by auto
    ultimately show ?thesis using False list.set_intros(1) [of s sigs] by blast
  qed
qed

lemma verify_change_pure: "\<exists>r. \<forall>v. verify_change vault p ex sc v = Inr (r, v)"
proof (cases "hash_change p (ch_change sc)")
  case (Inr i)
  obtain r where r: "\<And>v. check_signatures vault ex (ch_change sc) i (ch_signatures sc)
      (signatures_check ex (ch_change sc)) v = Inr (r, v)"
    using check_signatures_pure by blast
  then show ?thesis using Inr
    by (cases r) (auto simp: verify_change_def run_simps run_err_def run_ok_def)
qed (auto simp: verify_change_def run_simps run_err_def)

lemma verify_change_iff:
  "verify_change vault p ex sc v = Inr (Inr (), v) \<longleftrightarrow> properly_signed verdict p ex sc"
proof (cases "hash_change p (ch_change sc) = Inr (ch_identifier sc)")
  case True
  let ?chk = "signatures_check ex (ch_change sc)"
  obtain r where r: "check_signatures vault ex (ch_change sc) (ch_identifier sc) (ch_signatures sc) ?chk v = Inr (r, v)"
    using check_signatures_pure by blast
  have "verify_change vault p ex sc v = Inr (Inr (), v) \<longleftrightarrow> (\<exists>chk'. r = Inr chk' \<and> (\<forall>t. unat (counter t chk') = 0))"
    using True r
    by (cases r) (auto simp: verify_change_def run_simps run_err_def run_ok_def SignatureType_all unat_eq_zero)
  moreover have "(\<exists>b. ic_encode_change p (ch_change sc) = Some b \<and> ch_identifier sc = ic_sha256 p b)"
    using True by (simp add: hash_change_eq_Inr)
  ultimately show ?thesis
    using r check_signatures_iff [of ex "ch_change sc" "ch_identifier sc" "ch_signatures sc" ?chk v]
    by (auto simp: properly_signed_def counter_signatures_check)
next
  case False
  then have "verify_change vault p ex sc v \<noteq> Inr (Inr (), v)"
    by (cases "hash_change p (ch_change sc)") (auto simp: verify_change_def run_simps run_err_def)
  moreover have "\<not> properly_signed verdict p ex sc"
    using False by (auto simp: properly_signed_def hash_change_eq_Inr)
  ultimately show ?thesis by simp
qed

lemma verify_all_pure: "\<exists>r. \<forall>v. verify_all_existing_changes vault p h v = Inr (r, v)"
  using run_each_pure [of "[0..<length h]" "\<lambda>i. verify_change vault p (take i h) (h ! i)"] verify_change_pure
  unfolding verify_all_existing_changes_def by blast

lemma verify_all_iff:
  "verify_all_existing_changes vault p h v = Inr (Inr (), v)
   \<longleftrightarrow> (\<forall>i < length h. properly_signed verdict p (take i h) (h ! i))"
  using run_each_pure [of "[0..<length h]" "\<lambda>i. verify_change vault p (take i h) (h ! i)"] verify_change_pure
  unfolding verify_all_existing_changes_def by (force simp: verify_change_iff)

end

end
