(* ===== verification/Identity_Owner.thy ===== *)
theory Identity_Owner
  imports Identity_Keys
begin

text \<open>
  What the owner of an identity can rely on: with the signing keys in the vault, adding and rotating
  keys succeed on the labels they should, keep the history valid and the keys usable, and signatures
  made with the identity verify.  The client lemmas rest on the laws of the locale \<open>signing_vault\<close>,
  which is interpreted on the vault of \<open>ockam_vault\<close>.
\<close>

subsection \<open>Interface\<close>

text \<open>\<open>holds v k\<close> is the public key of the signing key stored under \<open>k\<close>, and \<open>ready b v\<close> a vault that can
  create \<open>b\<close> more keys under unused identifiers.\<close>

locale signing_vault = signature_verifier vault verdict
  for vault :: "('v, 'x) IdentitiesVault_scheme" and verdict +
  fixes holds :: "'v \<Rightarrow> KeyId \<Rightarrow> PublicKey option"
    and ready :: "nat \<Rightarrow> 'v \<Rightarrow> bool"
  assumes ready_less: "ready (Suc b) v \<Longrightarrow> ready b v"
    and create_key_law: "ready (Suc b) v \<Longrightarrow> \<exists>k pk v'. iv_create_persistent vault Ed25519 v = Inr (Inr k, v')
        \<and> ready b v' \<and> holds v k = None \<and> holds v' = (holds v)(k \<mapsto> pk)"
    and public_key_law: "holds v k = Some pk \<Longrightarrow> xx_public_key vault k v = Inr (Inr pk, v)"
    and key_attributes_law: "holds v k = Some pk \<Longrightarrow> xx_attributes vault k v = Inr (Inr Ed25519, v)"
    and key_id_law: "holds v k = Some pk \<Longrightarrow> iv_key_id vault pk v = Inr (Inr k, v)"
    and sign_law: "ready b v \<Longrightarrow> holds v k = Some pk \<Longrightarrow>
        \<exists>s. iv_sign vault k m v = Inr (Inr s, v) \<and> verdict pk m s = Inr True"

text \<open>The current key of every label is in the vault, and there is a root key.\<close>

definition usable :: "(KeyId \<Rightarrow> PublicKey option) \<Rightarrow> IdentityChangeHistory \<Rightarrow> bool" where
  "usable held h \<longleftrightarrow> is_ok (find_last_key_change h ROOT_LABEL)
   \<and> (\<forall>label sc. find_last_key_change h label = Inr sc \<longrightarrow> (\<exists>k. held k = Some (change_public_key (ch_change sc))))"

definition owned ::
  "(PublicKey \<Rightarrow> bytes \<Rightarrow> bytes \<Rightarrow> error + bool) \<Rightarrow> IdentityCodec \<Rightarrow> (KeyId \<Rightarrow> PublicKey option) \<Rightarrow> Identity \<Rightarrow> bool" where
  "owned verdict p held identity \<longleftrightarrow> valid_history verdict p (change_history identity)
   \<and> usable held (change_history identity)
   \<and> identity_identifier identity = from_public_key p (change_public_key (ch_change (hd (change_history identity))))"

text \<open>The BARE encoding of a change never fails, and histories can be read back.\<close>

definition codec_lawful :: "IdentityCodec \<Rightarrow> bool" where
  "codec_lawful p \<longleftrightarrow> (\<forall>ch. ic_encode_change p ch \<noteq> None)
   \<and> (\<forall>h. \<exists>d. ic_encode_history p h = Some d \<and> ic_decode_history p d = Some h)"

lemma hash_change_lawful: "codec_lawful p \<Longrightarrow> \<exists>i. hash_change p ch = Inr i"
  by (auto simp: codec_lawful_def hash_change_eq_Inr)

lemma key_secret_attributes_new [simp]:
  "key_secret_attributes (KeyAttributes_new label Ed25519) = Ed25519" "ka_label (KeyAttributes_new label att) = label"
  by (simp_all add: key_secret_attributes_def KeyAttributes_new_def)

lemma usable_root:
  assumes "usable held h"
  obtains sc k where "find_last_key_change h ROOT_LABEL = Inr sc" "held k = Some (change_public_key (ch_change sc))"
    "get_current_root_public_key h = Inr (change_public_key (ch_change sc))"
proof -
  obtain sc where sc: "find_last_key_change h ROOT_LABEL = Inr sc"
    using assms by (auto simp: usable_def is_ok_iff)
  moreover from this obtain k where "held k = Some (change_public_key (ch_change sc))"
    using assms by (auto simp: usable_def)
  ultimately show ?thesis
    using that by (simp add: get_current_root_public_key_def get_public_key_static_def)
qed

lemma usable_snoc:
  assumes "usable held h" "held k = None" "change_public_key (ch_change c) = pk"
  shows "usable (held(k \<mapsto> pk)) (h @ [c])"
  unfolding usable_def
proof (intro conjI allI impI)
  show "is_ok (find_last_key_change (h @ [c]) ROOT_LABEL)"
    using assms(1) by (simp add: usable_def)
next
  fix label sc
  assume "find_last_key_change (h @ [c]) label = Inr sc"
  then consider "sc = c" | "find_last_key_change h label = Inr sc"
    by (cases "change_label (ch_change c) = label") simp_all
  then show "\<exists>k'. (held(k \<mapsto> pk)) k' = Some (change_public_key (ch_change sc))"
  proof cases
    case 1
    then show ?thesis using assms(3) by auto
  next
    case 2
    then obtain k' where k': "held k' = Some (change_public_key (ch_change sc))"
      using assms(1) by (auto simp: usable_def)
    with assms(2) have "k' \<noteq> k" by auto
    with k' show ?thesis by (intro exI [of _ k']) simp
  qed
qed

context signing_vault
begin

lemma create_key_obtain:
  assumes "ready (Suc b) v"
  obtains k pk v' where "iv_create_persistent vault Ed25519 v = Inr (Inr k, v')" "ready b v'" "holds v k = None"
    "holds v' = (holds v)(k \<mapsto> pk)" "xx_public_key vault k v' = Inr (Inr pk, v')"
proof -
  obtain k pk v' where k: "iv_create_persistent vault Ed25519 v = Inr (Inr k, v')" "ready b v'" "holds v k = None"
      "holds v' = (holds v)(k \<mapsto> pk)"
    using create_key_law [OF assms] by blast
  then have "holds v' k = Some pk" by simp
  from public_key_law [OF this] k that show ?thesis by blast
qed

lemma sign_obtain:
  assumes "ready b v" "holds v k = Some pk"
  obtains s where "iv_sign vault k m v = Inr (Inr s, v)" "verdict pk m s = Inr True"
  using sign_law [OF assms] by blast

text \<open>A key in the vault is found again from the change that announced it.\<close>

lemma labelled_key:
  assumes "usable (holds v) (change_history identity)" "find_last_key_change (change_history identity) label = Inr sc"
  obtains k where "get_labelled_key vault identity label v = Inr (Inr k, v)"
    "get_secret_key_from_change vault sc v = Inr (Inr k, v)"
    "holds v k = Some (change_public_key (ch_change sc))"
proof -
  obtain k where k: "holds v k = Some (change_public_key (ch_change sc))"
    using assms by (auto simp: usable_def)
  then show ?thesis
    using that key_id_law [OF k] assms(2)
    by (simp add: get_labelled_key_def get_secret_key_from_change_def run_simps)
qed

lemma other_key_kept: "holds v k = None \<Longrightarrow> holds v k' = Some pk' \<Longrightarrow> ((holds v)(k \<mapsto> pk)) k' = Some pk'"
  by auto

lemma new_key_differs:
  assumes "holds v k = None" "holds v k' = Some pk'" "holds v' k = Some pk" "holds v' k' = Some pk'"
  shows "pk \<noteq> pk'"
  using assms key_id_law [OF assms(3)] key_id_law [OF assms(4)] by force

text \<open>The first change of a history.\<close>

lemma initial_change:
  assumes "codec_lawful p" "ready (Suc b) v"
  obtains sc v' where
    "make_create_key_change_static vault p None prev (default_with_label label) None v = Inr (Inr sc, v')"
    "ready b v'" "valid_history verdict p [sc]" "change_label (ch_change sc) = label"
    "\<exists>k. iv_create_persistent vault Ed25519 v = Inr (Inr k, v') \<and> holds v' k = Some (change_public_key (ch_change sc))"
proof -
  obtain k pk v' where k: "iv_create_persistent vault Ed25519 v = Inr (Inr k, v')" "ready b v'" "holds v k = None"
      "holds v' = (holds v)(k \<mapsto> pk)" "xx_public_key vault k v' = Inr (Inr pk, v')"
    using create_key_obtain [OF assms(2)] .
  define ch where "ch = CreateKey \<lparr>kc_prev_change_id = prev, kc_key_attributes = default_with_label label, kc_public_key = pk\<rparr>"
  obtain i where i: "hash_change p ch = Inr i" using hash_change_lawful [OF assms(1)] by blast
  have held: "holds v' k = Some pk" using k(4) by simp
  obtain s where s: "iv_sign vault k i v' = Inr (Inr s, v')" "verdict pk i s = Inr True"
    using sign_obtain [OF k(2) held] .
  define sc where "sc = \<lparr>ch_identifier = i, ch_change = ch, ch_signatures = [\<lparr>sig_type = SelfSign, sig_data = s\<rparr>]\<rparr>"
  have "make_create_key_change_static vault p None prev (default_with_label label) None v = Inr (Inr sc, v')"
    using k s i
    by (simp add: make_create_key_change_static_def generate_key_if_needed_def default_with_label_def
        run_simps sc_def ch_def Let_def run_ok_def)
  moreover have "properly_signed verdict p [] sc"
    using i s(2)
    by (simp add: properly_signed_def sc_def ch_def hash_change_eq_Inr SignatureType_all signing_key_def
        change_public_key_def)
  then have "valid_history verdict p [sc]" by (simp add: valid_history_def)
  moreover have "change_label (ch_change sc) = label" "change_public_key (ch_change sc) = pk"
    by (simp_all add: sc_def ch_def change_label_def change_public_key_def default_with_label_def)
  ultimately show ?thesis using that k(1,2) held by blast
qed

text \<open>A further key, signed by itself and by the root key.\<close>

lemma create_change:
  assumes "codec_lawful p" "ready (Suc b) v" "h \<noteq> []" "holds v r = Some rk"
    "get_current_root_public_key h = Inr rk"
  obtains sc k pk v' where
    "make_create_key_change_static vault p None prev (default_with_label label) (Some r) v = Inr (Inr sc, v')"
    "ready b v'" "holds v k = None" "holds v' = (holds v)(k \<mapsto> pk)"
    "properly_signed verdict p h sc" "change_label (ch_change sc) = label"
    "change_public_key (ch_change sc) = pk" "previous_change_identifier (ch_change sc) = prev"
proof -
  obtain k pk v' where k: "iv_create_persistent vault Ed25519 v = Inr (Inr k, v')" "ready b v'" "holds v k = None"
      "holds v' = (holds v)(k \<mapsto> pk)" "xx_public_key vault k v' = Inr (Inr pk, v')"
    using create_key_obtain [OF assms(2)] .
  define ch where "ch = CreateKey \<lparr>kc_prev_change_id = prev, kc_key_attributes = default_with_label label, kc_public_key = pk\<rparr>"
  obtain i where i: "hash_change p ch = Inr i" using hash_change_lawful [OF assms(1)] by blast
  have held: "holds v' k = Some pk" "holds v' r = Some rk"
    using k(4) other_key_kept [OF k(3) assms(4)] by simp_all
  obtain s where s: "iv_sign vault k i v' = Inr (Inr s, v')" "verdict pk i s = Inr True"
    using sign_obtain [OF k(2) held(1)] .
  obtain t where t: "iv_sign vault r i v' = Inr (Inr t, v')" "verdict rk i t = Inr True"
    using sign_obtain [OF k(2) held(2)] .
  define sc where "sc = \<lparr>ch_identifier = i, ch_change = ch,
    ch_signatures = [\<lparr>sig_type = SelfSign, sig_data = s\<rparr>, \<lparr>sig_type = RootSign, sig_data = t\<rparr>]\<rparr>"
  have "make_create_key_change_static vault p None prev (default_with_label label) (Some r) v = Inr (Inr sc, v')"
    using k s t i
    by (simp add: make_create_key_change_static_def generate_key_if_needed_def default_with_label_def
        run_simps sc_def ch_def Let_def run_ok_def)
  moreover have "properly_signed verdict p h sc"
    using i s(2) t(2) assms(3,5)
    by (simp add: properly_signed_def sc_def ch_def hash_change_eq_Inr SignatureType_all signing_key_def
        change_public_key_def)
  moreover have "change_label (ch_change sc) = label" "change_public_key (ch_change sc) = pk"
      "previous_change_identifier (ch_change sc) = prev"
    by (simp_all add: sc_def ch_def change_label_def change_public_key_def default_with_label_def
      previous_change_identifier_def)
  ultimately show ?thesis using that k by blast
qed

text \<open>A rotation, signed by the new key, by the root key and by the key it replaces.\<close>

lemma rotate_change:
  assumes "codec_lawful p" "ready (Suc b) v" "change_history identity \<noteq> []" "usable (holds v) (change_history identity)"
    "find_last_key_change (change_history identity) label = Inr old"
  obtains sc k pk v' where
    "make_rotate_key_change vault p identity (default_with_label label) v = Inr (Inr sc, v')"
    "ready b v'" "holds v k = None" "holds v' = (holds v)(k \<mapsto> pk)"
    "properly_signed verdict p (change_history identity) sc" "change_label (ch_change sc) = label"
    "change_public_key (ch_change sc) = pk" "pk \<noteq> change_public_key (ch_change old)"
    "previous_change_identifier (ch_change sc) = ch_identifier (last (change_history identity))"
proof -
  let ?h = "change_history identity"
  obtain k pk v' where k: "iv_create_persistent vault Ed25519 v = Inr (Inr k, v')" "ready b v'" "holds v k = None"
      "holds v' = (holds v)(k \<mapsto> pk)" "xx_public_key vault k v' = Inr (Inr pk, v')"
    using create_key_obtain [OF assms(2)] .
  define ch where "ch = RotateKey \<lparr>kc_prev_change_id = ch_identifier (last ?h),
    kc_key_attributes = default_with_label label, kc_public_key = pk\<rparr>"
  obtain i where i: "hash_change p ch = Inr i" using hash_change_lawful [OF assms(1)] by blast
  obtain o' where o': "get_secret_key_from_change vault old v = Inr (Inr o', v)"
      "holds v o' = Some (change_public_key (ch_change old))"
    using labelled_key [OF assms(4,5)] .
  obtain root r where root: "find_last_key_change ?h ROOT_LABEL = Inr root"
      "holds v r = Some (change_public_key (ch_change root))"
      "get_current_root_public_key ?h = Inr (change_public_key (ch_change root))"
    using usable_root [OF assms(4)] .
  have held: "holds v' k = Some pk" "holds v' r = Some (change_public_key (ch_change root))"
      "holds v' o' = Some (change_public_key (ch_change old))"
    using k(4) other_key_kept [OF k(3) root(2)] other_key_kept [OF k(3) o'(2)] by simp_all
  have r': "get_root_secret_key vault identity v' = Inr (Inr r, v')"
    using root(1) key_id_law [OF held(2)]
    by (simp add: get_root_secret_key_def get_labelled_key_def get_secret_key_from_change_def run_simps)
  obtain s where s: "iv_sign vault k i v' = Inr (Inr s, v')" "verdict pk i s = Inr True"
    using sign_obtain [OF k(2) held(1)] .
  obtain t where t: "iv_sign vault r i v' = Inr (Inr t, v')"
      "verdict (change_public_key (ch_change root)) i t = Inr True"
    using sign_obtain [OF k(2) held(2)] .
  obtain u where u: "iv_sign vault o' i v' = Inr (Inr u, v')"
      "verdict (change_public_key (ch_change old)) i u = Inr True"
    using sign_obtain [OF k(2) held(3)] .
  define sc where "sc = \<lparr>ch_identifier = i, ch_change = ch,
    ch_signatures = [\<lparr>sig_type = SelfSign, sig_data = s\<rparr>, \<lparr>sig_type = RootSign, sig_data = t\<rparr>,
      \<lparr>sig_type = PrevSign, sig_data = u\<rparr>]\<rparr>"
  have "make_rotate_key_change vault p identity (default_with_label label) v = Inr (Inr sc, v')"
    using k s t u i o'(1) r' assms(3,5)
    by (simp add: make_rotate_key_change_def get_last_change_id_def default_with_label_def
        run_simps sc_def ch_def Let_def run_ok_def)
  moreover have "change_label ch = label"
    by (simp add: ch_def change_label_def default_with_label_def)
  then have "properly_signed verdict p ?h sc"
    using i s(2) t(2) u(2) assms(3,5) root(3)
    by (simp add: properly_signed_def sc_def hash_change_eq_Inr SignatureType_all signing_key_def
        get_public_key_static_def) (simp add: ch_def change_public_key_def)
  moreover have "pk \<noteq> change_public_key (ch_change old)"
    using new_key_differs [OF k(3) o'(2) held(1,3)] .
  moreover have "change_label (ch_change sc) = label" "change_public_key (ch_change sc) = pk"
      "previous_change_identifier (ch_change sc) = ch_identifier (last ?h)"
    by (simp_all add: sc_def ch_def change_label_def change_public_key_def default_with_label_def
      previous_change_identifier_def)
  ultimately show ?thesis using that k by blast
qed

text \<open>The operations on an identity.\<close>

lemma owned_snoc:
  assumes "owned verdict p (holds v) identity" "holds v k = None" "change_public_key (ch_change c) = pk"
    "properly_signed verdict p (change_history identity) c"
    "previous_change_identifier (ch_change c) = ch_identifier (last (change_history identity))"
  shows "owned verdict p ((holds v)(k \<mapsto> pk)) (identity\<lparr>change_history := change_history identity @ [c]\<rparr>)"
    "Identity_add_change c identity = Inr (identity\<lparr>change_history := change_history identity @ [c]\<rparr>)"
proof -
  have "change_history identity \<noteq> []" using assms(1) by (simp add: owned_def valid_history_def)
  then show "owned verdict p ((holds v)(k \<mapsto> pk)) (identity\<lparr>change_history := change_history identity @ [c]\<rparr>)"
      "Identity_add_change c identity = Inr (identity\<lparr>change_history := change_history identity @ [c]\<rparr>)"
    using assms usable_snoc [of "holds v" "change_history identity" k c pk] valid_history_snoc [of "change_history identity" verdict p c]
    by (simp_all add: owned_def Identity_add_change_def history_add_change_def check_consistency_def)
qed

lemma create_key_outcome:
  assumes "codec_lawful p" "ready (Suc b) v" "owned verdict p (holds v) identity"
  shows "if is_ok (find_last_key_change (change_history identity) label)
    then create_key vault p label (v, identity) = Inr (Inl (identity_error InvalidInternalState), (v, identity))
    else \<exists>c k pk v'. create_key vault p label (v, identity)
        = Inr (Inr (), (v', identity\<lparr>change_history := change_history identity @ [c]\<rparr>))
      \<and> ready b v' \<and> holds v k = None \<and> holds v' = (holds v)(k \<mapsto> pk)
      \<and> owned verdict p (holds v') (identity\<lparr>change_history := change_history identity @ [c]\<rparr>)
      \<and> change_label (ch_change c) = label"
proof (cases "is_ok (find_last_key_change (change_history identity) label)")
  case True
  then show ?thesis
    by (simp add: create_key_def add_change_to_def make_create_key_change_def default_with_label_def
        run_simps run_err_def)
next
  case False
  have h: "change_history identity \<noteq> []" using assms(3) by (simp add: owned_def valid_history_def)
  have u: "usable (holds v) (change_history identity)" using assms(3) by (simp add: owned_def)
  obtain root r where root: "find_last_key_change (change_history identity) ROOT_LABEL = Inr root"
      "holds v r = Some (change_public_key (ch_change root))"
      "get_current_root_public_key (change_history identity) = Inr (change_public_key (ch_change root))"
    using usable_root [OF u] .
  have r: "get_root_secret_key vault identity v = Inr (Inr r, v)"
    using root(1) key_id_law [OF root(2)]
    by (simp add: get_root_secret_key_def get_labelled_key_def get_secret_key_from_change_def run_simps)
  obtain c k pk v' where c: "make_create_key_change_static vault p None
        (ch_identifier (last (change_history identity))) (default_with_label label) (Some r) v = Inr (Inr c, v')"
      "ready b v'" "holds v k = None" "holds v' = (holds v)(k \<mapsto> pk)"
      "properly_signed verdict p (change_history identity) c" "change_label (ch_change c) = label"
      "change_public_key (ch_change c) = pk"
      "previous_change_identifier (ch_change c) = ch_identifier (last (change_history identity))"
    using create_change [OF assms(1,2) h root(2,3)] .
  have "make_create_key_change vault p identity None (default_with_label label) v = Inr (Inr c, v')"
    using False h r c(1)
    by (simp add: make_create_key_change_def get_last_change_id_def run_simps default_with_label_def Let_def)
  then have "create_key vault p label (v, identity)
      = Inr (Inr (), (v', identity\<lparr>change_history := change_history identity @ [c]\<rparr>))"
    using owned_snoc(2) [OF assms(3) c(3,7,5,8)]
    by (simp add: create_key_def add_change_to_def run_simps run_put_def run_ok_def)
  with False c owned_snoc(1) [OF assms(3) c(3,7,5,8)] show ?thesis by auto
qed

lemma rotate_key_outcome:
  assumes "codec_lawful p" "ready (Suc b) v" "owned verdict p (holds v) identity"
  shows "case find_last_key_change (change_history identity) label of
      Inl e \<Rightarrow> rotate_key vault p label (v, identity) = Inr (Inl e, (v, identity))
    | Inr old \<Rightarrow> \<exists>c k pk v'. rotate_key vault p label (v, identity)
        = Inr (Inr (), (v', identity\<lparr>change_history := change_history identity @ [c]\<rparr>))
      \<and> ready b v' \<and> holds v k = None \<and> holds v' = (holds v)(k \<mapsto> pk)
      \<and> owned verdict p (holds v') (identity\<lparr>change_history := change_history identity @ [c]\<rparr>)
      \<and> change_label (ch_change c) = label
      \<and> change_public_key (ch_change c) \<noteq> change_public_key (ch_change old)"
proof -
  have h: "change_history identity \<noteq> []" using assms(3) by (simp add: owned_def valid_history_def)
  have u: "usable (holds v) (change_history identity)" using assms(3) by (simp add: owned_def)
  show ?thesis
  proof (cases "find_last_key_change (change_history identity) label")
    case (Inl e)
    with h show ?thesis
      by (simp add: rotate_key_def add_change_to_def make_rotate_key_change_def get_last_change_id_def
          default_with_label_def run_simps run_err_def)
  next
    case (Inr old)
    obtain c k pk v' where c: "make_rotate_key_change vault p identity (default_with_label label) v = Inr (Inr c, v')"
        "ready b v'" "holds v k = None" "holds v' = (holds v)(k \<mapsto> pk)"
        "properly_signed verdict p (change_history identity) c" "change_label (ch_change c) = label"
        "change_public_key (ch_change c) = pk" "pk \<noteq> change_public_key (ch_change old)"
        "previous_change_identifier (ch_change c) = ch_identifier (last (change_history identity))"
      using rotate_change [OF assms(1,2) h u Inr] .
    then have "rotate_key vault p label (v, identity)
        = Inr (Inr (), (v', identity\<lparr>change_history := change_history identity @ [c]\<rparr>))"
      using owned_snoc(2) [OF assms(3) c(3,7,5,9)]
      by (simp add: rotate_key_def add_change_to_def run_simps run_put_def run_ok_def)
    with Inr c owned_snoc(1) [OF assms(3) c(3,7,5,9)] show ?thesis by auto
  qed
qed

text \<open>Signatures made with an owned identity verify against its history.\<close>

lemma signature_verifies:
  assumes "ready b v" "owned verdict p (holds v) identity"
    "find_last_key_change (change_history identity) (case label of Some l \<Rightarrow> l | None \<Rightarrow> ROOT_LABEL) = Inr sc"
  obtains s where "create_signature vault identity d label v = Inr (Inr s, v)"
    "\<forall>w. identity_verify_signature vault identity s d label w = Inr (Inr True, w)"
proof -
  have u: "usable (holds v) (change_history identity)" using assms(2) by (simp add: owned_def)
  obtain k where k: "get_labelled_key vault identity (case label of Some l \<Rightarrow> l | None \<Rightarrow> ROOT_LABEL) v = Inr (Inr k, v)"
      "get_secret_key_from_change vault sc v = Inr (Inr k, v)"
      "holds v k = Some (change_public_key (ch_change sc))"
    using labelled_key [OF u assms(3)] .
  obtain s where s: "iv_sign vault k d v = Inr (Inr s, v)" "verdict (change_public_key (ch_change sc)) d s = Inr True"
    using sign_obtain [OF assms(1) k(3)] .
  show ?thesis
  proof (rule that)
    show "create_signature vault identity d label v = Inr (Inr s, v)"
      using k(1) s(1)
      by (cases label) (simp_all add: create_signature_def get_secret_key_def get_root_secret_key_def run_simps)
    show "\<forall>w. identity_verify_signature vault identity s d label w = Inr (Inr True, w)"
      using s(2) assms(3)
      by (cases label) (simp_all add: identity_verify_signature_def Identity_get_public_key_def
        get_public_key_static_def run_simps verify_law)
  qed
qed

end

subsection \<open>The vault of \<open>ockam_vault\<close>\<close>

definition vault_verdict :: "Crypto \<Rightarrow> PublicKey \<Rightarrow> bytes \<Rightarrow> bytes \<Rightarrow> error + bool" where
  "vault_verdict c pk m sig = (case stype pk of
     Ed25519Type \<Rightarrow>
       if length (data pk) \<noteq> 32 \<or> length sig \<noteq> 64 \<or> \<not> ed25519_accepts_key c (data pk)
       then Inl (vault_error InvalidPublicKey) else Inr (ed25519_verify c (data pk) m sig)
   | NistP256Type \<Rightarrow>
       if \<not> p256_accepts_key c (data pk) \<or> \<not> p256_accepts_signature c sig then Inl backend_error
       else Inr (p256_verify c (data pk) m sig)
   | _ \<Rightarrow> Inl (vault_error InvalidPublicKey))"

lemma verify_verdict: "verify c pk m s v = Inr (vault_verdict c pk m s, v)"
  by (simp add: verify_def vault_verdict_def run_ok_def run_err_def CURVE25519_PUBLIC_LENGTH_USIZE_def
      split: SecretType.split)

interpretation vv: signature_verifier "to_identities_vault c" "vault_verdict c"
  by unfold_locales (simp add: to_identities_vault_def verify_verdict)

text \<open>The documented behaviour of Ed25519.\<close>

definition ed25519_lawful :: "Crypto \<Rightarrow> bool" where
  "ed25519_lawful c \<longleftrightarrow> (\<forall>sk m. length sk = 32 \<longrightarrow>
     length (ed25519_verifying_key c sk) = 32 \<and> ed25519_accepts_key c (ed25519_verifying_key c sk)
     \<and> length (ed25519_sign c sk m) = 64 \<and> ed25519_verify c (ed25519_verifying_key c sk) m (ed25519_sign c sk m))"

definition ed25519_key :: "Crypto \<Rightarrow> Secret \<Rightarrow> PublicKey" where
  "ed25519_key c sk = PublicKey_new (ed25519_verifying_key c sk) Ed25519Type"

definition stored_secret :: "Vault \<Rightarrow> KeyId \<Rightarrow> StoredSecret option" where
  "stored_secret v k = (case bt_get (ephemeral_secrets v) k of Some s \<Rightarrow> Some s | None \<Rightarrow> bt_get (persistent_secrets v) k)"

text \<open>A signing key is stored under the identifier computed from its public key.\<close>

definition vault_holds :: "Crypto \<Rightarrow> Vault \<Rightarrow> KeyId \<Rightarrow> PublicKey option" where
  "vault_holds c v k = (case stored_secret v k of
     Some st \<Rightarrow>
       if attributes st = Ed25519 \<and> length (secret st) = 32
          \<and> k = compute_key_id_for_public_key c (ed25519_key c (secret st))
       then Some (ed25519_key c (secret st)) else None
   | None \<Rightarrow> None)"

definition signing_id :: "Crypto \<Rightarrow> Vault \<Rightarrow> nat \<Rightarrow> KeyId" where
  "signing_id c v i = compute_key_id_for_public_key c (ed25519_key c (rng v i 32))"

definition vault_ready :: "Crypto \<Rightarrow> nat \<Rightarrow> Vault \<Rightarrow> bool" where
  "vault_ready c b v \<longleftrightarrow> ed25519_lawful c \<and> (\<forall>i n. length (rng v i n) = n)
   \<and> (\<forall>i. draws v \<le> i \<longrightarrow> i < draws v + b \<longrightarrow> stored_secret v (signing_id c v i) = None)
   \<and> inj_on (signing_id c v) {draws v..<draws v + b}"

lemma vault_holdsE:
  assumes "vault_holds c v k = Some pk"
  obtains st where "stored_secret v k = Some st" "attributes st = Ed25519" "length (secret st) = 32"
    "k = compute_key_id_for_public_key c pk" "pk = ed25519_key c (secret st)"
  using assms by (auto simp: vault_holds_def split: option.splits if_splits)

lemma stored_public_key:
  "stored_secret v k = Some st \<Longrightarrow> get_public_key c k v = compute_public_key_from_secret c st v"
  by (auto simp: get_public_key_def module_get_public_key_def get_secret_def stored_secret_def storage_defs
      vault_run_defs split: option.splits)

lemma stored_attributes:
  "stored_secret v k = Some st \<Longrightarrow> get_secret_attributes k v = Inr (Inr (attributes st), v)"
  by (auto simp: get_secret_attributes_def get_attributes_def get_secret_def stored_secret_def storage_defs
      vault_run_defs split: option.splits)

lemma stored_sign:
  "stored_secret v k = Some st \<Longrightarrow> sign c k m v = sign_with_secret c st m v"
  by (auto simp: sign_def module_sign_def get_secret_def get_ephemeral_secret_def stored_secret_def storage_defs
      vault_run_defs run_try_def split: option.splits)

definition with_signing_key :: "Crypto \<Rightarrow> Vault \<Rightarrow> Vault" where
  "with_signing_key c v = v\<lparr>draws := Suc (draws v), persistent_secrets := bt_insert (signing_id c v (draws v))
     \<lparr>secret = rng v (draws v) 32, attributes = Ed25519\<rparr> (persistent_secrets v)\<rparr>"

lemma create_signing_secret:
  assumes "length (rng v (draws v) 32) = 32"
  shows "create_persistent_secret c Ed25519 v = Inr (Inr (signing_id c v (draws v)), with_signing_key c v)"
  using assms
  by (simp add: create_persistent_secret_def create_secret_def create_secret_from_attributes_def
      with_signing_key_def signing_id_def ed25519_key_def compute_key_id_def StoredSecret_create_def
      StoredSecret_check_def storage_defs vault_run_defs)

lemma vault_create_signing:
  assumes "vault_ready c (Suc b) v"
  shows "\<exists>k pk v'. create_persistent_secret c Ed25519 v = Inr (Inr k, v') \<and> vault_ready c b v'
     \<and> vault_holds c v k = None \<and> vault_holds c v' = (vault_holds c v)(k \<mapsto> pk)"
proof -
  define sk where "sk = rng v (draws v) 32"
  define k where "k = signing_id c v (draws v)"
  define v' where "v' = with_signing_key c v"
  have len: "length sk = 32" using assms by (simp add: vault_ready_def sk_def)
  have create: "create_persistent_secret c Ed25519 v = Inr (Inr k, v')"
    using len by (simp add: create_signing_secret sk_def k_def v'_def)
  have none: "stored_secret v k = None" using assms by (simp add: vault_ready_def k_def)
  have stored: "stored_secret v' = (stored_secret v)(k \<mapsto> \<lparr>secret = sk, attributes = Ed25519\<rparr>)"
    using none by (auto simp: stored_secret_def v'_def with_signing_key_def k_def sk_def bt_get_insert fun_eq_iff split: option.splits)
  have ids: "signing_id c v' = signing_id c v" by (simp add: signing_id_def v'_def with_signing_key_def fun_eq_iff)
  have inj: "inj_on (signing_id c v) {draws v..<draws v + Suc b}" using assms by (simp add: vault_ready_def)
  have "signing_id c v i \<noteq> k" if "Suc (draws v) \<le> i" "i < Suc (draws v) + b" for i
    using that inj_onD [OF inj, of i "draws v"] unfolding k_def by auto
  moreover have "inj_on (signing_id c v) {Suc (draws v)..<Suc (draws v) + b}"
    by (rule inj_on_subset [OF inj]) auto
  moreover have "rng v' = rng v" "draws v' = Suc (draws v)" by (simp_all add: v'_def with_signing_key_def)
  ultimately have "vault_ready c b v'"
    using assms by (simp add: vault_ready_def ids stored)
  moreover have "vault_holds c v' = (vault_holds c v)(k \<mapsto> ed25519_key c sk)"
    using len by (auto simp: vault_holds_def stored fun_eq_iff k_def signing_id_def sk_def)
  ultimately show ?thesis using create none by (auto simp: vault_holds_def)
qed

lemma with_signing_good:
  assumes "vault_good c (Suc b) v"
  shows "vault_good c b (with_signing_key c v)"
proof -
  have "random_id c (with_signing_key c v) = random_id c v"
    by (simp add: random_id_def with_signing_key_def fun_eq_iff)
  then show ?thesis
    using assms by (auto simp: vault_good_def ids_fresh_def with_signing_key_def elim: inj_on_subset)
qed

lemma vault_sign_key:
  assumes "ed25519_lawful c" "vault_holds c v k = Some pk"
  shows "\<exists>s. sign c k m v = Inr (Inr s, v) \<and> vault_verdict c pk m s = Inr True"
  using assms(2)
proof (rule vault_holdsE)
  fix st
  assume st: "stored_secret v k = Some st" "attributes st = Ed25519" "length (secret st) = 32"
    "pk = ed25519_key c (secret st)"
  then have "sign c k m v = Inr (Inr (ed25519_sign c (secret st) m), v)"
    by (simp add: stored_sign sign_with_secret_def vault_run_defs)
  moreover have "vault_verdict c pk m (ed25519_sign c (secret st) m) = Inr True"
    using assms(1) st by (simp add: vault_verdict_def ed25519_key_def PublicKey_new_def ed25519_lawful_def)
  ultimately show ?thesis by blast
qed

interpretation kv: signing_vault "to_identities_vault c" "vault_verdict c" "vault_holds c" "vault_ready c"
proof
  show "\<And>b v. vault_ready c (Suc b) v \<Longrightarrow> vault_ready c b v"
    by (auto simp: vault_ready_def elim: inj_on_subset)
  show "\<And>b v. vault_ready c (Suc b) v \<Longrightarrow> \<exists>k pk v'. iv_create_persistent (to_identities_vault c) Ed25519 v
      = Inr (Inr k, v') \<and> vault_ready c b v' \<and> vault_holds c v k = None \<and> vault_holds c v' = (vault_holds c v)(k \<mapsto> pk)"
    using vault_create_signing by (simp add: to_identities_vault_def)
  show "\<And>v k pk. vault_holds c v k = Some pk \<Longrightarrow> xx_public_key (to_identities_vault c) k v = Inr (Inr pk, v)"
    by (erule vault_holdsE) (simp add: to_identities_vault_def stored_public_key
      compute_public_key_from_secret_def ed25519_key_def vault_run_defs)
  show "\<And>v k pk. vault_holds c v k = Some pk \<Longrightarrow> xx_attributes (to_identities_vault c) k v = Inr (Inr Ed25519, v)"
    by (erule vault_holdsE) (simp add: to_identities_vault_def stored_attributes)
  show "\<And>v k pk. vault_holds c v k = Some pk \<Longrightarrow> iv_key_id (to_identities_vault c) pk v = Inr (Inr k, v)"
    by (erule vault_holdsE)
       (simp add: to_identities_vault_def get_key_id_def compute_key_id_for_public_key_def run_ok_def)
  show "\<And>b v k pk m. vault_ready c b v \<Longrightarrow> vault_holds c v k = Some pk \<Longrightarrow>
      \<exists>s. iv_sign (to_identities_vault c) k m v = Inr (Inr s, v) \<and> vault_verdict c pk m s = Inr True"
    using vault_sign_key by (simp add: to_identities_vault_def vault_ready_def)
qed

end
