(* ===== verification/Identity_Repository.thy ===== *)
theory Identity_Repository
  imports Identity_Owner
begin

text \<open>
  The repository of identities and attributes
  (\<open>ockam_identity/src/identities/storage\<close>) and the creation and import of identities
  (\<open>ockam_identity/src/identities/identities_creation.rs\<close>).

  The storage behind the repository is the trait object \<open>Storage\<close>; \<open>InMemoryStorage\<close> is the one the
  crate uses by default.  The CBOR codec of attribute entries and the system time are parameters.
\<close>

subsection \<open>Storage\<close>

record 'w Storage =
  st_get :: "string \<Rightarrow> string \<Rightarrow> ('w, error, bytes option) state_exec"
  st_set :: "string \<Rightarrow> string \<Rightarrow> bytes \<Rightarrow> ('w, error, unit) state_exec"
  st_del :: "string \<Rightarrow> string \<Rightarrow> ('w, error, unit) state_exec"
  st_keys :: "string \<Rightarrow> ('w, error, string list) state_exec"

type_synonym InMemoryStorage = "(string, (string, bytes) btree_map) btree_map"

definition mem_get :: "InMemoryStorage \<Rightarrow> string \<Rightarrow> string \<Rightarrow> bytes option" where
  "mem_get m i namespace = (case bt_get m namespace of Some a \<Rightarrow> bt_get a i | None \<Rightarrow> None)"

definition mem_set :: "string \<Rightarrow> string \<Rightarrow> bytes \<Rightarrow> InMemoryStorage \<Rightarrow> InMemoryStorage" where
  "mem_set i namespace val m = (case bt_get m namespace of
     Some a \<Rightarrow> bt_insert namespace (bt_insert i val a) m
   | None \<Rightarrow> bt_insert namespace [(i, val)] m)"

definition mem_del :: "string \<Rightarrow> string \<Rightarrow> InMemoryStorage \<Rightarrow> InMemoryStorage" where
  "mem_del i namespace m = (case bt_get m namespace of
     Some a \<Rightarrow> (let a' = bt_remove i a in
       if a' = [] then bt_remove namespace m else bt_insert namespace a' m)
   | None \<Rightarrow> m)"

definition mem_keys :: "InMemoryStorage \<Rightarrow> string \<Rightarrow> string list" where
  "mem_keys m namespace = (case bt_get m namespace of Some a \<Rightarrow> bt_keys a | None \<Rightarrow> [])"

text \<open>The in-memory storage beside the rest of the state.\<close>

definition in_memory :: "('v \<times> InMemoryStorage) Storage" where
  "in_memory =
     \<lparr>st_get = (\<lambda>i ns w. run_ok (mem_get (snd w) i ns) w),
      st_set = (\<lambda>i ns d w. run_ok () (fst w, mem_set i ns d (snd w))),
      st_del = (\<lambda>i ns w. run_ok () (fst w, mem_del i ns (snd w))),
      st_keys = (\<lambda>ns w. run_ok (mem_keys (snd w) ns) w)\<rparr>"

subsection \<open>Identities\<close>

definition CHANGE_HISTORY_KEY :: string where "CHANGE_HISTORY_KEY = ''CHANGE_HISTORY''"
definition ATTRIBUTES_KEY :: string where "ATTRIBUTES_KEY = ''ATTRIBUTES''"

definition put_identity ::
  "('w, 'x) Storage_scheme \<Rightarrow> IdentityCodec \<Rightarrow> Identity \<Rightarrow> ('w, error, unit) state_exec" where
  "put_identity st p identity =
     run_bind (run_result (history_export p (change_history identity))) (\<lambda>d.
     st_set st (identity_identifier identity) CHANGE_HISTORY_KEY d)"

definition retrieve_identity ::
  "('w, 'x) Storage_scheme \<Rightarrow> IdentityCodec \<Rightarrow> IdentityIdentifier \<Rightarrow> ('w, error, Identity option) state_exec" where
  "retrieve_identity st p identifier =
     run_bind (st_get st identifier CHANGE_HISTORY_KEY) (\<lambda>r. case r of
       Some d \<Rightarrow> run_result (result_map Some (Identity_import p identifier d))
     | None \<Rightarrow> run_ok None)"

definition get_identity ::
  "('w, 'x) Storage_scheme \<Rightarrow> IdentityCodec \<Rightarrow> IdentityIdentifier \<Rightarrow> ('w, error, Identity) state_exec" where
  "get_identity st p identifier =
     run_bind (retrieve_identity st p identifier) (\<lambda>r. case r of
       Some identity \<Rightarrow> run_ok identity
     | None \<Rightarrow> run_err (ErrorCode_new OriginCore KindNotFound))"

definition update_identity ::
  "('w, 'x) Storage_scheme \<Rightarrow> IdentityCodec \<Rightarrow> Identity \<Rightarrow> ('w, error, unit) state_exec" where
  "update_identity st p identity =
     run_bind (retrieve_identity st p (identity_identifier identity)) (\<lambda>r.
     run_bind (case r of
         Some known \<Rightarrow> (case history_compare (change_history identity) (change_history known) of
             HistoryEqual \<Rightarrow> run_ok False
           | HistoryConflict \<Rightarrow> run_err (identity_error ConsistencyError)
           | HistoryNewer \<Rightarrow> run_ok True
           | HistoryOlder \<Rightarrow> run_err (identity_error ConsistencyError))
       | None \<Rightarrow> run_ok True) (\<lambda>should_set.
     if should_set then put_identity st p identity else run_ok ()))"

subsection \<open>Attributes\<close>

definition add_seconds :: "Timestamp \<Rightarrow> u64 \<Rightarrow> Timestamp" where
  "add_seconds t seconds =
     (if 2 ^ 64 \<le> unat t + unat seconds then - 1 else t + seconds)"

record AttributesCodec =
  ac_encode :: "AttributesEntry \<Rightarrow> error + bytes"
  ac_decode :: "bytes \<Rightarrow> error + AttributesEntry"

definition expired :: "Timestamp \<Rightarrow> AttributesEntry \<Rightarrow> bool" where
  "expired now entry = (case ae_expires entry of Some t \<Rightarrow> t \<le> now | None \<Rightarrow> False)"

definition get_entry ::
  "('w, 'x) Storage_scheme \<Rightarrow> AttributesCodec \<Rightarrow> Timestamp option \<Rightarrow> IdentityIdentifier
   \<Rightarrow> ('w, error, AttributesEntry option) state_exec" where
  "get_entry st q clock identity_id =
     run_bind (st_get st identity_id ATTRIBUTES_KEY) (\<lambda>r. case r of
       None \<Rightarrow> run_ok None
     | Some e \<Rightarrow>
         run_bind (run_result (ac_decode q e)) (\<lambda>entry.
         run_bind (run_result (ok_or clock (ErrorCode_new OriginCore KindInternal))) (\<lambda>now.
         if expired now entry
         then run_then (st_del st identity_id ATTRIBUTES_KEY) (run_ok None)
         else run_ok (Some entry))))"

definition put_attributes ::
  "('w, 'x) Storage_scheme \<Rightarrow> AttributesCodec \<Rightarrow> IdentityIdentifier \<Rightarrow> AttributesEntry \<Rightarrow> ('w, error, unit) state_exec" where
  "put_attributes st q sender entry =
     run_bind (run_result (ac_encode q entry)) (\<lambda>d. st_set st sender ATTRIBUTES_KEY d)"

text \<open>The system time is read twice; the second reading is unwrapped.\<close>

definition put_attribute_value ::
  "('w, 'x) Storage_scheme \<Rightarrow> AttributesCodec \<Rightarrow> Timestamp option \<Rightarrow> Timestamp option \<Rightarrow> IdentityIdentifier
   \<Rightarrow> string \<Rightarrow> string \<Rightarrow> ('w, error, unit) state_exec" where
  "put_attribute_value st q clock clock' subject name val =
     run_bind (get_entry st q clock subject) (\<lambda>r.
     let attrs = bt_insert name val (case r of Some entry \<Rightarrow> ae_attrs entry | None \<Rightarrow> []) in
     case clock' of
       None \<Rightarrow> run_panic ''called Option::unwrap() on a None value''
     | Some now \<Rightarrow> put_attributes st q subject
         \<lparr>ae_attrs = attrs, ae_added = now, ae_expires = None, ae_attested_by = Some subject\<rparr>)"

definition delete_attributes ::
  "('w, 'x) Storage_scheme \<Rightarrow> IdentityIdentifier \<Rightarrow> ('w, error, unit) state_exec" where
  "delete_attributes st identity = st_del st identity ATTRIBUTES_KEY"

definition list_attributes ::
  "('w, 'x) Storage_scheme \<Rightarrow> AttributesCodec \<Rightarrow> Timestamp option
   \<Rightarrow> ('w, error, (IdentityIdentifier \<times> AttributesEntry) list) state_exec" where
  "list_attributes st q clock =
     run_bind (st_keys st ATTRIBUTES_KEY) (\<lambda>ids.
     run_bind (run_map (\<lambda>i.
         run_bind (run_result (IdentityIdentifier_try_from i)) (\<lambda>identifier.
         run_bind (get_entry st q clock identifier) (\<lambda>r. run_ok (case r of
           Some attrs \<Rightarrow> [(identifier, attrs)] | None \<Rightarrow> [])))) ids) (\<lambda>found.
     run_ok (concat found)))"

subsection \<open>Creating and importing identities\<close>

definition compute_identity_identifier :: "IdentityCodec \<Rightarrow> IdentityChangeHistory \<Rightarrow> error + IdentityIdentifier" where
  "compute_identity_identifier p h = result_map (from_public_key p) (get_first_root_public_key h)"

definition decode_identity ::
  "('v, 'x) IdentitiesVault_scheme \<Rightarrow> IdentityCodec \<Rightarrow> bytes \<Rightarrow> ('v, error, Identity) state_exec" where
  "decode_identity vault p d =
     run_bind (run_result (history_import p d)) (\<lambda>h.
     run_then (verify_all_existing_changes vault p h)
     (run_bind (run_result (compute_identity_identifier p h)) (\<lambda>identifier.
     run_ok (Identity_new identifier h))))"

definition decode_identity_hex ::
  "('v, 'x) IdentitiesVault_scheme \<Rightarrow> IdentityCodec \<Rightarrow> string \<Rightarrow> ('v, error, Identity) state_exec" where
  "decode_identity_hex vault p s =
     run_bind (run_result (ok_or (ic_hex_decode p s) (identity_error ConsistencyError)))
       (decode_identity vault p)"

definition import_private_identity ::
  "('w, 'x) IdentitiesVault_scheme \<Rightarrow> IdentityCodec \<Rightarrow> ('w, 'y) Storage_scheme \<Rightarrow> string \<Rightarrow> string
   \<Rightarrow> ('w, error, Identity) state_exec" where
  "import_private_identity vault p st identity_history key =
     (case ic_hex_decode p key of
        None \<Rightarrow> run_panic ''called Result::unwrap() on an Err value''
      | Some sk \<Rightarrow>
          run_bind (xx_import vault sk (key_secret_attributes (default_with_label ROOT_LABEL))) (\<lambda>_.
          run_bind (run_result (ok_or (ic_hex_decode p identity_history) (identity_error InvalidInternalState))) (\<lambda>d.
          run_bind (decode_identity vault p d) (\<lambda>identity.
          run_then (update_identity st p identity) (run_ok identity)))))"

definition make_and_persist_identity ::
  "('w, 'x) IdentitiesVault_scheme \<Rightarrow> IdentityCodec \<Rightarrow> ('w, 'y) Storage_scheme \<Rightarrow> KeyId option \<Rightarrow> KeyAttributes
   \<Rightarrow> ('w, error, Identity) state_exec" where
  "make_and_persist_identity vault p st key_id ka =
     run_bind (create_initial_key vault p key_id ka) (\<lambda>h.
     run_bind (run_result (compute_identity_identifier p h)) (\<lambda>identifier.
     let identity = Identity_new identifier h in
     run_then (update_identity st p identity) (run_ok identity)))"

definition create_identity_with_existing_key ::
  "('w, 'x) IdentitiesVault_scheme \<Rightarrow> IdentityCodec \<Rightarrow> ('w, 'y) Storage_scheme \<Rightarrow> KeyId \<Rightarrow> KeyAttributes
   \<Rightarrow> ('w, error, Identity) state_exec" where
  "create_identity_with_existing_key vault p st kid ka = make_and_persist_identity vault p st (Some kid) ka"

definition create_identity ::
  "('w, 'x) IdentitiesVault_scheme \<Rightarrow> IdentityCodec \<Rightarrow> ('w, 'y) Storage_scheme \<Rightarrow> ('w, error, Identity) state_exec" where
  "create_identity vault p st = make_and_persist_identity vault p st None (KeyAttributes_new ROOT_LABEL Ed25519)"

subsection \<open>What decoding accepts\<close>

lemma compute_identity_identifier_eq:
  "h \<noteq> [] \<Longrightarrow> ch_change (hd h) = CreateKey d \<Longrightarrow>
   compute_identity_identifier p h = Inr (from_public_key p (change_public_key (ch_change (hd h))))"
  by (cases h) (simp_all add: compute_identity_identifier_def get_first_root_public_key_def change_public_key_def)

context signature_verifier
begin

lemma decode_identity_iff:
  "decode_identity vault p d v = Inr (Inr identity, v') \<longleftrightarrow> v' = v
     \<and> ic_decode_history p d = Some (change_history identity) \<and> valid_history verdict p (change_history identity)
     \<and> identity_identifier identity = from_public_key p (change_public_key (ch_change (hd (change_history identity))))"
proof (cases "history_import p d")
  case (Inl e)
  then have "\<not> (ic_decode_history p d = Some h \<and> valid_history verdict p h)" for h
    using history_import_eq_Inr [of p d h] by (auto simp: valid_history_consistent)
  with Inl show ?thesis by (auto simp: decode_identity_def run_simps run_err_def)
next
  case (Inr h)
  then have h: "ic_decode_history p d = Some h" "check_consistency [] h" by (simp_all add: history_import_eq_Inr)
  obtain r where r: "\<And>v. verify_all_existing_changes vault p h v = Inr (r, v)" using verify_all_pure by blast
  have ok: "r = Inr () \<longleftrightarrow> (\<forall>i < length h. properly_signed verdict p (take i h) (h ! i))"
    using verify_all_iff [of p h v] r [of v] by simp
  show ?thesis
  proof (cases "valid_history verdict p h")
    case True
    obtain c where "ch_change (hd h) = CreateKey c" using valid_history_first [OF True] .
    moreover have "h \<noteq> []" using True by (simp add: valid_history_def)
    ultimately have "compute_identity_identifier p h
        = Inr (from_public_key p (change_public_key (ch_change (hd h))))"
      by (rule compute_identity_identifier_eq [rotated])
    moreover have "r = Inr ()" using ok True by (simp add: valid_history_consistent)
    ultimately have "decode_identity vault p d v
        = Inr (Inr (Identity_new (from_public_key p (change_public_key (ch_change (hd h)))) h), v)"
      using Inr r by (simp add: decode_identity_def run_simps run_ok_def)
    with h True show ?thesis by (cases identity) (auto simp: Identity_new_def)
  next
    case False
    then have "r \<noteq> Inr () \<or> h = []" using ok h(2) by (auto simp: valid_history_consistent)
    then have "decode_identity vault p d v \<noteq> Inr (Inr identity, v')"
      using Inr r
      by (cases r) (auto simp: decode_identity_def run_simps run_err_def compute_identity_identifier_def
        get_first_root_public_key_def)
    with False h show ?thesis by auto
  qed
qed

end

subsection \<open>What the repository relies on\<close>

text \<open>\<open>lookup w i ns\<close> is the value stored for \<open>i\<close> in namespace \<open>ns\<close>, and \<open>frame w\<close> the part of the state that
  is not the storage.\<close>

locale storage_laws =
  fixes st :: "('w, 'y) Storage_scheme"
    and lookup :: "'w \<Rightarrow> string \<Rightarrow> string \<Rightarrow> bytes option"
    and frame :: "'w \<Rightarrow> 'f"
  assumes get_law: "st_get st i ns w = Inr (Inr (lookup w i ns), w)"
    and set_law: "\<exists>w'. st_set st i ns d w = Inr (Inr (), w')
        \<and> lookup w' = (lookup w)(i := (lookup w i)(ns \<mapsto> d)) \<and> frame w' = frame w"
    and del_law: "\<exists>w'. st_del st i ns w = Inr (Inr (), w')
        \<and> lookup w' = (lookup w)(i := (lookup w i)(ns := None)) \<and> frame w' = frame w"
    and keys_law: "\<exists>ids. st_keys st ns w = Inr (Inr ids, w) \<and> set ids = {i. lookup w i ns \<noteq> None}"

text \<open>The history a repository has for an identity.\<close>

definition stored_history ::
  "(string \<Rightarrow> string \<Rightarrow> bytes option) \<Rightarrow> IdentityCodec \<Rightarrow> IdentityIdentifier \<Rightarrow> IdentityChangeHistory option" where
  "stored_history look p i = (case look i CHANGE_HISTORY_KEY of
     None \<Rightarrow> None
   | Some d \<Rightarrow> (case history_import p d of Inr h \<Rightarrow> Some h | Inl _ \<Rightarrow> None))"

lemma different_keys [simp]: "CHANGE_HISTORY_KEY \<noteq> ATTRIBUTES_KEY" "ATTRIBUTES_KEY \<noteq> CHANGE_HISTORY_KEY"
  by (simp_all add: CHANGE_HISTORY_KEY_def ATTRIBUTES_KEY_def)

lemma codec_export:
  assumes "codec_lawful p" "check_consistency [] h"
  obtains d where "history_export p h = Inr d" "history_import p d = Inr h"
  using assms by (auto simp: codec_lawful_def history_export_eq_Inr history_import_eq_Inr)

context storage_laws
begin

lemma set_obtain:
  obtains w' where "st_set st i ns d w = Inr (Inr (), w')" "lookup w' = (lookup w)(i := (lookup w i)(ns \<mapsto> d))"
    "frame w' = frame w"
  using set_law by blast

lemma del_obtain:
  obtains w' where "st_del st i ns w = Inr (Inr (), w')" "lookup w' = (lookup w)(i := (lookup w i)(ns := None))"
    "frame w' = frame w"
  using del_law by blast

lemma retrieve_value:
  "retrieve_identity st p i w = Inr (case lookup w i CHANGE_HISTORY_KEY of
     None \<Rightarrow> Inr None | Some d \<Rightarrow> result_map Some (Identity_import p i d), w)"
  by (cases "lookup w i CHANGE_HISTORY_KEY"; cases "Identity_import p i (the (lookup w i CHANGE_HISTORY_KEY))")
     (simp_all add: retrieve_identity_def run_simps get_law run_ok_def run_err_def)

lemma retrieve_stored:
  "stored_history (lookup w) p i = Some h \<Longrightarrow> retrieve_identity st p i w = Inr (Inr (Some (Identity_new i h)), w)"
  by (auto simp: retrieve_value stored_history_def Identity_import_def split: option.splits sum.splits)

lemma get_stored:
  "stored_history (lookup w) p i = Some h \<Longrightarrow> get_identity st p i w = Inr (Inr (Identity_new i h), w)"
  by (simp add: get_identity_def retrieve_stored run_simps run_ok_def)

lemma put_identity_value:
  assumes "codec_lawful p" "check_consistency [] (change_history identity)"
  obtains d w' where "put_identity st p identity w = Inr (Inr (), w')"
    "lookup w' = (lookup w)(identity_identifier identity := (lookup w (identity_identifier identity))(CHANGE_HISTORY_KEY \<mapsto> d))"
    "frame w' = frame w" "stored_history (lookup w') p (identity_identifier identity) = Some (change_history identity)"
proof -
  obtain d where d: "history_export p (change_history identity) = Inr d" "history_import p d = Inr (change_history identity)"
    using codec_export [OF assms] .
  obtain w' where "st_set st (identity_identifier identity) CHANGE_HISTORY_KEY d w = Inr (Inr (), w')"
      "lookup w' = (lookup w)(identity_identifier identity := (lookup w (identity_identifier identity))(CHANGE_HISTORY_KEY \<mapsto> d))"
      "frame w' = frame w"
    using set_obtain .
  then show ?thesis using that d by (simp add: put_identity_def run_simps stored_history_def)
qed

text \<open>The outcome of an update, by what is stored.\<close>

lemma update_keep:
  assumes "stored_history (lookup w) p (identity_identifier identity) = Some h"
    "history_compare (change_history identity) h \<noteq> HistoryNewer"
  shows "update_identity st p identity w =
     Inr (if history_compare (change_history identity) h = HistoryEqual then Inr ()
          else Inl (identity_error ConsistencyError), w)"
  using assms
  by (cases "history_compare (change_history identity) h")
     (simp_all add: update_identity_def retrieve_stored run_simps Identity_new_def run_ok_def run_err_def)

lemma update_store:
  assumes "codec_lawful p" "check_consistency [] (change_history identity)"
    "lookup w (identity_identifier identity) CHANGE_HISTORY_KEY = None
     \<or> (\<exists>h. stored_history (lookup w) p (identity_identifier identity) = Some h
          \<and> history_compare (change_history identity) h = HistoryNewer)"
  obtains d w' where "update_identity st p identity w = Inr (Inr (), w')"
    "lookup w' = (lookup w)(identity_identifier identity := (lookup w (identity_identifier identity))(CHANGE_HISTORY_KEY \<mapsto> d))"
    "frame w' = frame w" "stored_history (lookup w') p (identity_identifier identity) = Some (change_history identity)"
proof -
  have "update_identity st p identity w = put_identity st p identity w"
    using assms(3)
  proof
    assume "lookup w (identity_identifier identity) CHANGE_HISTORY_KEY = None"
    then show ?thesis by (simp add: update_identity_def retrieve_value run_simps)
  next
    assume "\<exists>h. stored_history (lookup w) p (identity_identifier identity) = Some h
          \<and> history_compare (change_history identity) h = HistoryNewer"
    then show ?thesis by (auto simp: update_identity_def retrieve_stored run_simps Identity_new_def)
  qed
  with put_identity_value [OF assms(1,2), of w] that show ?thesis by metis
qed

lemma update_cases:
  assumes "codec_lawful p" "check_consistency [] (change_history identity)"
    "update_identity st p identity w = Inr (r, w')"
  obtains (kept) "w' = w" "r = Inr () \<longrightarrow> (\<exists>h. stored_history (lookup w) p (identity_identifier identity) = Some h
        \<and> map ch_identifier h = map ch_identifier (change_history identity))"
  | (stored) d where "r = Inr ()" "frame w' = frame w"
      "lookup w' = (lookup w)(identity_identifier identity := (lookup w (identity_identifier identity))(CHANGE_HISTORY_KEY \<mapsto> d))"
      "stored_history (lookup w') p (identity_identifier identity) = Some (change_history identity)"
      "\<forall>h. stored_history (lookup w) p (identity_identifier identity) = Some h
         \<longrightarrow> prefix (map ch_identifier h) (map ch_identifier (change_history identity))"
proof -
  let ?i = "identity_identifier identity" and ?h = "change_history identity"
  consider (unreadable) e where "update_identity st p identity w = Inr (Inl e, w)"
    | (known) h where "stored_history (lookup w) p ?i = Some h" "history_compare ?h h \<noteq> HistoryNewer"
    | (new) "lookup w ?i CHANGE_HISTORY_KEY = None
       \<or> (\<exists>h. stored_history (lookup w) p ?i = Some h \<and> history_compare ?h h = HistoryNewer)"
    by (cases "lookup w ?i CHANGE_HISTORY_KEY";
        cases "history_import p (the (lookup w ?i CHANGE_HISTORY_KEY))")
       (auto simp: update_identity_def retrieve_value run_simps stored_history_def Identity_import_def)
  then show ?thesis
  proof cases
    case unreadable
    with assms(3) show ?thesis by (intro kept) auto
  next
    case known
    from update_keep [OF known] assms(3) have "w' = w" "r = Inr () \<Longrightarrow> history_compare ?h h = HistoryEqual"
      by (simp_all split: if_splits)
    moreover from this(2) have "r = Inr () \<Longrightarrow> map ch_identifier h = map ch_identifier ?h"
      by (simp add: history_compare_cases Let_def split: if_splits)
    ultimately show ?thesis using known(1) by (intro kept) blast+
  next
    case new
    obtain d w'' where "update_identity st p identity w = Inr (Inr (), w'')"
        "lookup w'' = (lookup w)(?i := (lookup w ?i)(CHANGE_HISTORY_KEY \<mapsto> d))"
        "frame w'' = frame w" "stored_history (lookup w'') p ?i = Some ?h"
      using update_store [OF assms(1,2) new] .
    moreover have "\<forall>h. stored_history (lookup w) p ?i = Some h \<longrightarrow> prefix (map ch_identifier h) (map ch_identifier ?h)"
      using new by (auto simp: stored_history_def history_compare_cases Let_def strict_prefix_def split: if_splits)
    ultimately show ?thesis using assms(3) by (intro stored) simp_all
  qed
qed

lemma update_returns:
  assumes "codec_lawful p" "check_consistency [] (change_history identity)"
  shows "\<exists>r w'. update_identity st p identity w = Inr (r, w')"
proof (cases "lookup w (identity_identifier identity) CHANGE_HISTORY_KEY")
  case None
  then show ?thesis using update_store [OF assms disjI1] by metis
next
  case (Some d)
  show ?thesis
  proof (cases "history_import p d")
    case (Inl e)
    with Some show ?thesis
      by (simp add: update_identity_def retrieve_value run_simps Identity_import_def)
  next
    case (Inr h)
    with Some have h: "stored_history (lookup w) p (identity_identifier identity) = Some h"
      by (simp add: stored_history_def)
    then show ?thesis
      using update_keep [OF h] update_store [OF assms disjI2]
      by (cases "history_compare (change_history identity) h = HistoryNewer") metis+
  qed
qed

text \<open>Whatever a peer presents, the stored history of an identity is only ever extended.\<close>

lemma stored_history_other:
  "j \<noteq> i \<Longrightarrow> stored_history (look(i := m)) p j = stored_history look p j"
  by (simp add: stored_history_def)

lemma update_monotone:
  assumes "codec_lawful p" "check_consistency [] (change_history identity)"
    "update_identity st p identity w = Inr (r, w')" "stored_history (lookup w) p i = Some h"
  shows "\<exists>h'. stored_history (lookup w') p i = Some h' \<and> prefix (map ch_identifier h) (map ch_identifier h')"
  using assms(1-3)
proof (cases rule: update_cases)
  case kept
  then show ?thesis using assms(4) by auto
next
  case (stored d)
  then show ?thesis using assms(4)
    by (cases "i = identity_identifier identity") (auto simp: stored_history_other)
qed

text \<open>Attributes.\<close>

lemma put_attributes_value:
  assumes "ac_encode q entry = Inr d"
  obtains w' where "put_attributes st q i entry w = Inr (Inr (), w')" "frame w' = frame w"
    "lookup w' = (lookup w)(i := (lookup w i)(ATTRIBUTES_KEY \<mapsto> d))"
  using set_obtain [of i ATTRIBUTES_KEY d w] assms that by (force simp: put_attributes_def run_simps)

lemma get_entry_value:
  assumes "lookup w i ATTRIBUTES_KEY = Some d" "ac_decode q d = Inr entry" "\<not> expired now entry"
  shows "get_entry st q (Some now) i w = Inr (Inr (Some entry), w)"
  using assms by (simp add: get_entry_def get_law run_simps run_ok_def)

text \<open>Reading attributes changes nothing but an expired entry, and never gives one.\<close>

lemma get_entry_cases:
  assumes "get_entry st q clock i w = Inr (r, w')"
  obtains (kept) "w' = w"
    "\<forall>entry. r = Inr (Some entry) \<longrightarrow> (\<exists>d now. lookup w i ATTRIBUTES_KEY = Some d \<and> ac_decode q d = Inr entry
       \<and> clock = Some now \<and> \<not> expired now entry)"
  | (removed) d entry now where "r = Inr None" "lookup w i ATTRIBUTES_KEY = Some d" "ac_decode q d = Inr entry"
      "clock = Some now" "expired now entry" "frame w' = frame w"
      "lookup w' = (lookup w)(i := (lookup w i)(ATTRIBUTES_KEY := None))"
proof (cases "lookup w i ATTRIBUTES_KEY")
  case None
  with assms show ?thesis by (intro kept) (auto simp: get_entry_def get_law run_simps run_ok_def)
next
  case (Some d)
  show ?thesis
  proof (cases "\<exists>entry now. ac_decode q d = Inr entry \<and> clock = Some now \<and> expired now entry")
    case True
    then obtain entry now where e: "ac_decode q d = Inr entry" "clock = Some now" "expired now entry" by blast
    obtain w'' where "st_del st i ATTRIBUTES_KEY w = Inr (Inr (), w'')"
        "lookup w'' = (lookup w)(i := (lookup w i)(ATTRIBUTES_KEY := None))" "frame w'' = frame w"
      using del_obtain .
    with assms Some e show ?thesis
      by (intro removed [of d entry now]) (simp_all add: get_entry_def get_law run_simps run_ok_def)
  next
    case False
    with assms Some show ?thesis
      by (intro kept; cases "ac_decode q d"; cases clock)
         (auto simp: get_entry_def get_law run_simps run_ok_def run_err_def)
  qed
qed

end

subsection \<open>The in-memory storage\<close>

lemma bt_get_singleton [simp]: "bt_get [(k, v)] j = (if j = k then Some v else None)"
  by (simp add: bt_get_def)

lemma mem_get_set: "mem_get (mem_set i ns d m) = (mem_get m)(i := (mem_get m i)(ns \<mapsto> d))"
  by (auto simp: fun_eq_iff mem_get_def mem_set_def bt_simps split: option.splits)

lemma mem_get_del: "mem_get (mem_del i ns m) = (mem_get m)(i := (mem_get m i)(ns := None))"
proof (cases "bt_get m ns")
  case None
  then show ?thesis by (auto simp: fun_eq_iff mem_get_def mem_del_def)
next
  case (Some a)
  have "bt_get a j = None" if "bt_remove i a = []" "j \<noteq> i" for j
    using that bt_get_remove [of i a j] by simp
  with Some show ?thesis
    by (auto simp: fun_eq_iff mem_get_def mem_del_def bt_simps Let_def)
qed

lemma set_mem_keys: "set (mem_keys m ns) = {i. mem_get m i ns \<noteq> None}"
  using bt_get_None_iff [of "the (bt_get m ns)"]
  by (cases "bt_get m ns") (auto simp: mem_keys_def mem_get_def)

interpretation ms: storage_laws in_memory "\<lambda>w. mem_get (snd w)" "fst :: 'v \<times> InMemoryStorage \<Rightarrow> 'v"
  by unfold_locales (simp_all add: in_memory_def run_ok_def mem_get_set mem_get_del set_mem_keys)

end
