(* ===== verification/Identity_World.thy ===== *)
theory Identity_World
  imports Identity_Repository
begin

text \<open>
  Vault and repository together, as \<open>Identities\<close> holds them
  (\<open>ockam_identity/src/identities/identities.rs\<close>): the state is a pair of a vault and a storage, the
  operations of the vault act on its first part.  The locale \<open>identity_world\<close> adds to the laws of both that
  neither touches the other, and is interpreted on the vault of \<open>ockam_vault\<close> beside the in-memory
  storage.
\<close>

definition lift_vault :: "('v, 'x) IdentitiesVault_scheme \<Rightarrow> ('v \<times> 's) IdentitiesVault" where
  "lift_vault vault =
     \<lparr>xx_import = (\<lambda>s att. run_fst (xx_import vault s att)), xx_delete = (\<lambda>k. run_fst (xx_delete vault k)),
      xx_attributes = (\<lambda>k. run_fst (xx_attributes vault k)),
      xx_encrypt = (\<lambda>k m n a. run_fst (xx_encrypt vault k m n a)),
      xx_decrypt = (\<lambda>k m n a. run_fst (xx_decrypt vault k m n a)),
      xx_create = (\<lambda>att. run_fst (xx_create vault att)), xx_public_key = (\<lambda>k. run_fst (xx_public_key vault k)),
      xx_diffie_hellman = (\<lambda>k pk. run_fst (xx_diffie_hellman vault k pk)),
      xx_hkdf = (\<lambda>k i ikm atts. run_fst (xx_hkdf vault k i ikm atts)),
      iv_create_persistent = (\<lambda>att. run_fst (iv_create_persistent vault att)),
      iv_key_id = (\<lambda>pk. run_fst (iv_key_id vault pk)), iv_sign = (\<lambda>k m. run_fst (iv_sign vault k m)),
      iv_verify = (\<lambda>pk m s. run_fst (iv_verify vault pk m s))\<rparr>"

type_synonym World = "Vault \<times> InMemoryStorage"

definition world_vault :: "Crypto \<Rightarrow> World IdentitiesVault" where
  "world_vault c = lift_vault (to_identities_vault c)"

locale identity_world =
  signing_vault vault verdict holds ready + storage_laws st lookup frame
  for vault :: "('w, 'x) IdentitiesVault_scheme" and verdict holds ready
    and st :: "('w, 'y) Storage_scheme" and lookup and frame :: "'w \<Rightarrow> 'f" +
  assumes holds_frame: "frame w' = frame w \<Longrightarrow> holds w' = holds w"
    and ready_frame: "frame w' = frame w \<Longrightarrow> ready b w' = ready b w"
    and create_keeps_storage: "iv_create_persistent vault att w = Inr (r, w') \<Longrightarrow> lookup w' = lookup w"
begin

lemma create_initial_key_value:
  assumes "codec_lawful p" "ready (Suc b) w"
  obtains sc w' where "create_initial_key vault p None (KeyAttributes_new label Ed25519) w = Inr (Inr [sc], w')"
    "ready b w'" "valid_history verdict p [sc]" "change_label (ch_change sc) = label"
    "\<exists>k. iv_create_persistent vault Ed25519 w = Inr (Inr k, w') \<and> holds w' k = Some (change_public_key (ch_change sc))"
    "lookup w' = lookup w"
proof -
  obtain sc w' where sc: "make_create_key_change_static vault p None (make_change_identifier p)
        (default_with_label label) None w = Inr (Inr sc, w')"
      "ready b w'" "valid_history verdict p [sc]" "change_label (ch_change sc) = label"
      "\<exists>k. iv_create_persistent vault Ed25519 w = Inr (Inr k, w') \<and> holds w' k = Some (change_public_key (ch_change sc))"
    using initial_change [OF assms] .
  have "verify_all_existing_changes vault p [sc] w' = Inr (Inr (), w')"
    using sc(3) by (simp add: verify_all_iff valid_history_def)
  then have "create_initial_key vault p None (KeyAttributes_new label Ed25519) w = Inr (Inr [sc], w')"
    using sc(1)
    by (simp add: create_initial_key_def default_with_label_def run_simps check_entire_consistency_def
        check_consistency_def run_ok_def)
  with sc that create_keeps_storage show ?thesis by blast
qed

text \<open>A new identity is owned by its creator and can be retrieved, unless something is already stored
  under its identifier.\<close>

lemma create_identity_value:
  assumes "codec_lawful p" "ready (Suc b) w"
  obtains identity w' where "owned verdict p (holds w') identity" "ready b w'"
    "\<exists>k w1. iv_create_persistent vault Ed25519 w = Inr (Inr k, w1) \<and> frame w' = frame w1"
    "lookup w (identity_identifier identity) CHANGE_HISTORY_KEY = None \<longrightarrow>
       create_identity vault p st w = Inr (Inr identity, w')
       \<and> stored_history (lookup w') p (identity_identifier identity) = Some (change_history identity)
       \<and> (\<forall>i ns. i \<noteq> identity_identifier identity \<or> ns \<noteq> CHANGE_HISTORY_KEY \<longrightarrow> lookup w' i ns = lookup w i ns)"
proof -
  obtain sc w1 where sc: "create_initial_key vault p None (KeyAttributes_new ROOT_LABEL Ed25519) w = Inr (Inr [sc], w1)"
      "ready b w1" "valid_history verdict p [sc]" "change_label (ch_change sc) = ROOT_LABEL"
      "\<exists>k. iv_create_persistent vault Ed25519 w = Inr (Inr k, w1) \<and> holds w1 k = Some (change_public_key (ch_change sc))"
      "lookup w1 = lookup w"
    using create_initial_key_value [OF assms] .
  then have made: "\<exists>k w1'. iv_create_persistent vault Ed25519 w = Inr (Inr k, w1') \<and> frame w1 = frame w1'" by blast
  define identity where "identity = Identity_new (from_public_key p (change_public_key (ch_change sc))) [sc]"
  obtain d where "ch_change (hd [sc]) = CreateKey d" using valid_history_first [OF sc(3)] .
  then have i: "compute_identity_identifier p [sc] = Inr (identity_identifier identity)"
    using compute_identity_identifier_eq [of "[sc]" d p] by (simp add: identity_def Identity_new_def)
  have own: "owned verdict p (holds w1) identity"
    using sc(3-5) by (auto simp: owned_def usable_def identity_def Identity_new_def find_last_key_change_def)
  have new: "Identity_new (identity_identifier identity) [sc] = identity" by (simp add: identity_def Identity_new_def)
  show ?thesis
  proof (cases "lookup w (identity_identifier identity) CHANGE_HISTORY_KEY = None")
    case True
    have h: "check_consistency [] (change_history identity)"
      using sc(3) by (simp add: identity_def Identity_new_def valid_history_consistent)
    have "lookup w1 (identity_identifier identity) CHANGE_HISTORY_KEY = None" using True sc(6) by simp
    from update_store [OF assms(1) h disjI1 [OF this]]
    obtain e w' where u: "update_identity st p identity w1 = Inr (Inr (), w')"
        "lookup w' = (lookup w1)(identity_identifier identity :=
           (lookup w1 (identity_identifier identity))(CHANGE_HISTORY_KEY \<mapsto> e))"
        "frame w' = frame w1" "stored_history (lookup w') p (identity_identifier identity) = Some (change_history identity)" .
    then have "create_identity vault p st w = Inr (Inr identity, w')"
      using sc(1) i new
      by (simp add: create_identity_def make_and_persist_identity_def run_simps Let_def run_ok_def)
    then show ?thesis
      using that [of w' identity] u own made sc(2,6) holds_frame [OF u(3)] ready_frame [OF u(3)] by auto
  next
    case False
    then show ?thesis by (intro that [OF own sc(2) made]) auto
  qed
qed

end

subsection \<open>The vault of \<open>ockam_vault\<close> beside the in-memory storage\<close>

lemma run_fst_Inr: "run_fst m w = Inr (r, w') \<longleftrightarrow> (\<exists>v. m (fst w) = Inr (r, v) \<and> w' = (v, snd w))"
  by (auto simp: run_fst_def split: sum.splits)

lemma run_fst_intro: "m (fst w) = Inr (r, v) \<Longrightarrow> run_fst m w = Inr (r, (v, snd w))"
  by (simp add: run_fst_Inr)

context signing_vault
begin

lemma lifted_signing: "signing_vault (lift_vault vault) verdict (\<lambda>w. holds (fst w)) (\<lambda>b w. ready b (fst w))"
proof
  show "iv_verify (lift_vault vault) pk m s w = Inr (verdict pk m s, w)" for pk m s and w :: "'v \<times> 's"
    by (simp add: lift_vault_def run_fst_Inr verify_law)
  show "ready b (fst w)" if "ready (Suc b) (fst w)" for b and w :: "'v \<times> 's"
    using that by (rule ready_less)
  show "\<exists>k pk w'. iv_create_persistent (lift_vault vault) Ed25519 w = Inr (Inr k, w') \<and> ready b (fst w')
      \<and> holds (fst w) k = None \<and> holds (fst w') = (holds (fst w))(k \<mapsto> pk)"
    if ready: "ready (Suc b) (fst w)" for b and w :: "'v \<times> 's"
  proof -
    obtain k pk v' where "iv_create_persistent vault Ed25519 (fst w) = Inr (Inr k, v')" "ready b v'"
        "holds (fst w) k = None" "holds v' = (holds (fst w))(k \<mapsto> pk)"
      using create_key_law [OF ready] by blast
    then show ?thesis by (auto simp: lift_vault_def run_fst_Inr)
  qed
  show "xx_public_key (lift_vault vault) k w = Inr (Inr pk, w)" if "holds (fst w) k = Some pk" for k pk and w :: "'v \<times> 's"
    using public_key_law [OF that] by (simp add: lift_vault_def run_fst_Inr)
  show "xx_attributes (lift_vault vault) k w = Inr (Inr Ed25519, w)" if "holds (fst w) k = Some pk" for k pk and w :: "'v \<times> 's"
    using key_attributes_law [OF that] by (simp add: lift_vault_def run_fst_Inr)
  show "iv_key_id (lift_vault vault) pk w = Inr (Inr k, w)" if "holds (fst w) k = Some pk" for k pk and w :: "'v \<times> 's"
    using key_id_law [OF that] by (simp add: lift_vault_def run_fst_Inr)
  show "\<exists>s. iv_sign (lift_vault vault) k m w = Inr (Inr s, w) \<and> verdict pk m s = Inr True"
    if "ready b (fst w)" "holds (fst w) k = Some pk" for b k pk m and w :: "'v \<times> 's"
    using sign_law [OF that, of m] by (auto simp: lift_vault_def run_fst_Inr)
qed

end

interpretation wv: identity_world "world_vault c" "vault_verdict c" "\<lambda>w. vault_holds c (fst w)"
    "\<lambda>b w. vault_ready c b (fst w)" in_memory "\<lambda>w. mem_get (snd w)" fst
proof (intro identity_world.intro)
  show "signing_vault (world_vault c) (vault_verdict c) (\<lambda>w. vault_holds c (fst w)) (\<lambda>b w. vault_ready c b (fst w))"
    unfolding world_vault_def by (rule kv.lifted_signing)
  show "storage_laws in_memory (\<lambda>w. mem_get (snd w)) fst" by (rule ms.storage_laws_axioms)
  show "identity_world_axioms (world_vault c) (\<lambda>w. vault_holds c (fst w)) (\<lambda>b w. vault_ready c b (fst w))
     (\<lambda>w. mem_get (snd w)) fst"
    by unfold_locales (auto simp: world_vault_def lift_vault_def run_fst_Inr)
qed

end
