(* ===== verification/Sample_Codec.thy ===== *)
theory Sample_Codec
  imports Identity_Owner
begin

text \<open>
  A serialization of change histories that satisfies what the identities rely on, for concrete
  instances: prefix codes built from characters and lists.
\<close>

type_synonym 'a encoder = "'a \<Rightarrow> bytes"
type_synonym 'a decoder = "bytes \<Rightarrow> ('a \<times> bytes) option"

definition prefix_code :: "'a encoder \<Rightarrow> 'a decoder \<Rightarrow> bool" where
  "prefix_code e d \<longleftrightarrow> (\<forall>x r. d (e x @ r) = Some (x, r))"

lemma prefix_codeD: "prefix_code e d \<Longrightarrow> d (e x @ r) = Some (x, r)"
  by (simp add: prefix_code_def)

definition encode_char :: "char encoder" where "encode_char x = [x]"

fun decode_char :: "char decoder" where
  "decode_char [] = None"
| "decode_char (x # r) = Some (x, r)"

lemma prefix_code_char: "prefix_code encode_char decode_char"
  by (simp add: prefix_code_def encode_char_def)

fun encode_list :: "'a encoder \<Rightarrow> 'a list encoder" where
  "encode_list e [] = ''.''"
| "encode_list e (x # xs) = CHR '','' # e x @ encode_list e xs"

fun decode_list :: "nat \<Rightarrow> 'a decoder \<Rightarrow> 'a list decoder" where
  "decode_list 0 d s = None"
| "decode_list (Suc n) d s = (case s of
     [] \<Rightarrow> None
   | x # r \<Rightarrow>
       if x = CHR ''.'' then Some ([], r)
       else (case d r of
           Some (y, r') \<Rightarrow> (case decode_list n d r' of Some (ys, r'') \<Rightarrow> Some (y # ys, r'') | None \<Rightarrow> None)
         | None \<Rightarrow> None))"

lemma decode_encode_list:
  "prefix_code e d \<Longrightarrow> length xs < n \<Longrightarrow> decode_list n d (encode_list e xs @ r) = Some (xs, r)"
  by (induction xs arbitrary: n) (auto simp: prefix_codeD less_Suc_eq_0_disj gr0_conv_Suc Suc_less_eq2)

lemma length_encode_list: "length xs < length (encode_list e xs)"
  by (induction xs) auto

lemma prefix_code_list: "prefix_code e d \<Longrightarrow> prefix_code (encode_list e) (\<lambda>s. decode_list (length s) d s)"
  unfolding prefix_code_def [of "encode_list e"]
  by (intro allI decode_encode_list) (simp_all add: trans_less_add1 length_encode_list)

abbreviation encode_string :: "string encoder" where "encode_string \<equiv> encode_list encode_char"
abbreviation decode_string :: "string decoder" where "decode_string \<equiv> (\<lambda>s. decode_list (length s) decode_char s)"

lemmas prefix_code_string = prefix_code_list [OF prefix_code_char]

subsection \<open>Change histories\<close>

fun secret_type_string :: "SecretType \<Rightarrow> string" where
  "secret_type_string BufferType = ''0''"
| "secret_type_string AesType = ''1''"
| "secret_type_string X25519Type = ''2''"
| "secret_type_string Ed25519Type = ''3''"
| "secret_type_string NistP256Type = ''4''"

definition string_secret_type :: "string \<Rightarrow> SecretType" where
  "string_secret_type s = (if s = ''0'' then BufferType else if s = ''1'' then AesType
     else if s = ''2'' then X25519Type else if s = ''3'' then Ed25519Type else NistP256Type)"

definition string_u32 :: "string \<Rightarrow> u32" where
  "string_u32 s = (case parse_digits (2 ^ 32) 0 s of Inr n \<Rightarrow> word_of_nat n | Inl _ \<Rightarrow> 0)"

text \<open>A change as a pair of a tag and a tuple of strings.\<close>

definition attributes_strings :: "SecretAttributesV1 \<Rightarrow> string list" where
  "attributes_strings a = [secret_type_string (v1_stype a),
     (if v1_persistence a = Ephemeral then ''0'' else ''1''), show_nat (unat (v1_length a))]"

definition strings_attributes :: "string list \<Rightarrow> SecretAttributesV1" where
  "strings_attributes ss = \<lparr>v1_stype = string_secret_type (ss ! 0),
     v1_persistence = (if ss ! 1 = ''0'' then Ephemeral else Persistent), v1_length = string_u32 (ss ! 2)\<rparr>"

definition change_strings :: "IdentityChange \<Rightarrow> string list" where
  "change_strings ch = [(case ch of CreateKey _ \<Rightarrow> ''0'' | RotateKey _ \<Rightarrow> ''1''),
     kc_prev_change_id (change_data ch), ka_label (kc_key_attributes (change_data ch)),
     data (kc_public_key (change_data ch)), secret_type_string (stype (kc_public_key (change_data ch)))]
     @ attributes_strings (ka_secret_attributes (kc_key_attributes (change_data ch)))"

definition strings_change :: "string list \<Rightarrow> IdentityChange" where
  "strings_change ss = (let d = \<lparr>kc_prev_change_id = ss ! 1,
       kc_key_attributes = \<lparr>ka_label = ss ! 2, ka_secret_attributes = strings_attributes (drop 5 ss)\<rparr>,
       kc_public_key = \<lparr>data = ss ! 3, stype = string_secret_type (ss ! 4)\<rparr>\<rparr>
     in if ss ! 0 = ''0'' then CreateKey d else RotateKey d)"

fun signature_strings :: "ChangeSignature \<Rightarrow> string list" where
  "signature_strings s = [(case sig_type s of RootSign \<Rightarrow> ''0'' | SelfSign \<Rightarrow> ''1'' | PrevSign \<Rightarrow> ''2''), sig_data s]"

definition strings_signature :: "string list \<Rightarrow> ChangeSignature" where
  "strings_signature ss = \<lparr>sig_type = (if ss ! 0 = ''0'' then RootSign else if ss ! 0 = ''1'' then SelfSign
     else PrevSign), sig_data = ss ! 1\<rparr>"

definition signed_change_strings :: "IdentitySignedChange \<Rightarrow> string list list" where
  "signed_change_strings sc =
     [ch_identifier sc] # change_strings (ch_change sc) # map signature_strings (ch_signatures sc)"

definition strings_signed_change :: "string list list \<Rightarrow> IdentitySignedChange" where
  "strings_signed_change ss = \<lparr>ch_identifier = ss ! 0 ! 0, ch_change = strings_change (ss ! 1),
     ch_signatures = map strings_signature (drop 2 ss)\<rparr>"

lemma string_secret_type_inverse [simp]: "string_secret_type (secret_type_string t) = t"
  by (cases t) (simp_all add: string_secret_type_def)

lemma string_u32_inverse [simp]: "string_u32 (show_nat (unat w)) = w"
proof -
  have "unat w \<le> 2 ^ 32" using unsigned_less [of w, where 'a = nat] by simp
  then show ?thesis by (simp add: string_u32_def parse_digits_show_nat)
qed

lemma strings_attributes_inverse [simp]: "strings_attributes (attributes_strings a) = a"
  by (cases a; cases "v1_persistence a") (simp_all add: strings_attributes_def attributes_strings_def)

lemma strings_change_inverse [simp]: "strings_change (change_strings ch) = ch"
  by (cases ch) (simp_all add: strings_change_def change_strings_def Let_def eval_nat_numeral)

lemma strings_signature_inverse [simp]: "strings_signature (signature_strings s) = s"
  by (cases s; cases "sig_type s") (simp_all add: strings_signature_def)

lemma strings_signed_change_inverse [simp]: "strings_signed_change (signed_change_strings sc) = sc"
  by (cases sc) (simp add: strings_signed_change_def signed_change_strings_def eval_nat_numeral
    comp_def del: signature_strings.simps)

definition sample_encode_history :: "IdentityChangeHistory encoder" where
  "sample_encode_history h = encode_list (encode_list (encode_list encode_string)) (map signed_change_strings h)"

definition sample_decode_history :: "bytes \<Rightarrow> IdentityChangeHistory option" where
  "sample_decode_history s =
     map_option (\<lambda>(h, r). map strings_signed_change h)
       (decode_list (length s) (\<lambda>s. decode_list (length s) (\<lambda>s. decode_list (length s) decode_string s) s) s)"

lemma sample_history_roundtrip: "sample_decode_history (sample_encode_history h) = Some h"
proof -
  have "prefix_code (encode_list (encode_list (encode_list encode_string)))
     (\<lambda>s. decode_list (length s) (\<lambda>s. decode_list (length s) (\<lambda>s. decode_list (length s) decode_string s) s) s)"
    by (intro prefix_code_list prefix_code_string)
  from prefix_codeD [OF this, of "map signed_change_strings h" "[]"] show ?thesis
    by (simp add: sample_decode_history_def sample_encode_history_def comp_def)
qed

definition sample_codec :: IdentityCodec where
  "sample_codec =
     \<lparr>ic_sha256 = sha256_digest sample_crypto, ic_hex_encode = hex_encode sample_crypto,
      ic_hex_decode = (\<lambda>s. None),
      ic_encode_change = (\<lambda>ch. Some (encode_list encode_string (change_strings ch))),
      ic_encode_history = (\<lambda>h. Some (sample_encode_history h)), ic_decode_history = sample_decode_history\<rparr>"

lemma sample_codec_lawful: "codec_lawful sample_codec"
  by (simp add: codec_lawful_def sample_codec_def sample_history_roundtrip)

subsection \<open>A vault with a random generator\<close>

lemma sample_ed25519: "ed25519_lawful sample_crypto"
  by (auto simp: ed25519_lawful_def sample_crypto_def min_def)

lemma sample_signing_id: "signing_id sample_crypto sample_vault i = replicate 64 (char_of i)"
  by (simp add: signing_id_def compute_key_id_for_public_key_def ed25519_key_def PublicKey_new_def
      sample_crypto_def sample_vault_def numeral_eq_Suc)

lemma sample_vault_ready:
  assumes "b \<le> 256"
  shows "vault_ready sample_crypto b sample_vault"
proof -
  have "inj_on (signing_id sample_crypto sample_vault) {0..<b}"
  proof (rule inj_onI)
    fix i j assume ij: "i \<in> {0..<b}" "j \<in> {0..<b}"
      "signing_id sample_crypto sample_vault i = signing_id sample_crypto sample_vault j"
    then have "of_char (char_of i :: char) = (of_char (char_of j :: char) :: nat)" by (simp add: sample_signing_id)
    then show "i = j" using ij assms by simp
  qed
  moreover have "stored_secret sample_vault (replicate 64 x) = None" for x
    by (simp add: stored_secret_def sample_vault_def bt_get_def numeral_eq_Suc)
  ultimately show ?thesis
    using sample_ed25519 by (simp add: vault_ready_def sample_signing_id) (simp add: sample_vault_def)
qed

end
