(* ===== verification/Identity_Laws.thy ===== *)
theory Identity_Laws
  imports Identity_World Sample_Codec
begin

text \<open>
  What holds of identities over their whole life: which exported histories are accepted, what the owner
  keeps under any sequence of key operations, and how the repository treats the histories its peers
  present.
\<close>

subsection \<open>Sequences of operations\<close>

datatype KeyOp = CreateOp string | RotateOp string | RotateRootOp

definition run_key_op ::
  "('v, 'x) IdentitiesVault_scheme \<Rightarrow> IdentityCodec \<Rightarrow> KeyOp \<Rightarrow> ('v, unit) identity_run" where
  "run_key_op vault p op = (case op of
     CreateOp label \<Rightarrow> create_key vault p label
   | RotateOp label \<Rightarrow> rotate_key vault p label
   | RotateRootOp \<Rightarrow> rotate_root_key vault p)"

text \<open>The caller goes on whether or not an operation fails.\<close>

definition run_key_ops ::
  "('v, 'x) IdentitiesVault_scheme \<Rightarrow> IdentityCodec \<Rightarrow> KeyOp list \<Rightarrow> ('v, unit) identity_run" where
  "run_key_ops vault p ops = run_each (\<lambda>op. run_bind (run_try (run_key_op vault p op)) (\<lambda>_. run_ok ())) ops"

definition run_updates ::
  "('w, 'y) Storage_scheme \<Rightarrow> IdentityCodec \<Rightarrow> Identity list \<Rightarrow> ('w, error, unit) state_exec" where
  "run_updates st p identities = run_each (\<lambda>identity. run_bind (run_try (update_identity st p identity)) (\<lambda>_. run_ok ())) identities"

lemma rotate_root_key_eq: "rotate_root_key vault p = rotate_key vault p ROOT_LABEL"
  by (simp add: rotate_root_key_def rotate_key_def)

context signing_vault
begin

definition keeps_owned :: "IdentityCodec \<Rightarrow> nat \<Rightarrow> ('v, unit) identity_run \<Rightarrow> 'v \<Rightarrow> Identity \<Rightarrow> bool" where
  "keeps_owned p b m v identity \<longleftrightarrow> (\<exists>r v' cs. m (v, identity)
      = Inr (r, (v', identity\<lparr>change_history := change_history identity @ cs\<rparr>)) \<and> ready b v'
    \<and> owned verdict p (holds v') (identity\<lparr>change_history := change_history identity @ cs\<rparr>))"

lemma keeps_owned_same:
  "m (v, identity) = Inr (r, (v, identity)) \<Longrightarrow> ready (Suc b) v \<Longrightarrow> owned verdict p (holds v) identity \<Longrightarrow>
   keeps_owned p b m v identity"
  unfolding keeps_owned_def by (rule exI [of _ r], rule exI [of _ v], rule exI [of _ "[]"]) (simp add: ready_less)

lemma rotate_keeps_owned:
  assumes "codec_lawful p" "ready (Suc b) v" "owned verdict p (holds v) identity"
  shows "keeps_owned p b (rotate_key vault p label) v identity"
proof (cases "find_last_key_change (change_history identity) label")
  case (Inl e)
  then show ?thesis using rotate_key_outcome [OF assms, of label] keeps_owned_same assms by fastforce
next
  case (Inr old)
  then show ?thesis
    using rotate_key_outcome [OF assms, of label] unfolding keeps_owned_def by auto
qed

lemma key_op_keeps_owned:
  assumes "codec_lawful p" "ready (Suc b) v" "owned verdict p (holds v) identity"
  shows "keeps_owned p b (run_key_op vault p op) v identity"
proof (cases op)
  case (CreateOp label)
  then show ?thesis
    using create_key_outcome [OF assms, of label] keeps_owned_same [OF _ assms(2,3)]
    by (cases "is_ok (find_last_key_change (change_history identity) label)")
       (auto simp: run_key_op_def keeps_owned_def)
qed (simp_all add: run_key_op_def rotate_root_key_eq rotate_keeps_owned [OF assms])

lemma key_ops_keep_owned:
  assumes "codec_lawful p" "ready (length ops + b) v" "owned verdict p (holds v) identity"
  shows "\<exists>v' cs. run_key_ops vault p ops (v, identity)
      = Inr (Inr (), (v', identity\<lparr>change_history := change_history identity @ cs\<rparr>)) \<and> ready b v'
    \<and> owned verdict p (holds v') (identity\<lparr>change_history := change_history identity @ cs\<rparr>)"
  using assms(2,3)
proof (induction ops arbitrary: v identity)
  case Nil
  then show ?case by (intro exI [of _ v] exI [of _ "[]"]) (simp add: run_key_ops_def run_ok_def)
next
  case (Cons op ops)
  obtain r v1 cs where 1: "run_key_op vault p op (v, identity)
        = Inr (r, (v1, identity\<lparr>change_history := change_history identity @ cs\<rparr>))"
      "ready (length ops + b) v1"
      "owned verdict p (holds v1) (identity\<lparr>change_history := change_history identity @ cs\<rparr>)"
    using key_op_keeps_owned [OF assms(1), of "length ops + b" v identity op] Cons.prems
    unfolding keeps_owned_def by auto
  obtain v2 cs' where "run_key_ops vault p ops (v1, identity\<lparr>change_history := change_history identity @ cs\<rparr>)
        = Inr (Inr (), (v2, identity\<lparr>change_history := change_history identity @ cs @ cs'\<rparr>))"
      "ready b v2" "owned verdict p (holds v2) (identity\<lparr>change_history := change_history identity @ cs @ cs'\<rparr>)"
    using Cons.IH [OF 1(2,3)] by auto
  with 1(1) show ?case
    by (intro exI [of _ v2] exI [of _ "cs @ cs'"]) (simp add: run_key_ops_def run_simps run_ok_def)
qed

lemma owned_export:
  assumes "codec_lawful p" "owned verdict p held identity"
  obtains d where "history_export p (change_history identity) = Inr d"
    "\<forall>v. decode_identity vault p d v = Inr (Inr identity, v)"
proof -
  obtain d where "ic_encode_history p (change_history identity) = Some d"
      "ic_decode_history p d = Some (change_history identity)"
    using assms(1) by (auto simp: codec_lawful_def)
  with assms(2) that show ?thesis by (simp add: decode_identity_iff owned_def history_export_eq_Inr)
qed

end

context storage_laws
begin

lemma updates_monotone:
  assumes "codec_lawful p" "\<forall>identity \<in> set identities. check_consistency [] (change_history identity)"
  shows "\<exists>w'. run_updates st p identities w = Inr (Inr (), w') \<and> frame w' = frame w
    \<and> (\<forall>i ns. ns \<noteq> CHANGE_HISTORY_KEY \<longrightarrow> lookup w' i ns = lookup w i ns)
    \<and> (\<forall>i h. stored_history (lookup w) p i = Some h \<longrightarrow> (\<exists>h'. stored_history (lookup w') p i = Some h'
          \<and> prefix (map ch_identifier h) (map ch_identifier h')))"
  using assms(2)
proof (induction identities arbitrary: w)
  case Nil
  then show ?case by (simp add: run_updates_def run_ok_def)
next
  case (Cons identity identities)
  have c: "check_consistency [] (change_history identity)" using Cons.prems by simp
  obtain r w1 where u: "update_identity st p identity w = Inr (r, w1)"
    using update_returns [OF assms(1) c] by blast
  have w1: "frame w1 = frame w" "\<forall>i ns. ns \<noteq> CHANGE_HISTORY_KEY \<longrightarrow> lookup w1 i ns = lookup w i ns"
    using update_cases [OF assms(1) c u] by (metis, metis fun_upd_apply)
  obtain w' where w': "run_updates st p identities w1 = Inr (Inr (), w')" "frame w' = frame w1"
      "\<forall>i ns. ns \<noteq> CHANGE_HISTORY_KEY \<longrightarrow> lookup w' i ns = lookup w1 i ns"
      "\<forall>i h. stored_history (lookup w1) p i = Some h \<longrightarrow> (\<exists>h'. stored_history (lookup w') p i = Some h'
          \<and> prefix (map ch_identifier h) (map ch_identifier h'))"
    using Cons.IH [of w1] Cons.prems by auto
  have "run_updates st p (identity # identities) w = Inr (Inr (), w')"
    using u w'(1) by (simp add: run_updates_def run_simps run_ok_def)
  moreover have "\<exists>h'. stored_history (lookup w') p i = Some h' \<and> prefix (map ch_identifier h) (map ch_identifier h')"
    if "stored_history (lookup w) p i = Some h" for i h
    using update_monotone [OF assms(1) c u that] w'(4) prefix_order.trans by metis
  ultimately show ?case using w1 w'(2,3) by auto
qed

end

text \<open>A new identity in a new repository.\<close>

lemma new_identity:
  assumes "codec_lawful p" "vault_ready c (Suc b) v"
  obtains identity w where "create_identity (world_vault c) p in_memory (v, []) = Inr (Inr identity, w)"
    "owned (vault_verdict c) p (vault_holds c (fst w)) identity" "vault_ready c b (fst w)"
    "stored_history (mem_get (snd w)) p (identity_identifier identity) = Some (change_history identity)"
    "fst w = with_signing_key c v"
    "\<forall>i. i \<noteq> identity_identifier identity \<longrightarrow> mem_get (snd w) i CHANGE_HISTORY_KEY = None"
proof -
  have r: "vault_ready c (Suc b) (fst (v, [] :: InMemoryStorage))" using assms(2) by simp
  obtain identity w where i: "owned (vault_verdict c) p (vault_holds c (fst w)) identity" "vault_ready c b (fst w)"
      "\<exists>k w1. iv_create_persistent (world_vault c) Ed25519 (v, [] :: InMemoryStorage) = Inr (Inr k, w1) \<and> fst w = fst w1"
      "mem_get (snd (v, [])) (identity_identifier identity) CHANGE_HISTORY_KEY = None \<longrightarrow>
       create_identity (world_vault c) p in_memory (v, []) = Inr (Inr identity, w)
       \<and> stored_history (mem_get (snd w)) p (identity_identifier identity) = Some (change_history identity)
       \<and> (\<forall>i ns. i \<noteq> identity_identifier identity \<or> ns \<noteq> CHANGE_HISTORY_KEY \<longrightarrow>
             mem_get (snd w) i ns = mem_get (snd (v, [])) i ns)"
    using wv.create_identity_value [OF assms(1) r] .
  have "length (rng v (draws v) 32) = 32" using assms(2) by (simp add: vault_ready_def)
  with i(3) have "fst w = with_signing_key c v"
    by (auto simp: world_vault_def lift_vault_def run_fst_Inr to_identities_vault_def create_signing_secret)
  moreover from i(4) have "create_identity (world_vault c) p in_memory (v, []) = Inr (Inr identity, w)"
      "stored_history (mem_get (snd w)) p (identity_identifier identity) = Some (change_history identity)"
      "\<forall>i. i \<noteq> identity_identifier identity \<longrightarrow> mem_get (snd w) i CHANGE_HISTORY_KEY = None"
    by (auto simp: mem_get_def)
  ultimately show ?thesis using i(1,2) that by blast
qed

subsection \<open>Properties\<close>




text \<open>C13: whatever consistent histories peers present, in any order, updating the repository never
  panics, touches nothing but stored histories, and never shortens or replaces a stored history: what
  is stored for an identity afterwards extends what was stored before.\<close>

theorem repository_monotone:
  assumes "codec_lawful p" "\<forall>identity \<in> set identities. check_consistency [] (change_history identity)"
  shows "\<exists>w'. run_updates in_memory p identities w = Inr (Inr (), w') \<and> fst w' = fst w
    \<and> (\<forall>i ns. ns \<noteq> CHANGE_HISTORY_KEY \<longrightarrow> mem_get (snd w') i ns = mem_get (snd w) i ns)
    \<and> (\<forall>i h. stored_history (mem_get (snd w)) p i = Some h \<longrightarrow>
         (\<exists>h'. stored_history (mem_get (snd w')) p i = Some h' \<and> prefix (map ch_identifier h) (map ch_identifier h')))"
  using ms.updates_monotone [OF assms] .

definition sample_change :: "string \<Rightarrow> string \<Rightarrow> IdentitySignedChange" where
  "sample_change i prev = \<lparr>ch_identifier = i, ch_change = CreateKey \<lparr>kc_prev_change_id = prev,
     kc_key_attributes = default_with_label i, kc_public_key = PublicKey_new i Ed25519Type\<rparr>, ch_signatures = []\<rparr>"

theorem repository_monotone_witness:
  "\<exists>w' h'. run_updates in_memory sample_codec
       [Identity_new ''P'' [sample_change ''b'' []], Identity_new ''P'' [sample_change ''a'' [], sample_change ''c'' ''a''],
        Identity_new ''P'' [sample_change ''a'' []]]
       (sample_vault, [(CHANGE_HISTORY_KEY, [(''P'', sample_encode_history [sample_change ''a'' []])])])
     = Inr (Inr (), w')
   \<and> stored_history (mem_get (snd w')) sample_codec ''P'' = Some h' \<and> prefix [''a''] (map ch_identifier h')"
proof -
  let ?ids = "[Identity_new ''P'' [sample_change ''b'' []], Identity_new ''P'' [sample_change ''a'' [], sample_change ''c'' ''a''],
        Identity_new ''P'' [sample_change ''a'' []]]"
  let ?w = "(sample_vault, [(CHANGE_HISTORY_KEY, [(''P'', sample_encode_history [sample_change ''a'' []])])])"
  have c: "\<forall>identity \<in> set ?ids. check_consistency [] (change_history identity)"
    by (simp add: check_consistency_def Identity_new_def sample_change_def previous_change_identifier_def)
  have "history_import sample_codec (sample_encode_history [sample_change ''a'' []]) = Inr [sample_change ''a'' []]"
    by (simp add: history_import_eq_Inr sample_codec_def sample_history_roundtrip check_consistency_def)
  then have s: "stored_history (mem_get (snd ?w)) sample_codec ''P'' = Some [sample_change ''a'' []]"
    by (simp add: stored_history_def mem_get_def)
  from repository_monotone [OF sample_codec_lawful c, of ?w] obtain w' where
      "run_updates in_memory sample_codec ?ids ?w = Inr (Inr (), w')"
      "\<forall>i h. stored_history (mem_get (snd ?w)) sample_codec i = Some h \<longrightarrow>
         (\<exists>h'. stored_history (mem_get (snd w')) sample_codec i = Some h' \<and> prefix (map ch_identifier h) (map ch_identifier h'))"
    by (elim exE conjE)
  with s show ?thesis by (force simp: sample_change_def)
qed

end
