(* ===== verification/Credentials.thy ===== *)
theory Credentials
  imports Identity_Laws
begin

text \<open>
  Credentials (\<open>ockam_identity/src/credential\<close>, \<open>ockam_identity/src/credentials/credentials.rs\<close>,
  \<open>trust_context.rs\<close>, \<open>authority_service.rs\<close>): attribute sets an authority signs for a subject,
  with a time of expiry.  They are built, issued, verified, presented and stored, and kept in the
  cache of an authority.  The CBOR codec and the system time are parameters.
\<close>

subsection \<open>Credential data\<close>

record CredentialData =
  cd_schema :: "u64 option"
  cd_attributes :: "(string, bytes) btree_map"
  cd_subject :: IdentityIdentifier
  cd_issuer :: IdentityIdentifier
  cd_issuer_key_label :: string
  cd_created :: Timestamp
  cd_expires :: Timestamp

record Credential =
  cred_data :: bytes
  cred_signature :: bytes

record CredentialCodec =
  cc_encode :: "CredentialData \<Rightarrow> error + bytes"
  cc_decode :: "bytes \<Rightarrow> error + CredentialData"

definition invalid :: error where
  "invalid = ErrorCode_new OriginApplication KindInvalid"

definition CredentialData_verify ::
  "CredentialData \<Rightarrow> IdentityIdentifier \<Rightarrow> IdentityIdentifier \<Rightarrow> Timestamp \<Rightarrow> error + unit" where
  "CredentialData_verify self subject issuer now =
     (if cd_issuer_key_label self \<noteq> ROOT_LABEL then Inl invalid
      else if cd_issuer self \<noteq> issuer then Inl invalid
      else if cd_subject self \<noteq> subject then Inl invalid
      else if cd_expires self \<le> now then Inl invalid
      else Inr ())"

definition elapsed :: "Timestamp \<Rightarrow> Timestamp \<Rightarrow> u64 option" where
  "elapsed self since = (if since \<le> self then Some (self - since) else None)"

subsection \<open>Building credential data\<close>

text \<open>Durations are in nanoseconds.\<close>

definition MAX_CREDENTIAL_VALIDITY :: nat where
  "MAX_CREDENTIAL_VALIDITY = 30 * 24 * 3600 * 10 ^ 9"

record CredentialBuilder =
  cb_schema :: "u64 option"
  cb_attrs :: "(string, bytes) btree_map"
  cb_subject :: IdentityIdentifier
  cb_issuer :: IdentityIdentifier
  cb_validity :: nat

definition CredentialBuilder_new :: "IdentityIdentifier \<Rightarrow> IdentityIdentifier \<Rightarrow> CredentialBuilder" where
  "CredentialBuilder_new subject issuer = \<lparr>cb_schema = None, cb_attrs = [], cb_subject = subject,
     cb_issuer = issuer, cb_validity = MAX_CREDENTIAL_VALIDITY\<rparr>"

definition with_attribute :: "string \<Rightarrow> bytes \<Rightarrow> CredentialBuilder \<Rightarrow> CredentialBuilder" where
  "with_attribute k v self = self\<lparr>cb_attrs := bt_insert k v (cb_attrs self)\<rparr>"

text \<open>The entries of the hash map come in the order of its iterator.\<close>

definition from_attributes ::
  "IdentityIdentifier \<Rightarrow> IdentityIdentifier \<Rightarrow> (string \<times> string) list \<Rightarrow> CredentialBuilder" where
  "from_attributes subject issuer attrs =
     fold (\<lambda>(k, v). with_attribute k v) attrs (CredentialBuilder_new subject issuer)"

definition with_schema :: "u64 \<Rightarrow> CredentialBuilder \<Rightarrow> CredentialBuilder" where
  "with_schema s self = self\<lparr>cb_schema := Some s\<rparr>"

definition valid_for :: "nat \<Rightarrow> CredentialBuilder \<Rightarrow> CredentialBuilder exec" where
  "valid_for val self =
     (if val \<le> MAX_CREDENTIAL_VALIDITY then Inr (self\<lparr>cb_validity := val\<rparr>)
      else Inl (Panic ''validity exceeds allowed maximum''))"

definition builder_build :: "Timestamp option \<Rightarrow> CredentialBuilder \<Rightarrow> error + CredentialData" where
  "builder_build clock self =
     result_map (\<lambda>now. \<lparr>cd_schema = cb_schema self, cd_attributes = cb_attrs self, cd_subject = cb_subject self,
         cd_issuer = cb_issuer self, cd_issuer_key_label = ROOT_LABEL, cd_created = now,
         cd_expires = add_seconds now (word_of_nat (cb_validity self div 10 ^ 9))\<rparr>)
       (ok_or clock (ErrorCode_new OriginCore KindInternal))"

subsection \<open>Issuing, verifying and receiving credentials\<close>

definition verify_credential ::
  "('w, 'x) IdentitiesVault_scheme \<Rightarrow> CredentialCodec \<Rightarrow> Timestamp option \<Rightarrow> IdentityIdentifier \<Rightarrow> Identity list
   \<Rightarrow> Credential \<Rightarrow> ('w, error, CredentialData) state_exec" where
  "verify_credential vault cc clock subject authorities credential =
     run_bind (run_result (cc_decode cc (cred_data credential))) (\<lambda>credential_data.
     case find (\<lambda>x. identity_identifier x = cd_issuer credential_data) authorities of
       None \<Rightarrow> run_err (identity_error UnknownAuthority)
     | Some issuer \<Rightarrow>
         run_bind (run_result (ok_or clock invalid)) (\<lambda>now.
         run_bind (run_result (CredentialData_verify credential_data subject (identity_identifier issuer) now)) (\<lambda>_.
         run_bind (identity_verify_signature vault issuer (cred_signature credential) (cred_data credential)
             (Some (cd_issuer_key_label credential_data))) (\<lambda>verified.
         if \<not> verified then run_err invalid else run_ok credential_data))))"

definition issue_credential ::
  "('w, 'x) IdentitiesVault_scheme \<Rightarrow> IdentityCodec \<Rightarrow> ('w, 'y) Storage_scheme \<Rightarrow> CredentialCodec
   \<Rightarrow> IdentityIdentifier \<Rightarrow> CredentialData \<Rightarrow> ('w, error, Credential) state_exec" where
  "issue_credential vault p st cc issuer credential_data =
     run_bind (run_result (cc_encode cc credential_data)) (\<lambda>b.
     run_bind (get_identity st p issuer) (\<lambda>issuer_identity.
     run_bind (create_signature vault issuer_identity b None) (\<lambda>sig.
     run_ok \<lparr>cred_data = b, cred_signature = sig\<rparr>)))"

text \<open>The system time is read once for the verification and once, unwrapped, for the stored entry.\<close>

definition receive_presented_credential ::
  "('w, 'x) IdentitiesVault_scheme \<Rightarrow> ('w, 'y) Storage_scheme \<Rightarrow> AttributesCodec \<Rightarrow> CredentialCodec
   \<Rightarrow> Timestamp option \<Rightarrow> Timestamp option \<Rightarrow> IdentityIdentifier \<Rightarrow> Identity list \<Rightarrow> Credential
   \<Rightarrow> ('w, error, unit) state_exec" where
  "receive_presented_credential vault st q cc clock clock' sender authorities credential =
     run_bind (verify_credential vault cc clock sender authorities credential) (\<lambda>credential_data.
     case clock' of
       None \<Rightarrow> run_panic ''called Option::unwrap() on a None value''
     | Some now \<Rightarrow> put_attributes st q sender
         \<lparr>ae_attrs = cd_attributes credential_data, ae_added = now,
          ae_expires = Some (cd_expires credential_data), ae_attested_by = Some (cd_issuer credential_data)\<rparr>)"

subsection \<open>Authorities\<close>

record CachedCredential =
  cache_credential :: Credential
  cache_valid_until :: Timestamp

record AuthorityService =
  as_identifier :: IdentityIdentifier
  as_cache :: "CachedCredential option"

text \<open>\<open>AuthorityService::credential\<close>: the cached credential while it is valid for a minute more, otherwise
  one from the retriever that verifies.  The service with its cache is the second part of the state.\<close>

definition retrieve_credential ::
  "('w, 'x) IdentitiesVault_scheme \<Rightarrow> IdentityCodec \<Rightarrow> ('w, 'y) Storage_scheme \<Rightarrow> CredentialCodec
   \<Rightarrow> (IdentityIdentifier \<Rightarrow> ('w, error, Credential) state_exec) option \<Rightarrow> Timestamp option
   \<Rightarrow> IdentityIdentifier \<Rightarrow> AuthorityService \<Rightarrow> ('w \<times> AuthorityService, error, Credential) state_exec" where
  "retrieve_credential vault p st cc own_credential clock for_identity self =
     run_bind (run_result (ok_or own_credential (identity_error UnknownAuthority))) (\<lambda>retriever.
     run_bind (run_fst (retriever for_identity)) (\<lambda>credential.
     run_bind (run_fst (get_identity st p (as_identifier self))) (\<lambda>authority.
     run_bind (run_fst (verify_credential vault cc clock for_identity [authority] credential)) (\<lambda>credential_data.
     run_then (run_put (self\<lparr>as_cache := Some
       \<lparr>cache_credential = credential, cache_valid_until = cd_expires credential_data\<rparr>\<rparr>))
     (run_ok credential)))))"

definition authority_credential ::
  "('w, 'x) IdentitiesVault_scheme \<Rightarrow> IdentityCodec \<Rightarrow> ('w, 'y) Storage_scheme \<Rightarrow> CredentialCodec
   \<Rightarrow> (IdentityIdentifier \<Rightarrow> ('w, error, Credential) state_exec) option \<Rightarrow> Timestamp option \<Rightarrow> Timestamp option
   \<Rightarrow> IdentityIdentifier \<Rightarrow> ('w \<times> AuthorityService, error, Credential) state_exec" where
  "authority_credential vault p st cc own_credential clock clock' for_identity =
     run_bind run_get (\<lambda>self.
     run_bind (run_result (ok_or clock invalid)) (\<lambda>now.
     case as_cache self of
       Some cache \<Rightarrow> if add_seconds now 60 < cache_valid_until cache then run_ok (cache_credential cache)
         else retrieve_credential vault p st cc own_credential clock' for_identity self
     | None \<Rightarrow> retrieve_credential vault p st cc own_credential clock' for_identity self))"

subsection \<open>What is accepted\<close>

text \<open>An authority vouches for credential data at a time: it is the issuer, the credential is for the
  subject, not expired, and signed with the current root key of the authority.\<close>

definition vouched ::
  "(PublicKey \<Rightarrow> bytes \<Rightarrow> bytes \<Rightarrow> error + bool) \<Rightarrow> CredentialCodec \<Rightarrow> Timestamp \<Rightarrow> IdentityIdentifier \<Rightarrow> Identity
   \<Rightarrow> Credential \<Rightarrow> CredentialData \<Rightarrow> bool" where
  "vouched verdict cc now subject authority credential cd \<longleftrightarrow>
     cc_decode cc (cred_data credential) = Inr cd \<and> cd_issuer cd = identity_identifier authority
     \<and> cd_subject cd = subject \<and> now < cd_expires cd \<and> cd_issuer_key_label cd = ROOT_LABEL
     \<and> (\<exists>pk. get_public_key_static (change_history authority) ROOT_LABEL = Inr pk
          \<and> verdict pk (cred_data credential) (cred_signature credential) = Inr True)"

lemma CredentialData_verify_iff:
  "CredentialData_verify cd subject issuer now = Inr () \<longleftrightarrow> cd_issuer_key_label cd = ROOT_LABEL
     \<and> cd_issuer cd = issuer \<and> cd_subject cd = subject \<and> now < cd_expires cd"
  by (auto simp: CredentialData_verify_def)

lemma verify_credential_decodes:
  "verify_credential vault cc clock subject authorities credential w = Inr (Inr cd, w')
   \<Longrightarrow> cc_decode cc (cred_data credential) = Inr cd"
  unfolding verify_credential_def
  by (auto elim!: run_bind_cases simp: run_result_def run_err_def run_ok_def
      split: sum.splits option.splits if_splits)

context signature_verifier
begin

lemma identity_verify_value:
  "identity_verify_signature vault identity s d (Some label) w
   = Inr (case get_public_key_static (change_history identity) label of
       Inr pk \<Rightarrow> verdict pk d s | Inl e \<Rightarrow> Inl e, w)"
  by (cases "get_public_key_static (change_history identity) label")
     (simp_all add: identity_verify_signature_def Identity_get_public_key_def run_simps run_err_def verify_law)

lemma verify_credential_pure: "\<exists>r. \<forall>w. verify_credential vault cc clock subject authorities credential w = Inr (r, w)"
proof (cases "cc_decode cc (cred_data credential)")
  case (Inr cd)
  show ?thesis
  proof (cases "find (\<lambda>x. identity_identifier x = cd_issuer cd) authorities")
    case (Some issuer)
    obtain r where r: "\<And>w. identity_verify_signature vault issuer (cred_signature credential) (cred_data credential)
        (Some (cd_issuer_key_label cd)) w = Inr (r, w)"
      using identity_verify_value by blast
    show ?thesis
      by (cases clock; cases "CredentialData_verify cd subject (identity_identifier issuer) (the clock)"; cases r)
         (auto simp: verify_credential_def Inr Some r run_simps run_err_def run_ok_def)
  qed (auto simp: verify_credential_def Inr run_simps run_err_def)
qed (auto simp: verify_credential_def run_simps run_err_def)

lemma verify_credential_iff:
  "verify_credential vault cc clock subject authorities credential w = Inr (Inr cd, w) \<longleftrightarrow>
     (\<exists>authority now. find (\<lambda>x. identity_identifier x = cd_issuer cd) authorities = Some authority
        \<and> clock = Some now \<and> vouched verdict cc now subject authority credential cd)"
proof (cases "cc_decode cc (cred_data credential) = Inr cd
    \<and> (\<exists>issuer now. find (\<lambda>x. identity_identifier x = cd_issuer cd) authorities = Some issuer \<and> clock = Some now)")
  case True
  then obtain issuer now where i: "cc_decode cc (cred_data credential) = Inr cd" "clock = Some now"
      "find (\<lambda>x. identity_identifier x = cd_issuer cd) authorities = Some issuer" by blast
  then have issuer: "identity_identifier issuer = cd_issuer cd" by (auto simp: find_Some_iff)
  have "verify_credential vault cc clock subject authorities credential w = Inr (Inr cd, w) \<longleftrightarrow>
      CredentialData_verify cd subject (cd_issuer cd) now = Inr () \<and>
      identity_verify_signature vault issuer (cred_signature credential) (cred_data credential)
        (Some (cd_issuer_key_label cd)) w = Inr (Inr True, w)"
    using i issuer identity_verify_value [of issuer "cred_signature credential" "cred_data credential" "cd_issuer_key_label cd" w]
    by (cases "CredentialData_verify cd subject (cd_issuer cd) now")
       (auto simp: verify_credential_def run_simps run_bind_def run_err_def run_ok_def split: sum.splits)
  also have "\<dots> \<longleftrightarrow> vouched verdict cc now subject issuer credential cd"
    using i(1) issuer
    by (auto simp: vouched_def CredentialData_verify_iff identity_verify_value split: sum.splits)
  finally show ?thesis using i by simp
next
  case False
  have "cc_decode cc (cred_data credential) = Inr cd" if "verify_credential vault cc clock subject authorities credential w = Inr (Inr cd, w)"
    by (rule verify_credential_decodes [OF that])
  moreover have "\<exists>issuer now. find (\<lambda>x. identity_identifier x = cd_issuer cd) authorities = Some issuer \<and> clock = Some now"
    if "cc_decode cc (cred_data credential) = Inr cd" "verify_credential vault cc clock subject authorities credential w = Inr (Inr cd, w)"
    using that
    by (cases "find (\<lambda>x. identity_identifier x = cd_issuer cd) authorities"; cases clock)
       (simp_all add: verify_credential_def run_simps run_err_def)
  ultimately show ?thesis using False by (auto simp: vouched_def)
qed

end

context identity_world
begin

text \<open>Receiving a credential stores exactly what an authority vouched for, or changes nothing.\<close>

lemma receive_cases:
  assumes "receive_presented_credential vault st q cc clock clock' sender authorities credential w = Inr (r, w')"
  obtains (refused) e where "r = Inl e" "w' = w"
  | (stored) cd authority now now' d where "r = Inr ()"
      "find (\<lambda>x. identity_identifier x = cd_issuer cd) authorities = Some authority"
      "clock = Some now" "clock' = Some now'" "vouched verdict cc now sender authority credential cd"
      "ac_encode q \<lparr>ae_attrs = cd_attributes cd, ae_added = now', ae_expires = Some (cd_expires cd),
         ae_attested_by = Some (identity_identifier authority)\<rparr> = Inr d"
      "lookup w' = (lookup w)(sender := (lookup w sender)(ATTRIBUTES_KEY \<mapsto> d))" "frame w' = frame w"
proof -
  obtain v where v: "\<And>w. verify_credential vault cc clock sender authorities credential w = Inr (v, w)"
    using verify_credential_pure by blast
  show ?thesis
  proof (cases v)
    case (Inl e)
    then show ?thesis using assms v by (intro refused [of e]) (simp_all add: receive_presented_credential_def run_simps)
  next
    case (Inr cd)
    obtain authority now where a: "find (\<lambda>x. identity_identifier x = cd_issuer cd) authorities = Some authority"
        "clock = Some now" "vouched verdict cc now sender authority credential cd"
      using v [of w] Inr verify_credential_iff [of cc clock sender authorities credential w cd] by auto
    have issuer: "cd_issuer cd = identity_identifier authority" using a(3) by (simp add: vouched_def)
    show ?thesis
    proof (cases clock')
      case None
      then show ?thesis
        using assms v Inr by (simp add: receive_presented_credential_def run_simps run_panic_def)
    next
      case (Some now')
      let ?entry = "\<lparr>ae_attrs = cd_attributes cd, ae_added = now', ae_expires = Some (cd_expires cd),
         ae_attested_by = Some (identity_identifier authority)\<rparr>"
      have run: "put_attributes st q sender ?entry w = Inr (r, w')"
        using assms v Inr Some issuer by (simp add: receive_presented_credential_def run_simps)
      show ?thesis
      proof (cases "ac_encode q ?entry")
        case (Inl e)
        then show ?thesis using run by (intro refused [of e]) (simp_all add: put_attributes_def run_simps run_err_def)
      next
        case (Inr d)
        obtain w'' where "put_attributes st q sender ?entry w = Inr (Inr (), w'')" "frame w'' = frame w"
            "lookup w'' = (lookup w)(sender := (lookup w sender)(ATTRIBUTES_KEY \<mapsto> d))"
          using put_attributes_value [OF Inr] .
        with run Inr Some a show ?thesis by (intro stored) simp_all
      qed
    qed
  qed
qed

text \<open>What an authority issues, it vouches for until the credential expires.\<close>

lemma issue_value:
  assumes "ready b w" "owned verdict p (holds w) authority"
    "stored_history (lookup w) p (identity_identifier authority) = Some (change_history authority)"
    "cc_encode cc cd = Inr d" "cc_decode cc d = Inr cd"
    "cd_issuer cd = identity_identifier authority" "cd_issuer_key_label cd = ROOT_LABEL"
  obtains credential where "issue_credential vault p st cc (identity_identifier authority) cd w = Inr (Inr credential, w)"
    "\<forall>now. vouched verdict cc now (cd_subject cd) authority credential cd \<longleftrightarrow> now < cd_expires cd"
    "cc_decode cc (cred_data credential) = Inr cd"
proof -
  have get: "get_identity st p (identity_identifier authority) w = Inr (Inr authority, w)"
    using get_stored [OF assms(3)] by (simp add: Identity_new_def)
  obtain sc where sc: "find_last_key_change (change_history authority) (case None of Some l \<Rightarrow> l | None \<Rightarrow> ROOT_LABEL) = Inr sc"
    using assms(2) by (auto simp: owned_def usable_def is_ok_iff)
  obtain s where s: "create_signature vault authority d None w = Inr (Inr s, w)"
      "\<forall>w. identity_verify_signature vault authority s d None w = Inr (Inr True, w)"
    using signature_verifies [OF assms(1,2) sc] .
  have "verdict (change_public_key (ch_change sc)) d s = Inr True"
    using spec [OF s(2), of w] sc
    by (simp add: identity_verify_signature_def Identity_get_public_key_def get_public_key_static_def run_simps verify_law)
  then have "vouched verdict cc now (cd_subject cd) authority \<lparr>cred_data = d, cred_signature = s\<rparr> cd
      \<longleftrightarrow> now < cd_expires cd" for now
    using assms(5-7) sc by (auto simp: vouched_def get_public_key_static_def)
  moreover have "issue_credential vault p st cc (identity_identifier authority) cd w
      = Inr (Inr \<lparr>cred_data = d, cred_signature = s\<rparr>, w)"
    using assms(4) get s(1) by (simp add: issue_credential_def run_simps run_ok_def)
  ultimately show ?thesis using that assms(5) by simp
qed

lemma receive_vouched:
  assumes "find (\<lambda>x. identity_identifier x = cd_issuer cd) authorities = Some authority"
    "vouched verdict cc now sender authority credential cd"
    "ac_encode q \<lparr>ae_attrs = cd_attributes cd, ae_added = now', ae_expires = Some (cd_expires cd),
       ae_attested_by = Some (cd_issuer cd)\<rparr> = Inr d"
  obtains w' where "receive_presented_credential vault st q cc (Some now) (Some now') sender authorities credential w
      = Inr (Inr (), w')"
    "lookup w' = (lookup w)(sender := (lookup w sender)(ATTRIBUTES_KEY \<mapsto> d))" "frame w' = frame w"
proof -
  have "verify_credential vault cc (Some now) sender authorities credential w = Inr (Inr cd, w)"
    using assms(1,2) by (simp add: verify_credential_iff)
  moreover obtain w' where "put_attributes st q sender \<lparr>ae_attrs = cd_attributes cd, ae_added = now',
        ae_expires = Some (cd_expires cd), ae_attested_by = Some (cd_issuer cd)\<rparr> w = Inr (Inr (), w')"
      "frame w' = frame w" "lookup w' = (lookup w)(sender := (lookup w sender)(ATTRIBUTES_KEY \<mapsto> d))"
    using put_attributes_value [OF assms(3)] .
  ultimately show ?thesis using that by (simp add: receive_presented_credential_def run_simps)
qed

lemma receive_not_vouched:
  assumes "cc_decode cc (cred_data credential) = Inr cd"
    "find (\<lambda>x. identity_identifier x = cd_issuer cd) authorities = Some authority"
    "\<not> vouched verdict cc now sender authority credential cd"
  shows "\<exists>e. receive_presented_credential vault st q cc (Some now) clock' sender authorities credential w = Inr (Inl e, w)"
proof -
  obtain v where v: "\<And>w. verify_credential vault cc (Some now) sender authorities credential w = Inr (v, w)"
    using verify_credential_pure by blast
  have False if "v = Inr cd'" for cd'
  proof -
    have w: "verify_credential vault cc (Some now) sender authorities credential w = Inr (Inr cd', w)" using v that by simp
    with assms(1) have "cd' = cd" using verify_credential_decodes [OF w] by simp
    with w assms(2,3) show False by (simp add: verify_credential_iff)
  qed
  then obtain e where "v = Inl e" by (cases v) simp_all
  with v show ?thesis by (simp add: receive_presented_credential_def run_simps)
qed

text \<open>An entry stays readable until it expires.\<close>

lemma get_entry_until:
  assumes "lookup w i ATTRIBUTES_KEY = Some d" "ac_decode q d = Inr entry" "ae_expires entry = Some t"
  shows "\<exists>w'. get_entry st q (Some now) i w = Inr (Inr (if now < t then Some entry else None), w')"
proof (cases "now < t")
  case True
  then have "\<not> expired now entry" using assms(3) by (auto simp: expired_def)
  then show ?thesis using get_entry_value [OF assms(1,2)] True by simp
next
  case False
  then have "expired now entry" using assms(3) by (auto simp: expired_def)
  then show ?thesis
    using False assms(1,2) del_law [of i ATTRIBUTES_KEY w] by (auto simp: get_entry_def get_law run_simps run_ok_def)
qed

text \<open>Receiving what an authority vouches for and reading it later.\<close>

lemma receive_then_read:
  assumes "find (\<lambda>x. identity_identifier x = cd_issuer cd) authorities = Some authority"
    "vouched verdict cc now sender authority credential cd"
    "ac_encode q \<lparr>ae_attrs = cd_attributes cd, ae_added = now', ae_expires = Some (cd_expires cd),
       ae_attested_by = Some (cd_issuer cd)\<rparr> = Inr d"
    "ac_decode q d = Inr \<lparr>ae_attrs = cd_attributes cd, ae_added = now', ae_expires = Some (cd_expires cd),
       ae_attested_by = Some (cd_issuer cd)\<rparr>"
  shows "\<exists>w'. receive_presented_credential vault st q cc (Some now) (Some now') sender authorities credential w
      = Inr (Inr (), w')
    \<and> (\<forall>later. \<exists>w''. get_entry st q (Some later) sender w' = Inr (Inr (if later < cd_expires cd
         then Some \<lparr>ae_attrs = cd_attributes cd, ae_added = now', ae_expires = Some (cd_expires cd),
           ae_attested_by = Some (cd_issuer cd)\<rparr> else None), w''))"
proof -
  obtain w' where w': "receive_presented_credential vault st q cc (Some now) (Some now') sender authorities credential w
        = Inr (Inr (), w')"
      "lookup w' = (lookup w)(sender := (lookup w sender)(ATTRIBUTES_KEY \<mapsto> d))" "frame w' = frame w"
    using receive_vouched [OF assms(1-3)] .
  from w'(2) have "lookup w' sender ATTRIBUTES_KEY = Some d" by simp
  with w'(1) get_entry_until [OF _ assms(4)] show ?thesis by simp
qed

end

subsection \<open>The cache of an authority\<close>

text \<open>What an authority hands out has not expired, provided the cache holds a credential with its time of
  expiry; and that is how it is filled.\<close>

definition cache_true :: "CredentialCodec \<Rightarrow> AuthorityService \<Rightarrow> bool" where
  "cache_true cc self \<longleftrightarrow> (\<forall>cache. as_cache self = Some cache \<longrightarrow>
     (\<exists>cd. cc_decode cc (cred_data (cache_credential cache)) = Inr cd \<and> cache_valid_until cache = cd_expires cd))"

lemma add_seconds_ge: "t \<le> add_seconds t s"
proof (cases "2 ^ 64 \<le> unat t + unat s")
  case True
  then show ?thesis by (simp add: add_seconds_def)
next
  case False
  then have "unat (t + s) = unat t + unat s" by (simp add: unat_word_ariths)
  with False show ?thesis by (simp add: add_seconds_def word_le_nat_alt)
qed

lemma authority_credential_fresh:
  assumes "authority_credential vault p st cc own (Some now) (Some now') i (w, self) = Inr (Inr credential, w')"
    "now \<le> now'" "cache_true cc self"
  shows "cache_true cc (snd w') \<and> (\<exists>cd. cc_decode cc (cred_data credential) = Inr cd \<and> now < cd_expires cd)"
proof -
  have verified: "cc_decode cc (cred_data x) = Inr cd \<and> now < cd_expires cd"
    if "verify_credential vault cc (Some now') i [a] x u = Inr (Inr cd, u')" for x cd a u u'
  proof -
    from that have "now' < cd_expires cd"
      unfolding verify_credential_def
      by (auto elim!: run_bind_cases simp: run_result_def run_err_def run_ok_def CredentialData_verify_def
          split: sum.splits option.splits if_splits)
    with assms(2) verify_credential_decodes [OF that] show ?thesis by simp
  qed
  have retrieve: ?thesis if "retrieve_credential vault p st cc own (Some now') i self (w, self) = Inr (Inr credential, w')"
    using that unfolding retrieve_credential_def
    by (auto elim!: run_bind_cases simp: run_fst_Inr run_result_def run_err_def run_ok_def run_put_def cache_true_def
        split: sum.splits dest!: verified)
  show ?thesis
  proof (cases "\<exists>cache. as_cache self = Some cache \<and> add_seconds now 60 < cache_valid_until cache")
    case True
    then obtain cache where c: "as_cache self = Some cache" "add_seconds now 60 < cache_valid_until cache" by blast
    then have "credential = cache_credential cache" "w' = (w, self)"
      using assms(1) by (simp_all add: authority_credential_def run_simps run_ok_def)
    moreover have "now < cache_valid_until cache" using c(2) add_seconds_ge le_less_trans by blast
    ultimately show ?thesis using assms(3) c(1) by (auto simp: cache_true_def)
  next
    case False
    then have "retrieve_credential vault p st cc own (Some now') i self (w, self) = Inr (Inr credential, w')"
      using assms(1) by (cases "as_cache self") (simp_all add: authority_credential_def run_simps)
    then show ?thesis by (rule retrieve)
  qed
qed

subsection \<open>Concrete codecs\<close>

definition credential_codec_lawful :: "CredentialCodec \<Rightarrow> AttributesCodec \<Rightarrow> bool" where
  "credential_codec_lawful cc q \<longleftrightarrow> (\<forall>cd. \<exists>d. cc_encode cc cd = Inr d \<and> cc_decode cc d = Inr cd)
   \<and> (\<forall>entry. \<exists>d. ac_encode q entry = Inr d \<and> ac_decode q d = Inr entry)"

definition string_u64 :: "string \<Rightarrow> u64" where
  "string_u64 s = (case parse_digits (2 ^ 64) 0 s of Inr n \<Rightarrow> word_of_nat n | Inl _ \<Rightarrow> 0)"

lemma string_u64_inverse [simp]: "string_u64 (show_nat (unat w)) = w"
  using unat_u64_less [of w] by (simp add: string_u64_def parse_digits_show_nat)

fun option_strings :: "('a \<Rightarrow> string) \<Rightarrow> 'a option \<Rightarrow> string list" where
  "option_strings f None = []"
| "option_strings f (Some x) = [f x]"

definition strings_option :: "(string \<Rightarrow> 'a) \<Rightarrow> string list \<Rightarrow> 'a option" where
  "strings_option g ss = (if ss = [] then None else Some (g (hd ss)))"

lemma strings_option_inverse [simp]: "(\<And>x. g (f x) = x) \<Longrightarrow> strings_option g (option_strings f v) = v"
  by (cases v) (simp_all add: strings_option_def)

definition sample_cc :: CredentialCodec where
  "sample_cc =
     \<lparr>cc_encode = (\<lambda>cd. Inr (encode_list (encode_list encode_string)
        ([cd_subject cd, cd_issuer cd, cd_issuer_key_label cd, show_nat (unat (cd_created cd)),
          show_nat (unat (cd_expires cd))] # option_strings (\<lambda>n. show_nat (unat n)) (cd_schema cd)
          # map (\<lambda>(k, v). [k, v]) (cd_attributes cd)))),
      cc_decode = (\<lambda>s. case decode_list (length s) (\<lambda>s. decode_list (length s) decode_string s) s of
          None \<Rightarrow> Inl invalid
        | Some (ss, _) \<Rightarrow> Inr \<lparr>cd_schema = strings_option string_u64 (ss ! 1),
            cd_attributes = map (\<lambda>kv. (kv ! 0, kv ! 1)) (drop 2 ss), cd_subject = ss ! 0 ! 0, cd_issuer = ss ! 0 ! 1,
            cd_issuer_key_label = ss ! 0 ! 2, cd_created = string_u64 (ss ! 0 ! 3),
            cd_expires = string_u64 (ss ! 0 ! 4)\<rparr>)\<rparr>"

definition sample_ac :: AttributesCodec where
  "sample_ac =
     \<lparr>ac_encode = (\<lambda>e. Inr (encode_list (encode_list encode_string)
        ([show_nat (unat (ae_added e))] # option_strings (\<lambda>n. show_nat (unat n)) (ae_expires e)
          # option_strings (\<lambda>i. i) (ae_attested_by e) # map (\<lambda>(k, v). [k, v]) (ae_attrs e)))),
      ac_decode = (\<lambda>s. case decode_list (length s) (\<lambda>s. decode_list (length s) decode_string s) s of
          None \<Rightarrow> Inl invalid
        | Some (ss, _) \<Rightarrow> Inr \<lparr>ae_attrs = map (\<lambda>kv. (kv ! 0, kv ! 1)) (drop 3 ss),
            ae_added = string_u64 (ss ! 0 ! 0), ae_expires = strings_option string_u64 (ss ! 1),
            ae_attested_by = strings_option (\<lambda>i. i) (ss ! 2)\<rparr>)\<rparr>"

lemma sample_credential_codec: "credential_codec_lawful sample_cc sample_ac"
proof -
  have d: "decode_list (length (encode_list (encode_list encode_string) ss)) (\<lambda>s. decode_list (length s) decode_string s)
      (encode_list (encode_list encode_string) ss) = Some (ss, [])" for ss
    using prefix_codeD [OF prefix_code_list [OF prefix_code_list [OF prefix_code_string]], of ss "[]"] by simp
  have "cc_decode sample_cc (projr (cc_encode sample_cc cd)) = Inr cd" for cd
    by (cases cd) (simp add: sample_cc_def d case_prod_unfold comp_def eval_nat_numeral del: encode_list.simps decode_list.simps)
  moreover have "cc_encode sample_cc cd = Inr (projr (cc_encode sample_cc cd))" for cd by (simp add: sample_cc_def)
  moreover have "ac_decode sample_ac (projr (ac_encode sample_ac e)) = Inr e" for e
    by (cases e) (simp add: sample_ac_def d case_prod_unfold comp_def eval_nat_numeral del: encode_list.simps decode_list.simps)
  moreover have "ac_encode sample_ac e = Inr (projr (ac_encode sample_ac e))" for e by (simp add: sample_ac_def)
  ultimately show ?thesis unfolding credential_codec_lawful_def by metis
qed

subsection \<open>Properties\<close>


definition sample_authority :: Identity where
  "sample_authority = Identity_new ''PA'' [\<lparr>ch_identifier = [], ch_change = CreateKey \<lparr>kc_prev_change_id = [],
     kc_key_attributes = default_with_label ROOT_LABEL, kc_public_key = PublicKey_new sample_key Ed25519Type\<rparr>,
     ch_signatures = []\<rparr>]"

definition sample_credential_data :: CredentialData where
  "sample_credential_data = \<lparr>cd_schema = None, cd_attributes = [(''role'', ''admin'')], cd_subject = ''Palice'',
     cd_issuer = ''PA'', cd_issuer_key_label = ROOT_LABEL, cd_created = 100, cd_expires = 300\<rparr>"


lemma credential_accepted:
  assumes "credential_codec_lawful cc q" "vault_ready c b (fst w)"
    "owned (vault_verdict c) p (vault_holds c (fst w)) authority"
    "stored_history (mem_get (snd w)) p (identity_identifier authority) = Some (change_history authority)"
    "cb_issuer builder = identity_identifier authority"
  shows "\<exists>cd credential. builder_build (Some t) builder = Inr cd
     \<and> issue_credential (world_vault c) p in_memory cc (identity_identifier authority) cd w = Inr (Inr credential, w)
     \<and> (\<forall>u sender authorities now now'.
          find (\<lambda>x. identity_identifier x = identity_identifier authority) authorities = Some authority \<longrightarrow>
          (if sender = cb_subject builder \<and> now < add_seconds t (word_of_nat (cb_validity builder div 10 ^ 9))
           then \<exists>u'. receive_presented_credential (world_vault c) in_memory q cc (Some now) (Some now') sender
                authorities credential u = Inr (Inr (), u')
              \<and> (\<forall>later. \<exists>u''. get_entry in_memory q (Some later) sender u' = Inr (Inr
                   (if later < add_seconds t (word_of_nat (cb_validity builder div 10 ^ 9))
                    then Some \<lparr>ae_attrs = cb_attrs builder, ae_added = now',
                      ae_expires = Some (add_seconds t (word_of_nat (cb_validity builder div 10 ^ 9))),
                      ae_attested_by = Some (identity_identifier authority)\<rparr>
                    else None), u''))
           else \<exists>e. receive_presented_credential (world_vault c) in_memory q cc (Some now) (Some now') sender
                authorities credential u = Inr (Inl e, u)))"
proof -
  define e where "e = add_seconds t (word_of_nat (cb_validity builder div 10 ^ 9))"
  define cd where "cd = \<lparr>cd_schema = cb_schema builder, cd_attributes = cb_attrs builder, cd_subject = cb_subject builder,
         cd_issuer = cb_issuer builder, cd_issuer_key_label = ROOT_LABEL, cd_created = t, cd_expires = e\<rparr>"
  have build: "builder_build (Some t) builder = Inr cd" by (simp add: builder_build_def cd_def e_def)
  have fields: "cd_issuer cd = identity_identifier authority" "cd_issuer_key_label cd = ROOT_LABEL"
      "cd_subject cd = cb_subject builder" "cd_expires cd = e" "cd_attributes cd = cb_attrs builder"
    using assms(5) by (simp_all add: cd_def)
  obtain d where d: "cc_encode cc cd = Inr d" "cc_decode cc d = Inr cd"
    using assms(1) by (auto simp: credential_codec_lawful_def)
  obtain credential where issue: "issue_credential (world_vault c) p in_memory cc (identity_identifier authority) cd w
        = Inr (Inr credential, w)"
      "\<forall>now. vouched (vault_verdict c) cc now (cd_subject cd) authority credential cd \<longleftrightarrow> now < cd_expires cd"
      "cc_decode cc (cred_data credential) = Inr cd"
    using wv.issue_value [OF assms(2,3,4) d fields(1,2)] .
  have accept: "\<exists>u'. receive_presented_credential (world_vault c) in_memory q cc (Some now) (Some now') sender
        authorities credential u = Inr (Inr (), u')
      \<and> (\<forall>later. \<exists>u''. get_entry in_memory q (Some later) sender u' = Inr (Inr (if later < e
           then Some \<lparr>ae_attrs = cb_attrs builder, ae_added = now', ae_expires = Some e,
              ae_attested_by = Some (identity_identifier authority)\<rparr> else None), u''))"
    if prem: "find (\<lambda>x. identity_identifier x = identity_identifier authority) authorities = Some authority"
      "sender = cb_subject builder" "now < e" for u sender authorities now now'
  proof -
    obtain a where a: "ac_encode q \<lparr>ae_attrs = cd_attributes cd, ae_added = now', ae_expires = Some (cd_expires cd),
        ae_attested_by = Some (cd_issuer cd)\<rparr> = Inr a"
      "ac_decode q a = Inr \<lparr>ae_attrs = cd_attributes cd, ae_added = now', ae_expires = Some (cd_expires cd),
        ae_attested_by = Some (cd_issuer cd)\<rparr>"
      using assms(1) by (auto simp: credential_codec_lawful_def)
    have v: "vouched (vault_verdict c) cc now sender authority credential cd"
      using issue(2) fields(3,4) prem(2,3) by simp
    have f: "find (\<lambda>x. identity_identifier x = cd_issuer cd) authorities = Some authority"
      using prem(1) fields(1) by simp
    show ?thesis using wv.receive_then_read [OF f v a, of u] unfolding fields .
  qed
  have refuse: "\<exists>x. receive_presented_credential (world_vault c) in_memory q cc (Some now) (Some now') sender
        authorities credential u = Inr (Inl x, u)"
    if prem: "find (\<lambda>x. identity_identifier x = identity_identifier authority) authorities = Some authority"
      "\<not> (sender = cb_subject builder \<and> now < e)" for u sender authorities now now'
  proof (rule wv.receive_not_vouched [OF issue(3)])
    show "\<not> vouched (vault_verdict c) cc now sender authority credential cd"
      using prem(2) issue(3) fields(3,4) by (auto simp: vouched_def)
  qed (use prem(1) fields(1) in simp)
  show ?thesis
    using build issue(1) accept refuse unfolding e_def [symmetric]
    by (intro exI [of _ cd] exI [of _ credential]) simp
qed

text \<open>C12: a credential built with a validity and issued by an authority that owns its identity is accepted
  by everyone who trusts that authority exactly from its subject and exactly before it expires, and the
  attributes can then be read exactly until it expires.\<close>

theorem credential_lifecycle:
  assumes "credential_codec_lawful cc q" "vault_ready c b (fst w)"
    "owned (vault_verdict c) p (vault_holds c (fst w)) authority"
    "stored_history (mem_get (snd w)) p (identity_identifier authority) = Some (change_history authority)"
    "cb_issuer builder = identity_identifier authority"
  shows "\<exists>cd credential. builder_build (Some t) builder = Inr cd
     \<and> issue_credential (world_vault c) p in_memory cc (identity_identifier authority) cd w = Inr (Inr credential, w)
     \<and> (\<forall>u sender authorities now now'.
          find (\<lambda>x. identity_identifier x = identity_identifier authority) authorities = Some authority \<longrightarrow>
          (if sender = cb_subject builder \<and> now < add_seconds t (word_of_nat (cb_validity builder div 10 ^ 9))
           then \<exists>u'. receive_presented_credential (world_vault c) in_memory q cc (Some now) (Some now') sender
                authorities credential u = Inr (Inr (), u')
              \<and> (\<forall>later. \<exists>u''. get_entry in_memory q (Some later) sender u' = Inr (Inr
                   (if later < add_seconds t (word_of_nat (cb_validity builder div 10 ^ 9))
                    then Some \<lparr>ae_attrs = cb_attrs builder, ae_added = now',
                      ae_expires = Some (add_seconds t (word_of_nat (cb_validity builder div 10 ^ 9))),
                      ae_attested_by = Some (identity_identifier authority)\<rparr>
                    else None), u''))
           else \<exists>e. receive_presented_credential (world_vault c) in_memory q cc (Some now) (Some now') sender
                authorities credential u = Inr (Inl e, u)))"
  using credential_accepted [OF assms] .

theorem credential_lifecycle_witness:
  "\<exists>authority w cd credential w' e.
     create_identity (world_vault sample_crypto) sample_codec in_memory (sample_vault, []) = Inr (Inr authority, w)
     \<and> issue_credential (world_vault sample_crypto) sample_codec in_memory sample_cc (identity_identifier authority) cd w
         = Inr (Inr credential, w)
     \<and> receive_presented_credential (world_vault sample_crypto) in_memory sample_ac sample_cc (Some 200) (Some 200)
         ''Palice'' [authority] credential (sample_vault, []) = Inr (Inr (), w')
     \<and> receive_presented_credential (world_vault sample_crypto) in_memory sample_ac sample_cc (Some 200) (Some 200)
         ''Pbob'' [authority] credential (sample_vault, []) = Inr (Inl e, (sample_vault, []))"
proof -
  obtain authority w where a: "create_identity (world_vault sample_crypto) sample_codec in_memory (sample_vault, [])
        = Inr (Inr authority, w)"
      "owned (vault_verdict sample_crypto) sample_codec (vault_holds sample_crypto (fst w)) authority"
      "vault_ready sample_crypto 0 (fst w)"
      "stored_history (mem_get (snd w)) sample_codec (identity_identifier authority) = Some (change_history authority)"
    by (rule new_identity [OF sample_codec_lawful sample_vault_ready [of "Suc 0"]]) (simp, rule that)
  let ?builder = "from_attributes ''Palice'' (identity_identifier authority) [(''role'', ''admin'')]"
  have b: "cb_issuer ?builder = identity_identifier authority" "cb_subject ?builder = ''Palice''"
      "add_seconds 100 (word_of_nat (cb_validity ?builder div 10 ^ 9)) = 2592100"
    by (simp_all add: from_attributes_def with_attribute_def CredentialBuilder_new_def MAX_CREDENTIAL_VALIDITY_def add_seconds_def)
  from credential_lifecycle [OF sample_credential_codec a(3,2,4) b(1), of 100, unfolded b(2,3)]
  obtain cd credential where c: "issue_credential (world_vault sample_crypto) sample_codec in_memory sample_cc
        (identity_identifier authority) cd w = Inr (Inr credential, w)"
      "\<forall>u sender authorities now now'.
          find (\<lambda>x. identity_identifier x = identity_identifier authority) authorities = Some authority \<longrightarrow>
          (if sender = ''Palice'' \<and> now < 2592100
           then \<exists>u'. receive_presented_credential (world_vault sample_crypto) in_memory sample_ac sample_cc (Some now)
                (Some now') sender authorities credential u = Inr (Inr (), u')
              \<and> (\<forall>later. \<exists>u''. get_entry in_memory sample_ac (Some later) sender u' = Inr (Inr
                   (if later < 2592100 then Some \<lparr>ae_attrs = cb_attrs ?builder, ae_added = now',
                      ae_expires = Some 2592100, ae_attested_by = Some (identity_identifier authority)\<rparr>
                    else None), u''))
           else \<exists>e. receive_presented_credential (world_vault sample_crypto) in_memory sample_ac sample_cc (Some now)
                (Some now') sender authorities credential u = Inr (Inl e, u))"
    by (elim exE conjE)
  have f: "find (\<lambda>x. identity_identifier x = identity_identifier authority) [authority] = Some authority" by simp
  from c(2) [rule_format, OF f, of "''Palice''" 200 200 "(sample_vault, [])"]
    c(2) [rule_format, OF f, of "''Pbob''" 200 200 "(sample_vault, [])"]
  have "\<exists>w'. receive_presented_credential (world_vault sample_crypto) in_memory sample_ac sample_cc (Some 200) (Some 200)
         ''Palice'' [authority] credential (sample_vault, []) = Inr (Inr (), w')"
      "\<exists>e. receive_presented_credential (world_vault sample_crypto) in_memory sample_ac sample_cc (Some 200) (Some 200)
         ''Pbob'' [authority] credential (sample_vault, []) = Inr (Inl e, (sample_vault, []))"
    by auto
  with a(1) c(1) show ?thesis by blast
qed

end
