(* ===== verification/Identity_Services.thy ===== *)
theory Identity_Services
  imports Handshake_Safety Credentials
begin

text \<open>
  The identities, credentials and trust policies that the handshake uses
  (\<open>ockam_identity/src/secure_channel/trust_policy\<close>, \<open>credentials/trust_context.rs\<close>): the services of
  \<open>Handshake_Machine\<close>, built from the modelled repository, keys and credentials.  Then what a finished
  handshake says about the change history of the peer, and that two owners of identities
  can carry out a handshake.
\<close>

subsection \<open>Trust policies\<close>

type_synonym 'w trust_policy = "IdentityIdentifier \<Rightarrow> ('w, error, bool) state_exec"

definition TrustEveryonePolicy :: "'w trust_policy" where
  "TrustEveryonePolicy their_id = run_ok True"

definition TrustIdentifierPolicy :: "IdentityIdentifier \<Rightarrow> 'w trust_policy" where
  "TrustIdentifierPolicy trusted_id their_id = run_ok (their_id = trusted_id)"

text \<open>The list is compared to its end, in constant time.\<close>

definition contains_identifier :: "IdentityIdentifier list \<Rightarrow> IdentityIdentifier \<Rightarrow> bool" where
  "contains_identifier identity_ids their_id = fold (\<lambda>trusted_id found. found \<or> trusted_id = their_id) identity_ids False"

definition TrustMultiIdentifiersPolicy :: "IdentityIdentifier list \<Rightarrow> 'w trust_policy" where
  "TrustMultiIdentifiersPolicy identity_ids their_id =
     (if \<not> contains_identifier identity_ids their_id then run_ok False else run_ok True)"

definition AllTrustPolicy :: "'w trust_policy \<Rightarrow> 'w trust_policy \<Rightarrow> 'w trust_policy" where
  "AllTrustPolicy fst_policy snd_policy i =
     run_bind (fst_policy i) (\<lambda>b. if b then snd_policy i else run_ok False)"

definition AnyTrustPolicy :: "'w trust_policy \<Rightarrow> 'w trust_policy \<Rightarrow> 'w trust_policy" where
  "AnyTrustPolicy fst_policy snd_policy i =
     run_bind (fst_policy i) (\<lambda>b. if b then run_ok True else snd_policy i)"

definition TrustPublicKeyPolicy ::
  "('w, 'y) Storage_scheme \<Rightarrow> IdentityCodec \<Rightarrow> PublicKey \<Rightarrow> string \<Rightarrow> 'w trust_policy" where
  "TrustPublicKeyPolicy st p public_key public_key_label i =
     run_bind (retrieve_identity st p i) (\<lambda>r. case r of
       None \<Rightarrow> run_ok False
     | Some their_identity \<Rightarrow>
         (case get_public_key_static (change_history their_identity) public_key_label of
            Inr pub_key \<Rightarrow> run_ok (pub_key = public_key)
          | Inl _ \<Rightarrow> run_ok False))"

subsection \<open>Trust contexts\<close>

record TrustContext =
  tc_id :: string
  tc_authority :: "AuthorityService option"

definition trust_authority :: "TrustContext \<Rightarrow> error + AuthorityService" where
  "trust_authority self = ok_or (tc_authority self) (identity_error UnknownAuthority)"

definition authority_identity ::
  "('w, 'y) Storage_scheme \<Rightarrow> IdentityCodec \<Rightarrow> AuthorityService \<Rightarrow> ('w, error, Identity) state_exec" where
  "authority_identity st p self = get_identity st p (as_identifier self)"

definition trust_authorities ::
  "('w, 'y) Storage_scheme \<Rightarrow> IdentityCodec \<Rightarrow> TrustContext \<Rightarrow> ('w, error, Identity list) state_exec" where
  "trust_authorities st p self =
     run_bind (run_result (trust_authority self)) (\<lambda>a.
     run_bind (authority_identity st p a) (\<lambda>i. run_ok [i]))"

subsection \<open>The services of a node\<close>

text \<open>The third-party encodings a node uses, and how a channel is set up: the system time as the
  verification and the storage of a credential read it, the trust policy and the trust context.\<close>

record NodeCodecs =
  nc_history :: IdentityCodec
  nc_attributes :: AttributesCodec
  nc_credentials :: CredentialCodec
  nc_encode :: "Credential IdentityAndCredentials \<Rightarrow> error + bytes"
  nc_decode :: "bytes \<Rightarrow> Credential IdentityAndCredentials option"

record ChannelSetup =
  cs_clock :: "Timestamp option"
  cs_clock' :: "Timestamp option"
  cs_trust_policy :: "World trust_policy"
  cs_trust_context :: "TrustContext option"

definition node_services ::
  "Crypto \<Rightarrow> NodeCodecs \<Rightarrow> ChannelSetup \<Rightarrow> (World, Identity, Credential) IdentityServices" where
  "node_services c n s =
     \<lparr>id_identifier = identity_identifier,
      id_get_identity = get_identity in_memory (nc_history n),
      id_export = (\<lambda>identity. history_export (nc_history n) (change_history identity)),
      id_create_signature = (\<lambda>identity d. create_signature (world_vault c) identity d None),
      id_decode_identity = decode_identity (world_vault c) (nc_history n),
      id_verify_signature = (\<lambda>identity sig d. identity_verify_signature (world_vault c) identity sig d None),
      id_trust_check = cs_trust_policy s,
      id_authority = map_option (\<lambda>ctx. run_bind (run_result (trust_authority ctx))
        (authority_identity in_memory (nc_history n))) (cs_trust_context s),
      id_receive_credential = receive_presented_credential (world_vault c) in_memory (nc_attributes n)
        (nc_credentials n) (cs_clock s) (cs_clock' s),
      id_update_identity = update_identity in_memory (nc_history n),
      bare_encode = nc_encode n, bare_decode = nc_decode n\<rparr>"

lemma node_services_fields [simp]:
  "id_identifier (node_services c n s) = identity_identifier"
  "id_get_identity (node_services c n s) = get_identity in_memory (nc_history n)"
  "id_export (node_services c n s) identity = history_export (nc_history n) (change_history identity)"
  "id_create_signature (node_services c n s) identity d = create_signature (world_vault c) identity d None"
  "id_decode_identity (node_services c n s) = decode_identity (world_vault c) (nc_history n)"
  "id_verify_signature (node_services c n s) identity sig d = identity_verify_signature (world_vault c) identity sig d None"
  "id_trust_check (node_services c n s) = cs_trust_policy s"
  "id_update_identity (node_services c n s) = update_identity in_memory (nc_history n)"
  "bare_encode (node_services c n s) = nc_encode n" "bare_decode (node_services c n s) = nc_decode n"
  by (simp_all add: node_services_def)

lemma contains_identifier_iff: "contains_identifier ids i \<longleftrightarrow> i \<in> set ids"
proof -
  have "fold (\<lambda>trusted_id found. found \<or> trusted_id = i) ids b \<longleftrightarrow> b \<or> i \<in> set ids" for b
    by (induction ids arbitrary: b) auto
  then show ?thesis by (simp add: contains_identifier_def)
qed

lemma trust_policy_values [run_simps]:
  "TrustEveryonePolicy i w = Inr (Inr True, w)"
  "TrustIdentifierPolicy j i w = Inr (Inr (i = j), w)"
  "TrustMultiIdentifiersPolicy ids i w = Inr (Inr (i \<in> set ids), w)"
  by (simp_all add: TrustEveryonePolicy_def TrustIdentifierPolicy_def TrustMultiIdentifiersPolicy_def
    contains_identifier_iff run_ok_def)

subsection \<open>What an authenticated peer has shown\<close>

text \<open>Somebody with identifier \<open>who\<close> signed the key \<open>pk\<close>: there is a valid change history whose first key
  gives the identifier and whose current root key verifies a signature of \<open>pk\<close>.\<close>

definition identity_signed ::
  "(PublicKey \<Rightarrow> bytes \<Rightarrow> bytes \<Rightarrow> error + bool) \<Rightarrow> IdentityCodec \<Rightarrow> IdentityIdentifier \<Rightarrow> bytes \<Rightarrow> bool" where
  "identity_signed verdict p who pk \<longleftrightarrow> (\<exists>history root sig. valid_history verdict p history
     \<and> who = from_public_key p (change_public_key (ch_change (hd history)))
     \<and> get_current_root_public_key history = Inr root \<and> verdict root pk sig = Inr True)"

lemma services_authenticated:
  assumes "authenticated_by (node_services c n s) who pk"
  shows "identity_signed (vault_verdict c) (nc_history n) who (data pk)
    \<and> (\<exists>w w'. cs_trust_policy s who w = Inr (Inr True, w'))"
proof -
  from assms obtain peer :: "Credential IdentityAndCredentials" and identity w w1 w2 w3 where a:
      "decode_identity (world_vault c) (nc_history n) (iac_identity peer) w = Inr (Inr identity, w1)"
      "identity_identifier identity = who"
      "identity_verify_signature (world_vault c) identity (iac_signature peer) (data pk) None w1 = Inr (Inr True, w2)"
      "cs_trust_policy s who w2 = Inr (Inr True, w3)"
    unfolding authenticated_by_def node_services_fields by blast
  from a(3) obtain root where root: "get_current_root_public_key (change_history identity) = Inr root"
      "vault_verdict c root (data pk) (iac_signature peer) = Inr True"
    by (auto simp: identity_verify_signature_def Identity_get_public_key_def get_current_root_public_key_def
        run_simps run_result_def run_err_def run_bind_def run_ok_def wv.verify_law split: sum.splits)
  with a(1,2) have "identity_signed (vault_verdict c) (nc_history n) who (data pk)"
    unfolding identity_signed_def wv.decode_identity_iff by blast
  with a(4) show ?thesis by blast
qed

subsection \<open>The vault of a node\<close>

text \<open>Vault and storage of a node satisfy the contract of the key exchange, together with any condition
  on the storage, which the vault does not touch.\<close>

abbreviation world_look :: "World \<Rightarrow> KeyId \<Rightarrow> StoredSecret option" where
  "world_look w \<equiv> look_up (fst w)"

definition world_good :: "Crypto \<Rightarrow> (InMemoryStorage \<Rightarrow> bool) \<Rightarrow> nat \<Rightarrow> World \<Rightarrow> bool" where
  "world_good c P b w \<longleftrightarrow> vault_good c b (fst w) \<and> P (snd w)"

lemma world_vault_ops:
  "xx_import (world_vault c) = (\<lambda>s att. run_fst (xx_import (to_xx_vault c) s att))"
  "xx_delete (world_vault c) = (\<lambda>k. run_fst (xx_delete (to_xx_vault c) k))"
  "xx_attributes (world_vault c) = (\<lambda>k. run_fst (xx_attributes (to_xx_vault c) k))"
  "xx_encrypt (world_vault c) = (\<lambda>k m n a. run_fst (xx_encrypt (to_xx_vault c) k m n a))"
  "xx_decrypt (world_vault c) = (\<lambda>k m n a. run_fst (xx_decrypt (to_xx_vault c) k m n a))"
  "xx_create (world_vault c) = (\<lambda>att. run_fst (xx_create (to_xx_vault c) att))"
  "xx_public_key (world_vault c) = (\<lambda>k. run_fst (xx_public_key (to_xx_vault c) k))"
  "xx_diffie_hellman (world_vault c) = (\<lambda>k pk. run_fst (xx_diffie_hellman (to_xx_vault c) k pk))"
  "xx_hkdf (world_vault c) = (\<lambda>k i ikm atts. run_fst (xx_hkdf (to_xx_vault c) k i ikm atts))"
  by (simp_all add: world_vault_def lift_vault_def to_identities_vault_def to_xx_ops)

interpretation xw: symmetric_vault "world_vault c" world_look "world_good c P"
    "aes256_gcm_encrypt c" "aes256_gcm_decrypt c" for c P
proof
  show "world_good c P b w" if "world_good c P (Suc b) w" for b w
    using that av.good_less by (auto simp: world_good_def)
  show "\<exists>k w'. xx_import (world_vault c) s att w = Inr (Inr k, w') \<and> world_good c P b w' \<and> world_look w k = None
      \<and> world_look w' = (world_look w)(k \<mapsto> \<lparr>secret = s, attributes = att\<rparr>)"
    if "world_good c P (Suc b) w" "secret_type att \<in> {BufferType, AesType}" "unat (attributes_length att) \<le> length s"
    for b w att s
    using av.import_law [of c b "fst w" att s] that by (auto simp: world_good_def world_vault_ops run_fst_Inr)
  show "\<exists>w'. xx_delete (world_vault c) k w = Inr (Inr (world_look w k \<noteq> None), w') \<and> world_good c P b w'
      \<and> world_look w' = (world_look w)(k := None)"
    if "world_good c P b w" for b w k
    using av.delete_law [of c b "fst w" k] that by (auto simp: world_good_def world_vault_ops run_fst_Inr)
  show "xx_attributes (world_vault c) k w = Inr (Inr (attributes st), w)" if "world_look w k = Some st" for w k st
    using av.attributes_law [OF that] by (simp add: world_vault_ops run_fst_Inr)
  show "xx_encrypt (world_vault c) k m n a w = Inr (ok_or (aes256_gcm_encrypt c s n a m) (vault_error AeadAesGcmEncrypt), w)"
    if "world_good c P b w" "world_look w k = Some \<lparr>secret = s, attributes = Aes256\<rparr>" "length s = 32" "length n = 12"
    for b w k s n m a
    using av.encrypt_law [of c b "fst w" k s n m a] that by (simp add: world_good_def world_vault_ops run_fst_Inr)
  show "xx_decrypt (world_vault c) k m n a w = Inr (ok_or (aes256_gcm_decrypt c s n a m) (vault_error AeadAesGcmDecrypt), w)"
    if "world_good c P b w" "world_look w k = Some \<lparr>secret = s, attributes = Aes256\<rparr>" "length s = 32" "length n = 12"
    for b w k s n m a
    using av.decrypt_law [of c b "fst w" k s n m a] that by (simp add: world_good_def world_vault_ops run_fst_Inr)
  show "\<exists>ct. aes256_gcm_encrypt c s n a m = Some ct \<and> length ct = length m + 16"
    if "world_good c P b w" "length s = 32" "length n = 12" "length m \<le> max_plaintext" for b w s n m a
    using av.seal_law that unfolding world_good_def by blast
  show "aes256_gcm_decrypt c s n a ct = Some m \<longleftrightarrow> aes256_gcm_encrypt c s n a m = Some ct"
    if "world_good c P b w" "length s = 32" "length n = 12" for b w s n a ct m
    using av.unseal_law that unfolding world_good_def by blast
qed

interpretation xv: agreement_vault "world_vault c" world_look "world_good c P"
    "aes256_gcm_encrypt c" "aes256_gcm_decrypt c" "x25519_public_key c" "x25519_diffie_hellman c" "hkdf_pair c"
  for c P
proof
  show "\<exists>k s w'. xx_create (world_vault c) X25519 w = Inr (Inr k, w') \<and> world_good c P b w' \<and> length s = 32
      \<and> world_look w' = (world_look w)(k \<mapsto> \<lparr>secret = s, attributes = X25519\<rparr>)"
    if "world_good c P (Suc b) w" for b w
    using av.create_law [of c b "fst w"] that by (fastforce simp: world_good_def world_vault_ops run_fst_Inr)
  show "xx_public_key (world_vault c) k w = Inr (Inr \<lparr>data = x25519_public_key c s, stype = X25519Type\<rparr>, w)"
    if "world_good c P b w" "world_look w k = Some \<lparr>secret = s, attributes = X25519\<rparr>" "length s = 32" for b w k s
    using av.public_law [of c b "fst w" k s] that by (simp add: world_good_def world_vault_ops run_fst_Inr)
  show "length (x25519_public_key c s) = 32" if "world_good c P b w" "length s = 32" for b w s
    using av.public_length that unfolding world_good_def by blast
  show "length (x25519_diffie_hellman c s q) = 32"
    if "world_good c P b w" "length s = 32" "length q = 32" for b w s q
    using av.agree_length that unfolding world_good_def by blast
  show "x25519_diffie_hellman c s (x25519_public_key c t) = x25519_diffie_hellman c t (x25519_public_key c s)"
    if "world_good c P b w" "length s = 32" "length t = 32" for b w s t
    using av.agree_commutes that unfolding world_good_def by blast
  show "\<exists>d w'. xx_diffie_hellman (world_vault c) k pk w = Inr (Inr d, w') \<and> world_good c P b w' \<and> world_look w d = None
      \<and> world_look w' = (world_look w)(d \<mapsto> \<lparr>secret = x25519_diffie_hellman c s (data pk), attributes = Buffer 32\<rparr>)"
    if "world_good c P (Suc b) w" "world_look w k = Some \<lparr>secret = s, attributes = X25519\<rparr>" "length s = 32"
      "length (data pk) = 32" for b w k s and pk :: PublicKey
    using av.diffie_hellman_law [of c b "fst w" k s pk] that by (auto simp: world_good_def world_vault_ops run_fst_Inr)
  show "length (hkdf_pair c s i) = 64" if "world_good c P b w" for b w s i
    using av.derive_length that unfolding world_good_def by blast
  show "\<exists>k1 k2 w'. xx_hkdf (world_vault c) salt [] ikm [a1, a2] w = Inr (Inr [k1, k2], w') \<and> world_good c P b w'
      \<and> world_look w k1 = None \<and> world_look w k2 = None \<and> k1 \<noteq> k2
      \<and> world_look w' = (world_look w)(k1 \<mapsto> \<lparr>secret = take 32 (hkdf_pair c s i), attributes = a1\<rparr>,
          k2 \<mapsto> \<lparr>secret = drop 32 (hkdf_pair c s i), attributes = a2\<rparr>)"
    if "world_good c P (Suc (Suc b)) w" "world_look w salt = Some \<lparr>secret = s, attributes = Buffer 32\<rparr>"
      "case ikm of None \<Rightarrow> i = [] | Some k \<Rightarrow> world_look w k = Some \<lparr>secret = i, attributes = Buffer 32\<rparr>"
      "a1 \<in> {Buffer 32, Aes256}" "a2 \<in> {Buffer 32, Aes256}" for b w salt s ikm i a1 a2
    using av.hkdf_law [OF _ that(2-5), of c b] that(1) by (auto simp: world_good_def world_vault_ops run_fst_Inr)
qed

subsection \<open>Parties\<close>

text \<open>A node would store \<open>identity\<close>: it knows nothing about it, or a part of its history.\<close>

definition accepts_identity :: "IdentityCodec \<Rightarrow> Identity \<Rightarrow> InMemoryStorage \<Rightarrow> bool" where
  "accepts_identity p identity m \<longleftrightarrow> mem_get m (identity_identifier identity) CHANGE_HISTORY_KEY = None
     \<or> (\<exists>h. stored_history (mem_get m) p (identity_identifier identity) = Some h
          \<and> history_compare (change_history identity) h \<in> {HistoryEqual, HistoryNewer})"

lemma accepted_update:
  assumes "codec_lawful p" "check_consistency [] (change_history identity)" "accepts_identity p identity (snd w)"
  obtains m where "update_identity in_memory p identity w = Inr (Inr (), (fst w, m))" "accepts_identity p identity m"
    "\<forall>other. identity_identifier other \<noteq> identity_identifier identity \<longrightarrow>
       accepts_identity p other m = accepts_identity p other (snd w)"
proof -
  let ?i = "identity_identifier identity"
  consider (same) h where "stored_history (mem_get (snd w)) p ?i = Some h" "history_compare (change_history identity) h = HistoryEqual"
    | (new) "mem_get (snd w) ?i CHANGE_HISTORY_KEY = None \<or> (\<exists>h. stored_history (mem_get (snd w)) p ?i = Some h
          \<and> history_compare (change_history identity) h = HistoryNewer)"
    using assms(3) by (auto simp: accepts_identity_def)
  then show ?thesis
  proof cases
    case same
    then have "update_identity in_memory p identity w = Inr (Inr (), w)"
      by (simp add: update_identity_def ms.retrieve_stored run_simps Identity_new_def run_ok_def)
    then show ?thesis using that [of "snd w"] assms(3) by simp
  next
    case new
    obtain d w' where u: "update_identity in_memory p identity w = Inr (Inr (), w')"
        "mem_get (snd w') = (mem_get (snd w))(?i := (mem_get (snd w) ?i)(CHANGE_HISTORY_KEY \<mapsto> d))"
        "fst w' = fst w" "stored_history (mem_get (snd w')) p ?i = Some (change_history identity)"
      using ms.update_store [OF assms(1,2) new] .
    have "accepts_identity p other (snd w') = accepts_identity p other (snd w)"
      if "identity_identifier other \<noteq> ?i" for other
      using that by (simp add: accepts_identity_def stored_history_def u(2))
    moreover have "accepts_identity p identity (snd w')" using u(4) by (auto simp: accepts_identity_def)
    ultimately show ?thesis using that [of "snd w'"] u(1,3) by (metis prod.collapse)
  qed
qed

text \<open>The owner of an identity, ready for a handshake: the keys to be drawn for it do not collide with each
  other or with a signing key.\<close>

definition channel_party :: "Crypto \<Rightarrow> IdentityCodec \<Rightarrow> nat \<Rightarrow> Identity \<Rightarrow> World \<Rightarrow> bool" where
  "channel_party c p b identity w \<longleftrightarrow> vault_good c (b + 2) (fst w) \<and> vault_ready c 0 (fst w)
     \<and> owned (vault_verdict c) p (vault_holds c (fst w)) identity
     \<and> stored_history (mem_get (snd w)) p (identity_identifier identity) = Some (change_history identity)
     \<and> vault_holds c (fst w) (agreement_id c (fst w) (draws (fst w))) = None
     \<and> agreement_id c (fst w) (draws (fst w)) \<noteq> agreement_id c (fst w) (Suc (draws (fst w)))"

text \<open>A payload presents an identity for a static key.\<close>

definition presents ::
  "Crypto \<Rightarrow> IdentityCodec \<Rightarrow> Credential IdentityAndCredentials \<Rightarrow> Identity \<Rightarrow> bytes \<Rightarrow> bool" where
  "presents c p peer identity pk \<longleftrightarrow> iac_credentials peer = []
     \<and> (\<forall>u. decode_identity (world_vault c) p (iac_identity peer) u = Inr (Inr identity, u))
     \<and> (\<forall>u. identity_verify_signature (world_vault c) identity (iac_signature peer) pk None u = Inr (Inr True, u))"

text \<open>The payload with an identity and an Ed25519 signature is encoded, read back, and fits into a message.\<close>

definition presentable :: "NodeCodecs \<Rightarrow> Identity \<Rightarrow> bool" where
  "presentable n identity \<longleftrightarrow> (\<forall>d sig. history_export (nc_history n) (change_history identity) = Inr d \<longrightarrow>
     length sig = 64 \<longrightarrow> (\<exists>pl. length pl \<le> max_plaintext
       \<and> nc_encode n \<lparr>iac_identity = d, iac_signature = sig, iac_credentials = []\<rparr> = Inr pl
       \<and> nc_decode n pl = Some \<lparr>iac_identity = d, iac_signature = sig, iac_credentials = []\<rparr>))"

lemma with_agreement_fields [simp]:
  "rng (with_agreement_key c v) = rng v" "draws (with_agreement_key c v) = Suc (draws v)"
  "look_up (with_agreement_key c v) = (look_up v)(agreement_id c v (draws v) \<mapsto> curve_secret (rng v (draws v) 32))"
  "agreement_id c (with_agreement_key c v) = agreement_id c v"
  by (simp_all add: with_agreement_key_def agreement_id_def [abs_def] bt_get_insert_fun)

lemma stored_with_agreement:
  "stored_secret (with_agreement_key c v) =
     (stored_secret v)(agreement_id c v (draws v) \<mapsto> curve_secret (rng v (draws v) 32))"
proof -
  have "persistent_secrets (with_agreement_key c v) = persistent_secrets v" by (simp add: with_agreement_key_def)
  then show ?thesis by (simp add: stored_secret_def fun_eq_iff split: option.split)
qed

lemma holds_with_agreement:
  assumes "vault_holds c v (agreement_id c v (draws v)) = None"
  shows "vault_holds c (with_agreement_key c v) = vault_holds c v"
proof
  fix k
  show "vault_holds c (with_agreement_key c v) k = vault_holds c v k"
    using assms by (cases "k = agreement_id c v (draws v)") (simp_all add: vault_holds_def [of c "with_agreement_key c v"]
      vault_holds_def [of c v k] stored_with_agreement)
qed

lemma ready_with_agreement: "vault_ready c 0 v \<Longrightarrow> vault_ready c 0 (with_agreement_key c v)"
  by (simp add: vault_ready_def)

text \<open>A signature that verifies against a key the vault holds is an Ed25519 signature.\<close>

lemma root_signature_length:
  assumes "owned (vault_verdict c) p (vault_holds c v) identity"
    "identity_verify_signature (world_vault c) identity sig m None u = Inr (Inr True, u)"
  shows "length sig = 64"
proof -
  obtain sc where sc: "find_last_key_change (change_history identity) ROOT_LABEL = Inr sc"
    using assms(1) by (auto simp: owned_def usable_def is_ok_iff)
  with assms(1) obtain k where "vault_holds c v k = Some (change_public_key (ch_change sc))"
    unfolding owned_def usable_def by blast
  then have "stype (change_public_key (ch_change sc)) = Ed25519Type"
    by (elim vault_holdsE) (simp add: ed25519_key_def PublicKey_new_def)
  moreover have "vault_verdict c (change_public_key (ch_change sc)) m sig = Inr True"
    using assms(2) sc
    by (simp add: identity_verify_signature_def Identity_get_public_key_def get_public_key_static_def run_simps wv.verify_law)
  ultimately show ?thesis by (auto simp: vault_verdict_def split: if_splits)
qed

lemma party_machine:
  assumes "codec_lawful (nc_history n)" "presentable n identity" "channel_party c (nc_history n) b identity w"
  obtains sm w' ss es payload peer where
    "StateMachine_new (world_vault c) (node_services c n s) (identity_identifier identity) [] w = Inr (Inr sm, w')"
    "nc_decode n payload = Some peer"
    "presents c (nc_history n) peer identity (x25519_public_key c ss)"
    "new_machine world_look w' sm ss es payload"
    "vault_good c b (fst w')" "snd w' = snd w"
proof -
  let ?p = "nc_history n" and ?v = "fst w" and ?k = "agreement_id c (fst w)"
  let ?v1 = "with_agreement_key c ?v" and ?ss = "rng (fst w) (draws (fst w)) 32"
  let ?v2 = "with_agreement_key c ?v1" and ?es = "rng (fst w) (Suc (draws (fst w))) 32"
  have party: "vault_good c (Suc (Suc b)) ?v" "vault_ready c 0 ?v" "owned (vault_verdict c) ?p (vault_holds c ?v) identity"
      "stored_history (mem_get (snd w)) ?p (identity_identifier identity) = Some (change_history identity)"
      "vault_holds c ?v (?k (draws ?v)) = None" "?k (draws ?v) \<noteq> ?k (Suc (draws ?v))"
    using assms(3) by (simp_all add: channel_party_def)
  have len: "length (rng ?v i m) = m" for i m using party(1) by (simp add: vault_good_def ids_fresh_def)
  have create: "xx_create (world_vault c) X25519 w = Inr (Inr (?k (draws ?v)), (?v1, snd w))"
      "xx_create (world_vault c) X25519 (?v1, snd w) = Inr (Inr (?k (Suc (draws ?v))), (?v2, snd w))"
    by (simp_all add: world_vault_ops to_xx_ops run_fst_Inr create_agreement_secret len)
  have own: "owned (vault_verdict c) ?p (vault_holds c ?v1) identity" using party(3,5) by (simp add: holds_with_agreement)
  obtain d where d: "history_export ?p (change_history identity) = Inr d"
      "\<forall>u. decode_identity (world_vault c) ?p d u = Inr (Inr identity, u)"
    using wv.owned_export [OF assms(1) own] .
  obtain sc where sc: "find_last_key_change (change_history identity) (case None of Some l \<Rightarrow> l | None \<Rightarrow> ROOT_LABEL) = Inr sc"
    using own by (auto simp: owned_def usable_def is_ok_iff)
  obtain sig where sig: "create_signature (world_vault c) identity (x25519_public_key c ?ss) None (?v1, snd w)
        = Inr (Inr sig, (?v1, snd w))"
      "\<forall>u. identity_verify_signature (world_vault c) identity sig (x25519_public_key c ?ss) None u = Inr (Inr True, u)"
    by (rule wv.signature_verifies [OF _ _ sc, of c 0 "(?v1, snd w)" ?p])
       (use ready_with_agreement [OF party(2)] own in auto)
  define peer where "peer = \<lparr>iac_identity = d, iac_signature = sig, iac_credentials = [] :: Credential list\<rparr>"
  have "length sig = 64" using root_signature_length [OF own] sig(2) by blast
  with assms(2) d(1) obtain payload where payload: "nc_encode n peer = Inr payload" "nc_decode n payload = Some peer"
      "length payload \<le> max_plaintext"
    unfolding presentable_def peer_def by blast
  have pk: "xx_public_key (world_vault c) (?k (draws ?v)) (?v1, snd w)
      = Inr (Inr \<lparr>data = x25519_public_key c ?ss, stype = X25519Type\<rparr>, (?v1, snd w))"
    using xv.public_law [of c "\<lambda>_. True" "Suc b" "(?v1, snd w)" "?k (draws ?v)" ?ss]
      with_agreement_good [OF party(1)] len by (simp add: world_good_def)
  define sm where "sm = \<lparr>sm_handshake = HandshakeState_new (?k (draws ?v)) (?k (Suc (draws ?v))),
    sm_identity_payload = Some payload, sm_their_identifier = None\<rparr>"
  have get: "get_identity in_memory ?p (identity_identifier identity) (?v1, snd w) = Inr (Inr identity, (?v1, snd w))"
    using ms.get_stored [of "(?v1, snd w)" ?p "identity_identifier identity"] party(4) by (simp add: Identity_new_def)
  show ?thesis
  proof (rule that)
    show "StateMachine_new (world_vault c) (node_services c n s) (identity_identifier identity) [] w
        = Inr (Inr sm, (?v2, snd w))"
      using create get d(1) pk sig(1) payload(1)
      by (simp add: StateMachine_new_def get_static_key_def make_identity_payload_def sign_static_key_def
          Handshake_new_def generate_ephemeral_key_def run_simps run_ok_def peer_def sm_def)
    show "new_machine world_look (?v2, snd w) sm ?ss ?es payload"
      using len party(6) payload(3) by (simp add: new_machine_def sm_def HandshakeState_new_def)
    show "presents c ?p peer identity (x25519_public_key c ?ss)"
      using d(2) sig(2) by (simp add: presents_def peer_def)
    show "vault_good c b (fst (?v2, snd w))" using with_agreement_good [OF with_agreement_good [OF party(1)]] by simp
  qed (use payload(2) in \<open>simp_all add: sm_def\<close>)
qed

text \<open>A node that trusts the peer takes such a payload for the identity.\<close>

lemma presents_vouches:
  assumes "codec_lawful (nc_history n)" "nc_decode n pl = Some peer"
    "presents c (nc_history n) peer identity pk" "\<forall>u. cs_trust_policy s (identity_identifier identity) u = Inr (Inr True, u)"
    "identity_identifier other \<noteq> identity_identifier identity"
    and P: "\<And>m. P m \<longleftrightarrow> accepts_identity (nc_history n) identity m \<and> accepts_identity (nc_history n) other m"
  shows "vouches (world_good c P) world_look (node_services c n s) pl pk (identity_identifier identity)"
proof -
  have h: "check_consistency [] (change_history identity)"
    using assms(3) wv.decode_identity_iff by (auto simp: presents_def valid_history_consistent)
  have "\<exists>w'. check_peer (node_services c n s) peer (PublicKey_new pk X25519Type) w
        = Inr (Inr (identity_identifier identity), w') \<and> world_good c P b w' \<and> world_look w' = world_look w"
    if good: "world_good c P b w" for b w
  proof -
    have "accepts_identity (nc_history n) identity (snd w)" using good P by (simp add: world_good_def)
    then obtain m where m: "update_identity in_memory (nc_history n) identity w = Inr (Inr (), (fst w, m))"
        "accepts_identity (nc_history n) identity m"
        "\<forall>other. identity_identifier other \<noteq> identity_identifier identity \<longrightarrow>
           accepts_identity (nc_history n) other m = accepts_identity (nc_history n) other (snd w)"
      using accepted_update [OF assms(1) h] by metis
    have sig: "verify_signature (node_services c n s) identity (iac_signature peer) (PublicKey_new pk X25519Type) w
        = Inr (Inr (), w)"
      using assms(3) by (simp add: verify_signature_def presents_def PublicKey_new_def run_simps run_ok_def del: split_paired_All)
    have cred: "verify_credentials (node_services c n s) identity (iac_credentials peer) w = Inr (Inr (), (fst w, m))"
      using assms(3,4) m(1)
      by (cases "id_authority (node_services c n s)")
         (simp_all add: verify_credentials_def presents_def run_simps run_ok_def del: split_paired_All)
    have "decode_identity (world_vault c) (nc_history n) (iac_identity peer) w = Inr (Inr identity, w)"
      using assms(3) by (simp add: presents_def del: split_paired_All)
    then have "check_peer (node_services c n s) peer (PublicKey_new pk X25519Type) w
        = Inr (Inr (identity_identifier identity), (fst w, m))"
      using sig cred by (simp add: check_peer_def run_simps run_ok_def)
    moreover have "world_good c P b (fst w, m)" using good m(2,3) P assms(5) by (simp add: world_good_def)
    ultimately show ?thesis by auto
  qed
  with assms(2) show ?thesis by (auto simp: vouches_def)
qed

lemma parties_meet:
  assumes n: "codec_lawful (nc_history n)" "presentable n ida" "presentable n idb"
    and party: "channel_party c (nc_history n) b ida wa" "channel_party c (nc_history n) b idb wb"
    and known: "accepts_identity (nc_history n) idb (snd wa)" "accepts_identity (nc_history n) ida (snd wb)"
    and trust: "\<forall>u. cs_trust_policy sa (identity_identifier idb) u = Inr (Inr True, u)"
      "\<forall>u. cs_trust_policy sb (identity_identifier ida) u = Inr (Inr True, u)"
    and ne: "identity_identifier ida \<noteq> identity_identifier idb"
  obtains sma wa' smb wb' pa pb ssa esa ssb esb P where
    "StateMachine_new (world_vault c) (node_services c n sa) (identity_identifier ida) [] wa = Inr (Inr sma, wa')"
    "StateMachine_new (world_vault c) (node_services c n sb) (identity_identifier idb) [] wb = Inr (Inr smb, wb')"
    "world_good c P b wa'" "new_machine world_look wa' sma ssa esa pa"
    "vouches (world_good c P) world_look (node_services c n sa) pb (x25519_public_key c ssb) (identity_identifier idb)"
    "world_good c P b wb'" "new_machine world_look wb' smb ssb esb pb"
    "vouches (world_good c P) world_look (node_services c n sb) pa (x25519_public_key c ssa) (identity_identifier ida)"
proof -
  let ?p = "nc_history n"
  define P where "P m \<longleftrightarrow> accepts_identity ?p ida m \<and> accepts_identity ?p idb m" for m
  have own: "accepts_identity ?p ida (snd wa)" "accepts_identity ?p idb (snd wb)"
    using party by (auto simp: accepts_identity_def channel_party_def)
  obtain sma wa' ssa esa pa peera where a:
      "StateMachine_new (world_vault c) (node_services c n sa) (identity_identifier ida) [] wa = Inr (Inr sma, wa')"
      "nc_decode n pa = Some peera" "presents c ?p peera ida (x25519_public_key c ssa)"
      "new_machine world_look wa' sma ssa esa pa" "vault_good c b (fst wa')" "snd wa' = snd wa"
    using party_machine [OF n(1,2) party(1)] .
  obtain smb wb' ssb esb pb peerb where b:
      "StateMachine_new (world_vault c) (node_services c n sb) (identity_identifier idb) [] wb = Inr (Inr smb, wb')"
      "nc_decode n pb = Some peerb" "presents c ?p peerb idb (x25519_public_key c ssb)"
      "new_machine world_look wb' smb ssb esb pb" "vault_good c b (fst wb')" "snd wb' = snd wb"
    using party_machine [OF n(1,3) party(2)] .
  have "world_good c P b wa'" "world_good c P b wb'"
    using a(5,6) b(5,6) known own by (simp_all add: world_good_def P_def)
  moreover have "vouches (world_good c P) world_look (node_services c n sa) pb (x25519_public_key c ssb) (identity_identifier idb)"
    by (rule presents_vouches [OF n(1) b(2,3) trust(1) ne]) (auto simp: P_def)
  moreover have "vouches (world_good c P) world_look (node_services c n sb) pa (x25519_public_key c ssa) (identity_identifier ida)"
    by (rule presents_vouches [OF n(1) a(2,3) trust(2) ne [symmetric]]) (auto simp: P_def)
  ultimately show ?thesis using that a(1,4) b(1,4) by blast
qed

text \<open>A new identity is a party.\<close>

lemma new_party:
  assumes "codec_lawful p" "vault_ready c 1 v" "vault_good c (b + 3) v"
    "\<forall>k. vault_holds c v k = None" "signing_id c v (draws v) \<noteq> agreement_id c v (Suc (draws v))"
    "agreement_id c v (Suc (draws v)) \<noteq> agreement_id c v (Suc (Suc (draws v)))"
  obtains identity w where "create_identity (world_vault c) p in_memory (v, []) = Inr (Inr identity, w)"
    "channel_party c p b identity w"
    "\<forall>other. identity_identifier other \<noteq> identity_identifier identity \<longrightarrow> accepts_identity p other (snd w)"
proof -
  have ready: "vault_ready c (Suc 0) v" using assms(2) by simp
  obtain identity w where i: "create_identity (world_vault c) p in_memory (v, []) = Inr (Inr identity, w)"
    "owned (vault_verdict c) p (vault_holds c (fst w)) identity" "vault_ready c 0 (fst w)"
    "stored_history (mem_get (snd w)) p (identity_identifier identity) = Some (change_history identity)"
    "fst w = with_signing_key c v"
    "\<forall>i. i \<noteq> identity_identifier identity \<longrightarrow> mem_get (snd w) i CHANGE_HISTORY_KEY = None"
    using new_identity [OF assms(1) ready] .
  have ids: "agreement_id c (with_signing_key c v) = agreement_id c v" "draws (with_signing_key c v) = Suc (draws v)"
    by (simp_all add: agreement_id_def [abs_def] with_signing_key_def)
  have "stored_secret (with_signing_key c v) k = stored_secret v k" if "k \<noteq> signing_id c v (draws v)" for k
    using that by (simp add: stored_secret_def with_signing_key_def bt_get_insert split: option.split)
  then have "vault_holds c (with_signing_key c v) (agreement_id c v (Suc (draws v))) = vault_holds c v (agreement_id c v (Suc (draws v)))"
    using assms(5) by (simp add: vault_holds_def)
  moreover have "vault_good c (b + 2) (with_signing_key c v)" by (rule with_signing_good) (use assms(3) in \<open>simp add: eval_nat_numeral\<close>)
  ultimately have "channel_party c p b identity w"
    using i(2-5) assms(4,6) by (simp add: channel_party_def ids)
  then show ?thesis using that [OF i(1)] i(6) by (simp add: accepts_identity_def)
qed

subsection \<open>Two sample nodes\<close>

definition payload_strings :: "Credential IdentityAndCredentials \<Rightarrow> string list" where
  "payload_strings x = iac_identity x # iac_signature x
     # concat (map (\<lambda>cr. [cred_data cr, cred_signature cr]) (iac_credentials x))"

fun strings_credentials :: "string list \<Rightarrow> Credential list option" where
  "strings_credentials [] = Some []"
| "strings_credentials (d # s # xs) = map_option (\<lambda>cs. \<lparr>cred_data = d, cred_signature = s\<rparr> # cs) (strings_credentials xs)"
| "strings_credentials [d] = None"

definition sample_node :: NodeCodecs where
  "sample_node = \<lparr>nc_history = sample_codec, nc_attributes = sample_ac, nc_credentials = sample_cc,
     nc_encode = (\<lambda>x. Inr (encode_list encode_string (payload_strings x))),
     nc_decode = (\<lambda>d. case decode_list (length d) decode_string d of
        Some (i # s # xs, []) \<Rightarrow> map_option (\<lambda>cs. \<lparr>iac_identity = i, iac_signature = s, iac_credentials = cs\<rparr>)
          (strings_credentials xs)
      | _ \<Rightarrow> None)\<rparr>"

definition sample_setup :: "IdentityIdentifier list \<Rightarrow> ChannelSetup" where
  "sample_setup ids = \<lparr>cs_clock = Some 100, cs_clock' = Some 100,
     cs_trust_policy = TrustMultiIdentifiersPolicy ids, cs_trust_context = None\<rparr>"

definition sample_node_vault :: "nat \<Rightarrow> Vault" where
  "sample_node_vault i = sample_vault\<lparr>draws := i\<rparr>"

lemma strings_credentials_of:
  "strings_credentials (concat (map (\<lambda>cr. [cred_data cr, cred_signature cr]) cs)) = Some cs"
  by (induction cs) auto

lemma sample_payload_roundtrip: "nc_encode sample_node x = Inr pl \<Longrightarrow> nc_decode sample_node pl = Some x"
  using prefix_codeD [OF prefix_code_list [OF prefix_code_string], of "payload_strings x" "[]"]
  by (auto simp: sample_node_def payload_strings_def strings_credentials_of simp del: encode_list.simps decode_list.simps)

lemma length_encode_string: "length (encode_string x) = 2 * length x + 1"
  by (induction x) (simp_all add: encode_char_def)

lemma sample_presentable:
  assumes "length (sample_encode_history (change_history identity)) \<le> 10000"
  shows "presentable sample_node identity"
  unfolding presentable_def
proof (intro allI impI)
  fix d sig :: bytes
  let ?x = "\<lparr>iac_identity = d, iac_signature = sig, iac_credentials = []\<rparr> :: Credential IdentityAndCredentials"
  assume "history_export (nc_history sample_node) (change_history identity) = Inr d" "length sig = 64"
  then have "length (encode_list encode_string (payload_strings ?x)) \<le> max_plaintext"
    using assms
    by (auto simp: sample_node_def sample_codec_def history_export_def ok_or_def payload_strings_def
        length_encode_string max_plaintext_def)
  moreover have enc: "nc_encode sample_node ?x = Inr (encode_list encode_string (payload_strings ?x))"
    by (simp add: sample_node_def)
  moreover note sample_payload_roundtrip [OF enc]
  ultimately show "\<exists>pl. length pl \<le> max_plaintext \<and> nc_encode sample_node ?x = Inr pl \<and> nc_decode sample_node pl = Some ?x"
    by blast
qed

primrec int_length :: "'a list \<Rightarrow> int" where
  "int_length [] = 0"
| "int_length (x # xs) = 1 + int_length xs"

lemma int_length_eq: "int_length xs = int (length xs)"
  by (induction xs) simp_all

definition sample_identity :: "nat \<Rightarrow> char \<Rightarrow> bool" where
  "sample_identity i x \<longleftrightarrow>
     (case create_identity (world_vault sample_crypto) sample_codec in_memory (sample_node_vault i, []) of
        Inr (Inr identity, w) \<Rightarrow> identity_identifier identity = CHR ''P'' # replicate 64 x
          \<and> int_length (sample_encode_history (change_history identity)) \<le> 10000
      | _ \<Rightarrow> False)"

lemma sample_identities: "sample_identity 65 (CHR ''A'')" "sample_identity 97 (CHR ''a'')"
  by code_simp+

lemma sample_agreement_id: "agreement_id sample_crypto (sample_node_vault j) i = replicate 64 (char_of i)"
  by (simp add: agreement_id_def sample_crypto_def sample_node_vault_def sample_vault_def numeral_eq_Suc)

lemma sample_node_party:
  assumes "sample_identity i x" "i \<le> 100"
  obtains identity w where
    "create_identity (world_vault sample_crypto) sample_codec in_memory (sample_node_vault i, []) = Inr (Inr identity, w)"
    "channel_party sample_crypto sample_codec 16 identity w" "presentable sample_node identity"
    "\<forall>other. identity_identifier other \<noteq> identity_identifier identity \<longrightarrow> accepts_identity sample_codec other (snd w)"
    "identity_identifier identity = CHR ''P'' # replicate 64 x"
proof -
  let ?v = "sample_node_vault i"
  have ids: "signing_id sample_crypto ?v = signing_id sample_crypto sample_vault"
      "random_id sample_crypto ?v = random_id sample_crypto sample_vault"
      "stored_secret ?v = stored_secret sample_vault" "rng ?v = rng sample_vault" "draws ?v = i"
      "ephemeral_secrets ?v = ephemeral_secrets sample_vault"
    by (simp_all add: sample_node_vault_def signing_id_def random_id_def stored_secret_def fun_eq_iff split: option.split)
  have start: "draws sample_vault = 0" by (simp add: sample_vault_def)
  have ready: "vault_ready sample_crypto 1 ?v"
    using sample_vault_ready [of 256] assms(2) by (auto simp: vault_ready_def ids start)
  have good: "vault_good sample_crypto (16 + 3) ?v"
    using sample_vault_good [of 256] assms(2)
    by (auto simp: vault_good_def ids_fresh_def ids start elim!: inj_on_subset)
  have none: "\<forall>k. vault_holds sample_crypto ?v k = None"
    by (auto simp: vault_holds_def ids) (simp add: stored_secret_def sample_vault_def bt_get_def split: if_splits)
  have distinct: "char_of i \<noteq> (char_of (Suc i) :: char)" "char_of (Suc i) \<noteq> (char_of (Suc (Suc i)) :: char)"
    using assms(2) by (auto dest!: arg_cong [where f = "of_char :: char \<Rightarrow> nat"])
  obtain identity w where p:
      "create_identity (world_vault sample_crypto) sample_codec in_memory (?v, []) = Inr (Inr identity, w)"
      "channel_party sample_crypto sample_codec 16 identity w"
      "\<forall>other. identity_identifier other \<noteq> identity_identifier identity \<longrightarrow> accepts_identity sample_codec other (snd w)"
    by (rule new_party [OF sample_codec_lawful ready good none])
       (use distinct in \<open>auto simp: ids sample_signing_id sample_agreement_id\<close>)
  have "identity_identifier identity = CHR ''P'' # replicate 64 x" "presentable sample_node identity"
    using assms(1) p(1) by (auto simp: sample_identity_def int_length_eq intro: sample_presentable)
  with p that show ?thesis by blast
qed

lemma sample_nodes_meet:
  obtains ida idb wa wb where
    "create_identity (world_vault sample_crypto) sample_codec in_memory (sample_node_vault 65, []) = Inr (Inr ida, wa)"
    "create_identity (world_vault sample_crypto) sample_codec in_memory (sample_node_vault 97, []) = Inr (Inr idb, wb)"
    "presentable sample_node ida" "presentable sample_node idb"
    "channel_party sample_crypto sample_codec 16 ida wa" "channel_party sample_crypto sample_codec 16 idb wb"
    "accepts_identity sample_codec idb (snd wa)" "accepts_identity sample_codec ida (snd wb)"
    "\<forall>u. cs_trust_policy (sample_setup [CHR ''P'' # replicate 64 (CHR ''a'')]) (identity_identifier idb) u = Inr (Inr True, u)"
    "\<forall>u. cs_trust_policy (sample_setup [CHR ''P'' # replicate 64 (CHR ''A'')]) (identity_identifier ida) u = Inr (Inr True, u)"
    "identity_identifier ida = CHR ''P'' # replicate 64 (CHR ''A'')" "identity_identifier idb = CHR ''P'' # replicate 64 (CHR ''a'')"
proof -
  obtain ida wa where a: "create_identity (world_vault sample_crypto) sample_codec in_memory (sample_node_vault 65, []) = Inr (Inr ida, wa)"
    "channel_party sample_crypto sample_codec 16 ida wa" "presentable sample_node ida"
    "\<forall>other. identity_identifier other \<noteq> identity_identifier ida \<longrightarrow> accepts_identity sample_codec other (snd wa)"
    "identity_identifier ida = CHR ''P'' # replicate 64 (CHR ''A'')"
    by (rule sample_node_party [OF sample_identities(1)]) (simp, rule that)
  obtain idb wb where b: "create_identity (world_vault sample_crypto) sample_codec in_memory (sample_node_vault 97, []) = Inr (Inr idb, wb)"
    "channel_party sample_crypto sample_codec 16 idb wb" "presentable sample_node idb"
    "\<forall>other. identity_identifier other \<noteq> identity_identifier idb \<longrightarrow> accepts_identity sample_codec other (snd wb)"
    "identity_identifier idb = CHR ''P'' # replicate 64 (CHR ''a'')"
    by (rule sample_node_party [OF sample_identities(2)]) (simp, rule that)
  show ?thesis
    by (rule that [OF a(1) b(1) a(3) b(3) a(2) b(2)])
       (use a(4,5) b(4,5) in \<open>simp_all add: sample_setup_def run_simps\<close>)
qed

text \<open>C2: with the identities of a node as services, whatever events a state machine receives: if it
  reports results, there is a valid change history whose first key gives the reported identifier and
  whose current root key verifies a signature of the static key the exchange has used, and the
  trust policy has accepted that identifier.\<close>

theorem channel_peer_identity:
  assumes "hs_status (sm_handshake sm) = Initial"
    and "run_map (\<lambda>ev. run_try (on_event ev)) events (w, sm) = Inr (rs, (w', sm'))"
    and "on_event = initiator_on_event sha (world_vault c) (node_services c n s)
       \<or> on_event = responder_on_event sha (world_vault c) (node_services c n s)"
    and "get_handshake_results sm' = Some results"
  shows "\<exists>pk. hs_rs (sm_handshake sm') = Some pk
    \<and> identity_signed (vault_verdict c) (nc_history n) (their_identifier results) (data pk)
    \<and> (\<exists>u u'. cs_trust_policy s (their_identifier results) u = Inr (Inr True, u'))"
  using results_authenticated [OF assms] services_authenticated by blast

theorem channel_peer_identity_witness:
  "\<exists>w sm events rs w' sm' pk.
    run_map (\<lambda>ev. run_try (responder_on_event (sha256_digest sample_crypto) (world_vault sample_crypto)
      (node_services sample_crypto sample_node (sample_setup [CHR ''P'' # replicate 64 (CHR ''A'')])) ev)) events (w, sm)
      = Inr (rs, (w', sm'))
    \<and> hs_rs (sm_handshake sm') = Some pk
    \<and> identity_signed (vault_verdict sample_crypto) sample_codec (CHR ''P'' # replicate 64 (CHR ''A'')) (data pk)"
proof -
  let ?sa = "sample_setup [CHR ''P'' # replicate 64 (CHR ''a'')]" and ?sb = "sample_setup [CHR ''P'' # replicate 64 (CHR ''A'')]"
  let ?on = "responder_on_event (sha256_digest sample_crypto) (world_vault sample_crypto) (node_services sample_crypto sample_node ?sb)"
  have n: "nc_history sample_node = sample_codec" by (simp add: sample_node_def)
  obtain ida idb wa wb where m: "presentable sample_node ida" "presentable sample_node idb"
      "channel_party sample_crypto sample_codec (3 + 13) ida wa" "channel_party sample_crypto sample_codec (3 + 13) idb wb"
      "accepts_identity sample_codec idb (snd wa)" "accepts_identity sample_codec ida (snd wb)"
      "\<forall>u. cs_trust_policy ?sa (identity_identifier idb) u = Inr (Inr True, u)"
      "\<forall>u. cs_trust_policy ?sb (identity_identifier ida) u = Inr (Inr True, u)"
      "identity_identifier ida = CHR ''P'' # replicate 64 (CHR ''A'')" "identity_identifier idb = CHR ''P'' # replicate 64 (CHR ''a'')"
    by (rule sample_nodes_meet) (rule that, simp_all)
  have ne: "identity_identifier ida \<noteq> identity_identifier idb" using m(9,10) by simp
  obtain sma wa' smb wb' pa pb ssa esa ssb esb P where x: "world_good sample_crypto P (3 + 13) wa'" "new_machine world_look wa' sma ssa esa pa"
    "vouches (world_good sample_crypto P) world_look (node_services sample_crypto sample_node ?sa) pb (x25519_public_key sample_crypto ssb) (identity_identifier idb)"
    "world_good sample_crypto P (3 + 13) wb'" "new_machine world_look wb' smb ssb esb pb"
    "vouches (world_good sample_crypto P) world_look (node_services sample_crypto sample_node ?sb) pa (x25519_public_key sample_crypto ssa) (identity_identifier ida)"
    by (rule parties_meet [of sample_node ida idb sample_crypto "3 + 13" wa wb ?sa ?sb, unfolded n, OF sample_codec_lawful m(1-8) ne]) (rule that)
  obtain m1 m2 m3 wb1 b1 wb2 b2 wb3 b3 kb where run: "?on Initialize (wb', smb) = Inr (Inr NoAction, (wb1, b1))"
      "?on (ReceivedMessage m1) (wb1, b1) = Inr (Inr (SendMessage m2), (wb2, b2))"
      "?on (ReceivedMessage m3) (wb2, b2) = Inr (Inr NoAction, (wb3, b3))"
      "get_handshake_results b3 = Some \<lparr>handshake_keys = kb, their_identifier = identity_identifier ida\<rparr>"
    by (rule xv.exchange [OF x]) (rule that)
  let ?events = "[Initialize, ReceivedMessage m1, ReceivedMessage m3]"
  have all: "run_map (\<lambda>ev. run_try (?on ev)) ?events (wb', smb) = Inr (Inr [Inr NoAction, Inr (SendMessage m2), Inr NoAction], (wb3, b3))"
    using run(1-3) by (simp add: run_simps run_ok_def)
  have start: "hs_status (sm_handshake smb) = Initial" using x(5) by (simp add: new_machine_def)
  from channel_peer_identity [OF start all disjI2 [OF refl] run(4)] all m(9) show ?thesis
    unfolding n by (metis HandshakeResults.select_convs(2))
qed

end
