(* ===== verification/Api_Messages.thy ===== *)
theory Api_Messages
  imports Error_Code
begin

text \<open>
  \<open>ockam_core/src/api.rs\<close> and the client side of \<open>ockam_node/src/rpc_client.rs\<close>: request and response
  headers, their builders, paths, and what a client makes of a response.  The CBOR encoding is a
  parameter: encoders give bytes or an error, decoders also give the rest of the input.  Random
  numbers for identifiers are parameters.
\<close>

subsection \<open>Headers\<close>

datatype Method = MethodGet | MethodPost | MethodPut | MethodDelete | MethodPatch

datatype ApiStatus =
    StatusOk | StatusBadRequest | StatusUnauthorized | StatusForbidden | StatusNotFound | StatusConflict
  | StatusMethodNotAllowed | StatusInternalServerError | StatusNotImplemented

type_synonym RequestId = u32

record Request =
  req_id :: RequestId
  req_path :: string
  req_method :: "Method option"
  req_has_body :: bool

record Response =
  res_id :: RequestId
  res_re :: RequestId
  res_status :: "ApiStatus option"
  res_has_body :: bool

datatype ApiError = ApiError (err_path: "string option") (err_method: "Method option") (err_message: "string option")
    (err_cause: "ApiError option")

text \<open>\<open>Id::fresh\<close>: a random number, with saturating addition of one.\<close>

definition Id_fresh :: "u32 \<Rightarrow> RequestId" where
  "Id_fresh r = (if r = - 1 then - 1 else r + 1)"

subsection \<open>Builders\<close>

record 'b RequestBuilder =
  rqb_header :: Request
  rqb_body :: "'b option"

record 'b ResponseBuilder =
  rsb_header :: Response
  rsb_body :: "'b option"

definition Request_new :: "u32 \<Rightarrow> Method \<Rightarrow> string \<Rightarrow> bool \<Rightarrow> Request" where
  "Request_new r m path has_body =
     \<lparr>req_id = Id_fresh r, req_path = path, req_method = Some m, req_has_body = has_body\<rparr>"

definition Request_builder :: "u32 \<Rightarrow> Method \<Rightarrow> string \<Rightarrow> 'b RequestBuilder" where
  "Request_builder r m path = \<lparr>rqb_header = Request_new r m path False, rqb_body = None\<rparr>"

definition request_body :: "'b \<Rightarrow> unit RequestBuilder \<Rightarrow> 'b RequestBuilder" where
  "request_body b self = \<lparr>rqb_header = (rqb_header self)\<lparr>req_has_body := True\<rparr>, rqb_body = Some b\<rparr>"

definition Response_new :: "u32 \<Rightarrow> RequestId \<Rightarrow> ApiStatus \<Rightarrow> bool \<Rightarrow> Response" where
  "Response_new r re st has_body = \<lparr>res_id = Id_fresh r, res_re = re, res_status = Some st, res_has_body = has_body\<rparr>"

definition Response_builder :: "u32 \<Rightarrow> RequestId \<Rightarrow> ApiStatus \<Rightarrow> 'b ResponseBuilder" where
  "Response_builder r re st = \<lparr>rsb_header = Response_new r re st False, rsb_body = None\<rparr>"

definition response_body :: "'b \<Rightarrow> unit ResponseBuilder \<Rightarrow> 'b ResponseBuilder" where
  "response_body b self = \<lparr>rsb_header = (rsb_header self)\<lparr>res_has_body := True\<rparr>, rsb_body = Some b\<rparr>"

type_synonym 'a encode = "'a \<Rightarrow> error + bytes"
type_synonym 'a decode = "bytes \<Rightarrow> error + ('a \<times> bytes)"

definition to_vec_with :: "'h encode \<Rightarrow> 'b encode \<Rightarrow> 'h \<Rightarrow> 'b option \<Rightarrow> error + bytes" where
  "to_vec_with eh eb header body = (case eh header of
     Inl e \<Rightarrow> Inl e
   | Inr h \<Rightarrow> (case body of
        None \<Rightarrow> Inr h
      | Some b \<Rightarrow> result_map (\<lambda>d. h @ d) (eb b)))"

record ApiCodec =
  api_encode_request :: "Request encode"
  api_decode_request :: "Request decode"
  api_encode_response :: "Response encode"
  api_decode_response :: "Response decode"
  api_encode_error :: "ApiError encode"
  api_decode_error :: "ApiError decode"

definition request_to_vec :: "ApiCodec \<Rightarrow> 'b encode \<Rightarrow> 'b RequestBuilder \<Rightarrow> error + bytes" where
  "request_to_vec api eb self = to_vec_with (api_encode_request api) eb (rqb_header self) (rqb_body self)"

definition response_to_vec :: "ApiCodec \<Rightarrow> 'b encode \<Rightarrow> 'b ResponseBuilder \<Rightarrow> error + bytes" where
  "response_to_vec api eb self = to_vec_with (api_encode_response api) eb (rsb_header self) (rsb_body self)"

subsection \<open>Error responses\<close>

definition ApiError_new :: "string \<Rightarrow> ApiError" where
  "ApiError_new path = ApiError (Some path) None None None"

definition with_method :: "Method \<Rightarrow> ApiError \<Rightarrow> ApiError" where
  "with_method m self = ApiError (err_path self) (Some m) (err_message self) (err_cause self)"

definition with_message :: "string \<Rightarrow> ApiError \<Rightarrow> ApiError" where
  "with_message msg self = ApiError (err_path self) (err_method self) (Some msg) (err_cause self)"

definition request_error :: "Request \<Rightarrow> string \<Rightarrow> ApiError" where
  "request_error r msg =
     (let e = with_message msg (ApiError_new (req_path r)) in
      case req_method r of Some m \<Rightarrow> with_method m e | None \<Rightarrow> e)"

definition api_forbidden :: "u32 \<Rightarrow> Request \<Rightarrow> string \<Rightarrow> ApiError ResponseBuilder" where
  "api_forbidden n r msg = response_body (request_error r msg) (Response_builder n (req_id r) StatusForbidden)"

definition api_bad_request :: "u32 \<Rightarrow> Request \<Rightarrow> string \<Rightarrow> ApiError ResponseBuilder" where
  "api_bad_request n r msg = response_body (request_error r msg) (Response_builder n (req_id r) StatusBadRequest)"

definition api_internal_error :: "u32 \<Rightarrow> Request \<Rightarrow> string \<Rightarrow> ApiError ResponseBuilder" where
  "api_internal_error n r msg =
     response_body (request_error r msg) (Response_builder n (req_id r) StatusInternalServerError)"

definition unknown_path :: "u32 \<Rightarrow> Request \<Rightarrow> ApiError ResponseBuilder" where
  "unknown_path n r = api_bad_request n r ''unknown path''"

definition invalid_method :: "u32 \<Rightarrow> Request \<Rightarrow> ApiError ResponseBuilder" where
  "invalid_method n r = (case req_method r of
     Some m \<Rightarrow> response_body (with_method m (ApiError_new (req_path r)))
       (Response_builder n (req_id r) StatusMethodNotAllowed)
   | None \<Rightarrow> response_body (with_message ''unknown method'' (ApiError_new (req_path r)))
       (Response_builder n (req_id r) StatusNotImplemented))"

subsection \<open>Paths\<close>

text \<open>\<open>str::splitn\<close> with one character.\<close>

fun splitn :: "nat \<Rightarrow> char \<Rightarrow> string \<Rightarrow> string list" where
  "splitn 0 c s = []"
| "splitn (Suc 0) c s = [s]"
| "splitn (Suc (Suc n)) c s =
     (if c \<in> set s then takeWhile (\<lambda>x. x \<noteq> c) s # splitn (Suc n) c (tl (dropWhile (\<lambda>x. x \<noteq> c) s)) else [s])"

definition path_segments :: "nat \<Rightarrow> Request \<Rightarrow> string list" where
  "path_segments n r =
     (let s = req_path r in
      if prefix ''/'' s then splitn n (CHR ''/'') (dropWhile (\<lambda>x. x = CHR ''/'') s) else splitn n (CHR ''/'') s)"

subsection \<open>Reading a response\<close>

definition Response_is_ok :: "Response \<Rightarrow> bool" where
  "Response_is_ok self \<longleftrightarrow> (case res_status self of Some s \<Rightarrow> s = StatusOk | None \<Rightarrow> False)"

definition parse_response_body :: "ApiCodec \<Rightarrow> 'b decode \<Rightarrow> bytes \<Rightarrow> error + 'b" where
  "parse_response_body api db b = (case api_decode_response api b of
     Inl e \<Rightarrow> Inl e
   | Inr (response, rest) \<Rightarrow>
       if Response_is_ok response then
         if res_has_body response then
           (case db rest of
              Inr (t, _) \<Rightarrow> Inr t
            | Inl _ \<Rightarrow> Inl (ErrorCode_new OriginApi KindSerialization))
         else Inl (ErrorCode_new OriginApi KindSerialization)
       else Inl (ErrorCode_new OriginApi KindSerialization))"

definition response_error :: "ApiCodec \<Rightarrow> Response \<Rightarrow> bytes \<Rightarrow> error" where
  "response_error api res rest =
     (if res_has_body res then
        (case api_decode_error api rest of
           Inr _ \<Rightarrow> ErrorCode_new OriginApplication KindProtocol
         | Inl e \<Rightarrow> e)
      else ErrorCode_new OriginApplication KindProtocol)"

definition api_is_ok :: "ApiCodec \<Rightarrow> bytes \<Rightarrow> error + unit" where
  "api_is_ok api b = (case api_decode_response api b of
     Inl e \<Rightarrow> Inl e
   | Inr (res, rest) \<Rightarrow> if res_status res = Some StatusOk then Inr () else Inl (response_error api res rest))"

definition decode_option :: "ApiCodec \<Rightarrow> 'b decode \<Rightarrow> bytes \<Rightarrow> error + 'b option" where
  "decode_option api db b = (case api_decode_response api b of
     Inl e \<Rightarrow> Inl e
   | Inr (res, rest) \<Rightarrow> (case res_status res of
        Some StatusOk \<Rightarrow> result_map (\<lambda>(t, _). Some t) (db rest)
      | Some StatusNotFound \<Rightarrow> Inr None
      | _ \<Rightarrow> Inl (response_error api res rest)))"

text \<open>\<open>RpcClient::request\<close> and \<open>request_no_resp_body\<close>, from the response on.\<close>

definition rpc_response :: "ApiCodec \<Rightarrow> 'b decode \<Rightarrow> bytes \<Rightarrow> error + 'b" where
  "rpc_response api db b = (case api_decode_response api b of
     Inl e \<Rightarrow> Inl e
   | Inr (resp, rest) \<Rightarrow>
       if res_status resp = Some StatusOk then result_map fst (db rest) else Inl (response_error api resp rest))"

definition rpc_response_no_body :: "ApiCodec \<Rightarrow> bytes \<Rightarrow> error + unit" where
  "rpc_response_no_body api b = (case api_decode_response api b of
     Inl e \<Rightarrow> Inl e
   | Inr (resp, rest) \<Rightarrow>
       if res_status resp = Some StatusOk then Inr () else Inl (response_error api resp rest))"

subsection \<open>Clients and servers agree\<close>

text \<open>What is encoded can be decoded, whatever follows it.\<close>

definition cbor_lawful :: "'a encode \<Rightarrow> 'a decode \<Rightarrow> bool" where
  "cbor_lawful e d \<longleftrightarrow> (\<forall>x. \<exists>b. e x = Inr b \<and> (\<forall>r. d (b @ r) = Inr (x, r)))"

definition api_lawful :: "ApiCodec \<Rightarrow> bool" where
  "api_lawful api \<longleftrightarrow> cbor_lawful (api_encode_request api) (api_decode_request api)
     \<and> cbor_lawful (api_encode_response api) (api_decode_response api)
     \<and> cbor_lawful (api_encode_error api) (api_decode_error api)"

lemma cbor_lawfulE:
  assumes "cbor_lawful e d"
  obtains b where "e x = Inr b" "\<forall>r. d (b @ r) = Inr (x, r)" "d b = Inr (x, [])"
proof -
  obtain b where b: "e x = Inr b" "\<forall>r. d (b @ r) = Inr (x, r)" using assms by (auto simp: cbor_lawful_def)
  moreover from b(2) have "d b = Inr (x, [])" by (metis append_Nil2)
  ultimately show ?thesis using that by blast
qed

lemma to_vec_read:
  assumes "cbor_lawful eh dh" "cbor_lawful eb db"
  obtains b rest where "to_vec_with eh eb h body = Inr b" "dh b = Inr (h, rest)" "\<forall>x. body = Some x \<longrightarrow> db rest = Inr (x, [])"
proof -
  obtain hb where h: "eh h = Inr hb" "\<forall>r. dh (hb @ r) = Inr (h, r)" "dh hb = Inr (h, [])"
    using cbor_lawfulE [OF assms(1), where x = h] .
  show ?thesis
  proof (cases body)
    case None
    then show ?thesis using that [of hb "[]"] h(1,3) by (simp add: to_vec_with_def)
  next
    case (Some x)
    obtain d where "eb x = Inr d" "db d = Inr (x, [])" using cbor_lawfulE [OF assms(2), where x = x] .
    with Some h show ?thesis using that [of "hb @ d" d] by (simp add: to_vec_with_def result_map_def)
  qed
qed

lemma request_read:
  assumes "api_lawful api" "cbor_lawful eb db"
  obtains b rest where "request_to_vec api eb rb = Inr b" "api_decode_request api b = Inr (rqb_header rb, rest)"
    "\<forall>x. rqb_body rb = Some x \<longrightarrow> db rest = Inr (x, [])"
  using to_vec_read [of "api_encode_request api" "api_decode_request api" eb db "rqb_header rb" "rqb_body rb"] assms
  unfolding request_to_vec_def api_lawful_def by metis

lemma response_read:
  assumes "api_lawful api" "cbor_lawful eb db"
  obtains b rest where "response_to_vec api eb rb = Inr b" "api_decode_response api b = Inr (rsb_header rb, rest)"
    "\<forall>x. rsb_body rb = Some x \<longrightarrow> db rest = Inr (x, [])"
  using to_vec_read [of "api_encode_response api" "api_decode_response api" eb db "rsb_header rb" "rsb_body rb"] assms
  unfolding response_to_vec_def api_lawful_def by metis

text \<open>Whatever a server answers with a body, all readers agree on it.\<close>

lemma answer_read:
  assumes "api_lawful api" "cbor_lawful eb db"
  obtains b where "response_to_vec api eb (response_body x (Response_builder n re st)) = Inr b"
    "if st = StatusOk then rpc_response api db b = Inr x \<and> parse_response_body api db b = Inr x
       \<and> decode_option api db b = Inr (Some x) \<and> api_is_ok api b = Inr () \<and> rpc_response_no_body api b = Inr ()
     else \<not> is_ok (rpc_response api db b) \<and> \<not> is_ok (parse_response_body api db b)
       \<and> \<not> is_ok (api_is_ok api b) \<and> \<not> is_ok (rpc_response_no_body api b)
       \<and> (is_ok (decode_option api db b) \<longleftrightarrow> st = StatusNotFound)"
proof -
  let ?rb = "response_body x (Response_builder n re st)"
  obtain b rest where b: "response_to_vec api eb ?rb = Inr b" "api_decode_response api b = Inr (rsb_header ?rb, rest)"
      "\<forall>y. rsb_body ?rb = Some y \<longrightarrow> db rest = Inr (y, [])"
    using response_read [OF assms] .
  from b(3) have body: "db rest = Inr (x, [])" by (simp add: response_body_def)
  show ?thesis
    by (rule that [OF b(1)])
       (use b(2) body in \<open>simp add: rpc_response_def parse_response_body_def decode_option_def api_is_ok_def
          rpc_response_no_body_def Response_is_ok_def response_body_def Response_builder_def Response_new_def
          result_map_def split: ApiStatus.split\<close>)
qed

text \<open>A path is its segments: joined they give the path without leading slashes, and only the last one, when
  there are as many as asked for, contains a slash.\<close>

lemma splitn_join:
  "concat (map (\<lambda>x. c # x) (splitn (Suc n) c s)) = c # s" "length (splitn (Suc n) c s) \<le> Suc n"
  "\<forall>x \<in> set (butlast (splitn (Suc n) c s)). c \<notin> set x"
proof (induction n arbitrary: s)
  case (Suc n)
  case 1
  show ?case
  proof (cases "c \<in> set s")
    case True
    then have "s = takeWhile (\<lambda>x. x \<noteq> c) s @ c # tl (dropWhile (\<lambda>x. x \<noteq> c) s)"
      by (metis (mono_tags, lifting) dropWhile_eq_Nil_conv hd_dropWhile list.collapse takeWhile_dropWhile_id)
    then show ?thesis using True Suc.IH(1) [of "tl (dropWhile (\<lambda>x. x \<noteq> c) s)"] by simp
  qed simp
  case 2
  show ?case using Suc.IH(2) by simp
  case 3
  show ?case using Suc.IH(3) by (auto dest: set_takeWhileD split: if_splits)
qed simp_all

end
