(* ===== verification/Credential_Services.thy ===== *)
theory Credential_Services
  imports Identity_Services Api_Messages
begin

text \<open>
  The workers that issue and receive credentials over a secure channel
  (\<open>ockam_identity/src/credentials/credentials_issuer.rs\<close>, \<open>credentials_server_worker.rs\<close>,
  \<open>credentials_server.rs\<close>, \<open>credentials_retriever.rs\<close>), and the access controls that look at the sender of
  a message (\<open>secure_channel/access_control\<close>).  A worker answers a request with the bytes it sends on the return route; the
  system time is a sequence of readings \<open>clk\<close>.
\<close>

subsection \<open>Access controls for identities\<close>

definition IdentityAnyIdAccessControl ::
  "(bytes \<Rightarrow> error + IdentitySecureChannelLocalInfo) \<Rightarrow> LocalMessage \<Rightarrow> error + bool" where
  "IdentityAnyIdAccessControl dec msg = Inr (is_ok (find_info dec msg))"

definition IdentityIdAccessControl ::
  "(bytes \<Rightarrow> error + IdentitySecureChannelLocalInfo) \<Rightarrow> IdentityIdentifier list \<Rightarrow> LocalMessage \<Rightarrow> error + bool" where
  "IdentityIdAccessControl dec identity_ids msg = (case find_info dec msg of
     Inr info \<Rightarrow> Inr (contains_identifier identity_ids (their_identity_id info))
   | Inl _ \<Rightarrow> Inr False)"

fun has_attributes :: "(string \<times> bytes) list \<Rightarrow> (string, bytes) btree_map \<Rightarrow> bool" where
  "has_attributes [] attrs = True"
| "has_attributes ((k, v) # required) attrs = (case bt_get attrs k of
     Some attr_val \<Rightarrow> if v \<noteq> attr_val then False else has_attributes required attrs
   | None \<Rightarrow> False)"

definition CredentialAccessControl ::
  "('w, 'y) Storage_scheme \<Rightarrow> AttributesCodec \<Rightarrow> (bytes \<Rightarrow> error + IdentitySecureChannelLocalInfo)
   \<Rightarrow> (string \<times> bytes) list \<Rightarrow> Timestamp option \<Rightarrow> LocalMessage \<Rightarrow> ('w, error, bool) state_exec" where
  "CredentialAccessControl st q dec required_attributes clock msg = (case find_info dec msg of
     Inr info \<Rightarrow>
       run_bind (get_entry st q clock (their_identity_id info)) (\<lambda>r. case r of
         Some entry \<Rightarrow> run_ok (has_attributes required_attributes (ae_attrs entry))
       | None \<Rightarrow> run_ok False)
   | Inl _ \<Rightarrow> run_ok False)"

subsection \<open>Encodings\<close>

record ServiceCodecs = NodeCodecs +
  sv_api :: ApiCodec
  sv_encode_credential :: "Credential encode"
  sv_decode_credential :: "Credential decode"
  sv_encode_string :: "string encode"
  sv_decode_info :: "bytes \<Rightarrow> error + IdentitySecureChannelLocalInfo"
  sv_error_text :: "error \<Rightarrow> string"

definition no_body :: "unit encode" where
  "no_body u = Inr []"

subsection \<open>The issuer\<close>

definition LEGACY_ID :: string where "LEGACY_ID = ''project_id''"

definition TRUST_CONTEXT_ID :: string where "TRUST_CONTEXT_ID = ''trust_context_id''"

definition PROJECT_MEMBER_SCHEMA :: u64 where "PROJECT_MEMBER_SCHEMA = 1"

record CredentialsIssuer =
  ci_issuer :: IdentityIdentifier
  ci_trust_context :: string

definition member_credential :: "CredentialsIssuer \<Rightarrow> IdentityIdentifier \<Rightarrow> AttributesEntry \<Rightarrow> CredentialBuilder" where
  "member_credential self from entry =
     with_attribute TRUST_CONTEXT_ID (ci_trust_context self) (with_attribute LEGACY_ID (ci_trust_context self)
       (fold (\<lambda>(a, v). with_attribute a v) (ae_attrs entry)
         (with_schema PROJECT_MEMBER_SCHEMA (CredentialBuilder_new from (ci_issuer self)))))"

definition issuer_issue_credential ::
  "('w, 'x) IdentitiesVault_scheme \<Rightarrow> ('w, 'y) Storage_scheme \<Rightarrow> 'z ServiceCodecs_scheme \<Rightarrow> (nat \<Rightarrow> Timestamp option)
   \<Rightarrow> CredentialsIssuer \<Rightarrow> IdentityIdentifier \<Rightarrow> ('w, error, Credential option) state_exec" where
  "issuer_issue_credential vault st n clk self from =
     run_bind (get_entry st (nc_attributes n) (clk 0) from) (\<lambda>r. case r of
       Some entry \<Rightarrow>
         run_bind (run_result (builder_build (clk 1) (member_credential self from entry))) (\<lambda>crd.
         run_bind (issue_credential vault (nc_history n) st (nc_credentials n) (ci_issuer self) crd) (\<lambda>credential.
         run_ok (Some credential)))
     | None \<Rightarrow> run_ok None)"

definition issuer_answer ::
  "('w, 'x) IdentitiesVault_scheme \<Rightarrow> ('w, 'y) Storage_scheme \<Rightarrow> 'z ServiceCodecs_scheme \<Rightarrow> (nat \<Rightarrow> Timestamp option)
   \<Rightarrow> u32 \<Rightarrow> CredentialsIssuer \<Rightarrow> IdentityIdentifier \<Rightarrow> Request \<Rightarrow> ('w, error, bytes) state_exec" where
  "issuer_answer vault st n clk rnd self from req =
     (if req_method req = Some MethodPost \<and> (req_path req = ''/'' \<or> req_path req = ''/credential'')
      then run_bind (run_try (issuer_issue_credential vault st n clk self from)) (\<lambda>r. case r of
          Inr (Some crd) \<Rightarrow> run_result (response_to_vec (sv_api n) (sv_encode_credential n)
            (response_body crd (Response_builder rnd (req_id req) StatusOk)))
        | Inr None \<Rightarrow> run_result (response_to_vec (sv_api n) (api_encode_error (sv_api n))
            (api_forbidden rnd req ''unauthorized member''))
        | Inl e \<Rightarrow> run_result (response_to_vec (sv_api n) (api_encode_error (sv_api n))
            (api_internal_error rnd req (sv_error_text n e))))
      else run_result (response_to_vec (sv_api n) (api_encode_error (sv_api n)) (unknown_path rnd req)))"

definition secure_channel_required :: "'z ServiceCodecs_scheme \<Rightarrow> u32 \<Rightarrow> bytes \<Rightarrow> error + bytes" where
  "secure_channel_required n rnd body = (case api_decode_request (sv_api n) body of
     Inl e \<Rightarrow> Inl e
   | Inr (req, _) \<Rightarrow> response_to_vec (sv_api n) (api_encode_error (sv_api n))
       (api_forbidden rnd req ''secure channel required''))"

definition issuer_handle_message ::
  "('w, 'x) IdentitiesVault_scheme \<Rightarrow> ('w, 'y) Storage_scheme \<Rightarrow> 'z ServiceCodecs_scheme \<Rightarrow> (nat \<Rightarrow> Timestamp option)
   \<Rightarrow> u32 \<Rightarrow> CredentialsIssuer \<Rightarrow> LocalMessage \<Rightarrow> bytes \<Rightarrow> ('w, error, bytes) state_exec" where
  "issuer_handle_message vault st n clk rnd self msg body = (case find_info (sv_decode_info n) msg of
     Inr i \<Rightarrow>
       run_bind (run_result (api_decode_request (sv_api n) body)) (\<lambda>(req, _).
       issuer_answer vault st n clk rnd self (their_identity_id i) req)
   | Inl _ \<Rightarrow> run_result (secure_channel_required n rnd body))"

text \<open>\<open>CredentialsIssuerClient::credential\<close>: its request, and what it makes of the response.\<close>

definition credential_request :: "u32 \<Rightarrow> unit RequestBuilder" where
  "credential_request rnd = Request_builder rnd MethodPost ''/''"

definition credential_response :: "'z ServiceCodecs_scheme \<Rightarrow> bytes \<Rightarrow> error + Credential" where
  "credential_response n = rpc_response (sv_api n) (sv_decode_credential n)"

definition CredentialsMemoryRetriever :: "Credential \<Rightarrow> IdentityIdentifier \<Rightarrow> ('w, error, Credential) state_exec" where
  "CredentialsMemoryRetriever credential for_identity = run_ok credential"

subsection \<open>The server worker\<close>

record CredentialsServerWorker =
  csw_trust_context :: TrustContext
  csw_identifier :: IdentityIdentifier
  csw_present_back :: bool

type_synonym ('w, 'a) csw_run = "('w \<times> CredentialsServerWorker, error, 'a) state_exec"

definition worker_bad_request :: "u32 \<Rightarrow> RequestId \<Rightarrow> string \<Rightarrow> string \<Rightarrow> ApiError ResponseBuilder" where
  "worker_bad_request rnd i path msg =
     response_body (with_message msg (ApiError_new path)) (Response_builder rnd i StatusBadRequest)"

text \<open>The credential of the authority, whose cache is kept.\<close>

definition worker_credential ::
  "('w, 'x) IdentitiesVault_scheme \<Rightarrow> ('w, 'y) Storage_scheme \<Rightarrow> 'z ServiceCodecs_scheme \<Rightarrow> (nat \<Rightarrow> Timestamp option)
   \<Rightarrow> (IdentityIdentifier \<Rightarrow> ('w, error, Credential) state_exec) option \<Rightarrow> AuthorityService \<Rightarrow> ('w, Credential) csw_run" where
  "worker_credential vault st n clk own authority w =
     (case authority_credential vault (nc_history n) st (nc_credentials n) own (clk 2) (clk 3)
         (csw_identifier (snd w)) (fst w, authority) of
        Inl p \<Rightarrow> Inl p
      | Inr (r, (w', authority')) \<Rightarrow> Inr (r, (w', (snd w)\<lparr>csw_trust_context :=
          (csw_trust_context (snd w))\<lparr>tc_authority := Some authority'\<rparr>\<rparr>)))"

definition receive_from ::
  "('w, 'x) IdentitiesVault_scheme \<Rightarrow> ('w, 'y) Storage_scheme \<Rightarrow> 'z ServiceCodecs_scheme \<Rightarrow> (nat \<Rightarrow> Timestamp option)
   \<Rightarrow> IdentityIdentifier \<Rightarrow> bytes \<Rightarrow> ('w, error + unit) csw_run" where
  "receive_from vault st n clk sender rest =
     run_bind (run_result (sv_decode_credential n rest)) (\<lambda>(credential, _).
     run_bind run_get (\<lambda>self.
     run_bind (run_fst (trust_authorities st (nc_history n) (csw_trust_context self))) (\<lambda>authorities.
     run_try (run_fst (receive_presented_credential vault st (nc_attributes n) (nc_credentials n) (clk 0) (clk 1)
       sender authorities credential)))))"

definition handle_request ::
  "('w, 'x) IdentitiesVault_scheme \<Rightarrow> ('w, 'y) Storage_scheme \<Rightarrow> 'z ServiceCodecs_scheme \<Rightarrow> (nat \<Rightarrow> Timestamp option)
   \<Rightarrow> u32 \<Rightarrow> (IdentityIdentifier \<Rightarrow> ('w, error, Credential) state_exec) option \<Rightarrow> Request \<Rightarrow> IdentityIdentifier \<Rightarrow> bytes
   \<Rightarrow> ('w, bytes) csw_run" where
  "handle_request vault st n clk rnd own req sender rest =
     (let api = sv_api n;
          done_ok = run_result (response_to_vec api no_body (Response_builder rnd (req_id req) StatusOk));
          failed = (\<lambda>err. run_result (response_to_vec api (api_encode_error api)
            (worker_bad_request rnd (req_id req) (req_path req) (sv_error_text n err)))) in
      case req_method req of
        None \<Rightarrow> run_result (response_to_vec api (sv_encode_string n)
          (response_body ''Invalid method'' (Response_builder rnd (req_id req) StatusBadRequest)))
      | Some m \<Rightarrow>
          if m = MethodPost \<and> path_segments 5 req = [''actions'', ''present''] then
            run_bind (receive_from vault st n clk sender rest) (\<lambda>res. case res of
              Inr _ \<Rightarrow> done_ok
            | Inl err \<Rightarrow> failed err)
          else if m = MethodPost \<and> path_segments 5 req = [''actions'', ''present_mutual''] then
            run_bind (receive_from vault st n clk sender rest) (\<lambda>res. case res of
              Inl err \<Rightarrow> failed err
            | Inr _ \<Rightarrow>
                run_bind run_get (\<lambda>self.
                run_bind (run_result (trust_authority (csw_trust_context self))) (\<lambda>authority.
                run_bind (run_try (worker_credential vault st n clk own authority)) (\<lambda>credential.
                case credential of
                  Inr p \<Rightarrow> if csw_present_back self
                    then run_result (response_to_vec api (sv_encode_credential n)
                      (response_body p (Response_builder rnd (req_id req) StatusOk)))
                    else done_ok
                | Inl _ \<Rightarrow> done_ok))))
          else run_result (response_to_vec api (sv_encode_string n)
            (response_body (''Invalid endpoint: '' @ req_path req) (Response_builder rnd (req_id req) StatusBadRequest))))"

text \<open>An undecodable request is dropped.\<close>

definition server_handle_message ::
  "('w, 'x) IdentitiesVault_scheme \<Rightarrow> ('w, 'y) Storage_scheme \<Rightarrow> 'z ServiceCodecs_scheme \<Rightarrow> (nat \<Rightarrow> Timestamp option)
   \<Rightarrow> u32 \<Rightarrow> (IdentityIdentifier \<Rightarrow> ('w, error, Credential) state_exec) option \<Rightarrow> LocalMessage \<Rightarrow> bytes
   \<Rightarrow> ('w, bytes option) csw_run" where
  "server_handle_message vault st n clk rnd own msg body = (case api_decode_request (sv_api n) body of
     Inl _ \<Rightarrow> run_ok None
   | Inr (req, rest) \<Rightarrow>
       run_bind (run_result (find_info (sv_decode_info n) msg)) (\<lambda>sender.
       run_bind (run_try (handle_request vault st n clk rnd own req (their_identity_id sender) rest)) (\<lambda>r.
       case r of
         Inr b \<Rightarrow> run_ok (Some b)
       | Inl err \<Rightarrow> run_bind (run_result (response_to_vec (sv_api n) (sv_encode_string n)
           (response_body (sv_error_text n err) (Response_builder rnd (req_id req) StatusInternalServerError))))
           (\<lambda>b. run_ok (Some b)))))"

subsection \<open>Presenting a credential\<close>

definition present_request :: "u32 \<Rightarrow> Credential \<Rightarrow> Credential RequestBuilder" where
  "present_request rnd credential = request_body credential (Request_builder rnd MethodPost ''actions/present'')"

definition present_mutual_request :: "u32 \<Rightarrow> Credential \<Rightarrow> Credential RequestBuilder" where
  "present_mutual_request rnd credential =
     request_body credential (Request_builder rnd MethodPost ''actions/present_mutual'')"

definition present_response :: "'z ServiceCodecs_scheme \<Rightarrow> bytes \<Rightarrow> error + unit" where
  "present_response n buf = (case api_decode_response (sv_api n) buf of
     Inl e \<Rightarrow> Inl e
   | Inr (res, _) \<Rightarrow> if res_status res = Some StatusOk then Inr () else Inl invalid)"

definition present_mutual_response ::
  "('w, 'x) IdentitiesVault_scheme \<Rightarrow> ('w, 'y) Storage_scheme \<Rightarrow> 'z ServiceCodecs_scheme \<Rightarrow> (nat \<Rightarrow> Timestamp option)
   \<Rightarrow> Identity list \<Rightarrow> LocalInfo list \<Rightarrow> bytes \<Rightarrow> ('w, error, unit) state_exec" where
  "present_mutual_response vault st n clk authorities infos buf =
     run_bind (run_result (find_info_from_list (sv_decode_info n) infos)) (\<lambda>their_id.
     run_bind (run_result (api_decode_response (sv_api n) buf)) (\<lambda>(res, rest).
     if res_status res = Some StatusOk then
       run_bind (run_result (sv_decode_credential n rest)) (\<lambda>(credential, _).
       receive_presented_credential vault st (nc_attributes n) (nc_credentials n) (clk 0) (clk 1)
         (their_identity_id their_id) authorities credential)
     else run_err invalid))"

subsection \<open>From the attributes of a member to an access decision\<close>

lemma has_attributes_iff: "has_attributes required attrs \<longleftrightarrow> (\<forall>(k, v) \<in> set required. bt_get attrs k = Some v)"
  by (induction required attrs rule: has_attributes.induct) (auto split: option.splits)

lemma builder_attributes:
  "cb_attrs (fold (\<lambda>(a, v). with_attribute a v) xs b) = fold (\<lambda>(a, v). bt_insert a v) xs (cb_attrs b)"
  "cb_subject (fold (\<lambda>(a, v). with_attribute a v) xs b) = cb_subject b"
  "cb_issuer (fold (\<lambda>(a, v). with_attribute a v) xs b) = cb_issuer b"
  "cb_validity (fold (\<lambda>(a, v). with_attribute a v) xs b) = cb_validity b"
  by (induction xs arbitrary: b) (auto simp: with_attribute_def)

lemma bt_get_fold_entries:
  "distinct (map fst xs) \<Longrightarrow> bt_get (fold (\<lambda>(a, v). bt_insert a v) xs m) k =
     (case map_of xs k of Some v \<Rightarrow> Some v | None \<Rightarrow> bt_get m k)"
proof (induction xs arbitrary: m)
  case (Cons x xs)
  obtain a v where x: "x = (a, v)" by (cases x)
  from Cons.prems have "distinct (map fst xs)" "map_of xs a = None" by (simp_all add: x map_of_eq_None_iff)
  then show ?case by (auto simp: x Cons.IH bt_get_insert split: option.split)
qed simp

text \<open>What a member's credential grants: the stored attributes and the name of the trust context.\<close>

definition granted :: "CredentialsIssuer \<Rightarrow> AttributesEntry \<Rightarrow> string \<Rightarrow> bytes option" where
  "granted self entry k = (if k = TRUST_CONTEXT_ID \<or> k = LEGACY_ID then Some (ci_trust_context self)
     else bt_get (ae_attrs entry) k)"

lemma member_credential_fields:
  assumes "bt_wf (ae_attrs entry)"
  shows "bt_get (cb_attrs (member_credential self from entry)) k = granted self entry k"
    "cb_subject (member_credential self from entry) = from" "cb_issuer (member_credential self from entry) = ci_issuer self"
    "cb_validity (member_credential self from entry) = MAX_CREDENTIAL_VALIDITY"
proof -
  have "distinct (map fst (ae_attrs entry))" using assms by (rule bt_wf_distinct)
  then have "bt_get (fold (\<lambda>(a, v). bt_insert a v) (ae_attrs entry) []) k = bt_get (ae_attrs entry) k"
    by (simp add: bt_get_fold_entries) (simp add: bt_get_def split: option.split)
  then show "bt_get (cb_attrs (member_credential self from entry)) k = granted self entry k"
    by (simp add: member_credential_def builder_attributes with_attribute_def with_schema_def
        CredentialBuilder_new_def bt_get_insert granted_def)
qed (simp_all add: member_credential_def builder_attributes with_attribute_def with_schema_def CredentialBuilder_new_def)

lemma present_segments: "path_segments 5 (rqb_header (present_request r credential)) = [''actions'', ''present'']"
  by (simp add: present_request_def request_body_def Request_builder_def Request_new_def path_segments_def
      eval_nat_numeral)

lemma access_after_reading:
  assumes "find_info dec msg = Inr info"
    "get_entry st q clock (their_identity_id info) w = Inr (Inr (if valid then Some entry else None), w')"
  shows "CredentialAccessControl st q dec required clock msg w
    = Inr (Inr (valid \<and> (\<forall>(k, v) \<in> set required. bt_get (ae_attrs entry) k = Some v)), w')"
  using assms by (simp add: CredentialAccessControl_def run_simps run_ok_def has_attributes_iff)

text \<open>The issuer answers a member with a credential, and a worker that trusts the issuer stores it.\<close>

lemma issuer_serves:
  assumes "api_lawful (sv_api n)" "cbor_lawful (sv_encode_credential n) (sv_decode_credential n)"
    "find_info (sv_decode_info n) msg = Inr \<lparr>their_identity_id = who\<rparr>"
    "issuer_issue_credential vault st n clk self who w = Inr (Inr (Some credential), w')"
  obtains req resp where "request_to_vec (sv_api n) no_body (credential_request r1) = Inr req"
    "issuer_handle_message vault st n clk r2 self msg req w = Inr (Inr resp, w')"
    "credential_response n resp = Inr credential"
proof -
  let ?rb = "credential_request r1"
  obtain h where h: "api_encode_request (sv_api n) (rqb_header ?rb) = Inr h"
      "api_decode_request (sv_api n) h = Inr (rqb_header ?rb, [])"
    using assms(1) unfolding api_lawful_def by (metis cbor_lawfulE)
  obtain resp where resp: "response_to_vec (sv_api n) (sv_encode_credential n)
        (response_body credential (Response_builder r2 (req_id (rqb_header ?rb)) StatusOk)) = Inr resp"
      "rpc_response (sv_api n) (sv_decode_credential n) resp = Inr credential"
    using answer_read [OF assms(1,2), of credential r2 "req_id (rqb_header ?rb)" StatusOk] by auto
  have hdr: "req_method (rqb_header ?rb) = Some MethodPost" "req_path (rqb_header ?rb) = ''/''" "rqb_body ?rb = None"
    by (simp_all add: credential_request_def Request_builder_def Request_new_def)
  have "issuer_handle_message vault st n clk r2 self msg h w = Inr (Inr resp, w')"
    using assms(3,4) h(2) resp(1) hdr
    by (simp add: issuer_handle_message_def issuer_answer_def run_simps run_ok_def)
  moreover have "request_to_vec (sv_api n) no_body ?rb = Inr h"
    using h(1) hdr(3) by (simp add: request_to_vec_def to_vec_with_def)
  ultimately show ?thesis using that resp(2) by (simp add: credential_response_def)
qed

lemma worker_stores:
  assumes "api_lawful (sv_api n)" "cbor_lawful (sv_encode_credential n) (sv_decode_credential n)"
    "find_info (sv_decode_info n) msg = Inr \<lparr>their_identity_id = who\<rparr>"
    "trust_authorities st (nc_history n) (csw_trust_context worker) w = Inr (Inr authorities, w)"
    "receive_presented_credential vault st (nc_attributes n) (nc_credentials n) (clk 0) (clk 1) who authorities
       credential w = Inr (Inr (), w')"
  obtains req resp where
    "request_to_vec (sv_api n) (sv_encode_credential n) (present_request r1 credential) = Inr req"
    "server_handle_message vault st n clk r2 own msg req (w, worker) = Inr (Inr (Some resp), (w', worker))"
    "present_response n resp = Inr ()"
proof -
  let ?rb = "present_request r1 credential"
  obtain b rest where b: "request_to_vec (sv_api n) (sv_encode_credential n) ?rb = Inr b"
      "api_decode_request (sv_api n) b = Inr (rqb_header ?rb, rest)"
      "\<forall>x. rqb_body ?rb = Some x \<longrightarrow> sv_decode_credential n rest = Inr (x, [])"
    using request_read [OF assms(1,2)] .
  have body: "sv_decode_credential n rest = Inr (credential, [])"
    using b(3) by (simp add: present_request_def request_body_def)
  let ?header = "Response_new r2 (req_id (rqb_header ?rb)) StatusOk False"
  obtain resp where resp: "api_encode_response (sv_api n) ?header = Inr resp" "api_decode_response (sv_api n) resp = Inr (?header, [])"
    using assms(1) unfolding api_lawful_def by (metis cbor_lawfulE)
  have ok: "response_to_vec (sv_api n) no_body (Response_builder r2 (req_id (rqb_header ?rb)) StatusOk) = Inr resp"
    using resp(1) by (simp add: response_to_vec_def to_vec_with_def Response_builder_def)
  have m: "req_method (rqb_header ?rb) = Some MethodPost"
    by (simp add: present_request_def request_body_def Request_builder_def Request_new_def)
  have "receive_from vault st n clk who rest (w, worker) = Inr (Inr (Inr ()), (w', worker))"
    using body assms(4,5) by (simp add: receive_from_def run_simps run_ok_def)
  then have "handle_request vault st n clk r2 own (rqb_header ?rb) who rest (w, worker) = Inr (Inr resp, (w', worker))"
    using m present_segments ok by (simp add: handle_request_def Let_def run_simps run_ok_def)
  then have "server_handle_message vault st n clk r2 own msg b (w, worker) = Inr (Inr (Some resp), (w', worker))"
    using b(2) assms(3) by (simp add: server_handle_message_def run_simps run_ok_def)
  moreover have "present_response n resp = Inr ()" using resp(2) by (simp add: present_response_def Response_new_def)
  ultimately show ?thesis using that b(1) by blast
qed

lemma issued_is_accepted:
  assumes "credential_codec_lawful cc q" "vault_ready c b (fst w)"
    "owned (vault_verdict c) p (vault_holds c (fst w)) authority"
    "stored_history (mem_get (snd w)) p (identity_identifier authority) = Some (change_history authority)"
    "cb_issuer builder = identity_identifier authority"
    "now < add_seconds t (word_of_nat (cb_validity builder div 10 ^ 9))"
  obtains cd credential where "builder_build (Some t) builder = Inr cd"
    "issue_credential (world_vault c) p in_memory cc (identity_identifier authority) cd w = Inr (Inr credential, w)"
    "\<exists>u'. receive_presented_credential (world_vault c) in_memory q cc (Some now) (Some now') (cb_subject builder)
        [authority] credential u = Inr (Inr (), u')
      \<and> (\<forall>later. \<exists>u''. get_entry in_memory q (Some later) (cb_subject builder) u' = Inr (Inr
           (if later < add_seconds t (word_of_nat (cb_validity builder div 10 ^ 9))
            then Some \<lparr>ae_attrs = cb_attrs builder, ae_added = now',
              ae_expires = Some (add_seconds t (word_of_nat (cb_validity builder div 10 ^ 9))),
              ae_attested_by = Some (identity_identifier authority)\<rparr>
            else None), u''))"
proof -
  have f: "find (\<lambda>x. identity_identifier x = identity_identifier authority) [authority] = Some authority" by simp
  show ?thesis
    by (rule exE [OF credential_accepted [OF assms(1-5), of t]], elim exE conjE, rule that, assumption, assumption)
       (drule spec [of _ u], drule spec [of _ "cb_subject builder"], drule spec [of _ "[authority]"],
        drule spec [of _ now], drule spec [of _ now'], drule mp, rule f, simp only: assms(6) simp_thms if_True)
qed

subsection \<open>Sample encodings\<close>

definition string_encode :: "('a \<Rightarrow> string list) \<Rightarrow> 'a encode" where
  "string_encode f x = Inr (encode_list encode_string (f x))"

definition string_decode :: "(string list \<Rightarrow> 'a option) \<Rightarrow> 'a decode" where
  "string_decode g b = (case decode_list (length b) decode_string b of
     Some (ss, r) \<Rightarrow> (case g ss of Some x \<Rightarrow> Inr (x, r) | None \<Rightarrow> Inl invalid)
   | None \<Rightarrow> Inl invalid)"

lemma string_code_lawful:
  assumes "\<And>x. g (f x) = Some x"
  shows "cbor_lawful (string_encode f) (string_decode g)"
  using prefix_codeD [OF prefix_code_list [OF prefix_code_string]] assms
  by (auto simp: cbor_lawful_def string_encode_def string_decode_def simp del: encode_list.simps decode_list.simps)

fun method_string :: "Method option \<Rightarrow> string" where
  "method_string None = ''-''"
| "method_string (Some MethodGet) = ''0''"
| "method_string (Some MethodPost) = ''1''"
| "method_string (Some MethodPut) = ''2''"
| "method_string (Some MethodDelete) = ''3''"
| "method_string (Some MethodPatch) = ''4''"

definition string_method :: "string \<Rightarrow> Method option" where
  "string_method s = (if s = ''0'' then Some MethodGet else if s = ''1'' then Some MethodPost
     else if s = ''2'' then Some MethodPut else if s = ''3'' then Some MethodDelete
     else if s = ''4'' then Some MethodPatch else None)"

fun status_string :: "ApiStatus option \<Rightarrow> string" where
  "status_string None = ''-''"
| "status_string (Some StatusOk) = ''0''"
| "status_string (Some StatusBadRequest) = ''1''"
| "status_string (Some StatusUnauthorized) = ''2''"
| "status_string (Some StatusForbidden) = ''3''"
| "status_string (Some StatusNotFound) = ''4''"
| "status_string (Some StatusConflict) = ''5''"
| "status_string (Some StatusMethodNotAllowed) = ''6''"
| "status_string (Some StatusInternalServerError) = ''7''"
| "status_string (Some StatusNotImplemented) = ''8''"

definition string_status :: "string \<Rightarrow> ApiStatus option" where
  "string_status s = (if s = ''0'' then Some StatusOk else if s = ''1'' then Some StatusBadRequest
     else if s = ''2'' then Some StatusUnauthorized else if s = ''3'' then Some StatusForbidden
     else if s = ''4'' then Some StatusNotFound else if s = ''5'' then Some StatusConflict
     else if s = ''6'' then Some StatusMethodNotAllowed else if s = ''7'' then Some StatusInternalServerError
     else if s = ''8'' then Some StatusNotImplemented else None)"

lemma string_method_inverse [simp]: "string_method (method_string m) = m"
  by (cases m rule: method_string.cases) (simp_all add: string_method_def)

lemma string_status_inverse [simp]: "string_status (status_string m) = m"
  by (cases m rule: status_string.cases) (simp_all add: string_status_def)

definition bool_string :: "bool \<Rightarrow> string" where
  "bool_string b = (if b then ''1'' else ''0'')"

definition request_strings :: "Request \<Rightarrow> string list" where
  "request_strings r = [show_nat (unat (req_id r)), req_path r, method_string (req_method r), bool_string (req_has_body r)]"

fun strings_request :: "string list \<Rightarrow> Request option" where
  "strings_request [i, p, m, b] =
     Some \<lparr>req_id = string_u32 i, req_path = p, req_method = string_method m, req_has_body = (b = ''1'')\<rparr>"
| "strings_request _ = None"

definition response_strings :: "Response \<Rightarrow> string list" where
  "response_strings r = [show_nat (unat (res_id r)), show_nat (unat (res_re r)), status_string (res_status r),
     bool_string (res_has_body r)]"

fun strings_response :: "string list \<Rightarrow> Response option" where
  "strings_response [i, j, st, b] =
     Some \<lparr>res_id = string_u32 i, res_re = string_u32 j, res_status = string_status st, res_has_body = (b = ''1'')\<rparr>"
| "strings_response _ = None"

fun text_string :: "string option \<Rightarrow> string" where
  "text_string None = []"
| "text_string (Some s) = CHR ''+'' # s"

definition string_text :: "string \<Rightarrow> string option" where
  "string_text s = (case s of [] \<Rightarrow> None | _ # r \<Rightarrow> Some r)"

lemma string_text_inverse [simp]: "string_text (text_string t) = t"
  by (cases t) (simp_all add: string_text_def)

fun error_strings :: "ApiError \<Rightarrow> string list" where
  "error_strings (ApiError p m msg cause) = text_string p # method_string m # text_string msg
     # (case cause of None \<Rightarrow> [] | Some e \<Rightarrow> error_strings e)"

fun strings_error :: "string list \<Rightarrow> ApiError option" where
  "strings_error (p # m # msg # rest) = (if rest = [] then Some (ApiError (string_text p) (string_method m) (string_text msg) None)
     else map_option (\<lambda>e. ApiError (string_text p) (string_method m) (string_text msg) (Some e)) (strings_error rest))"
| "strings_error _ = None"

lemma error_strings_not_Nil: "error_strings e \<noteq> []"
  by (cases e) simp

lemma strings_error_inverse: "strings_error (error_strings e) = Some e"
  by (induction e rule: error_strings.induct) (auto simp: error_strings_not_Nil split: option.splits)

definition credential_strings :: "Credential \<Rightarrow> string list" where
  "credential_strings cr = [cred_data cr, cred_signature cr]"

fun strings_credential :: "string list \<Rightarrow> Credential option" where
  "strings_credential [d, s] = Some \<lparr>cred_data = d, cred_signature = s\<rparr>"
| "strings_credential _ = None"

definition sample_api :: ApiCodec where
  "sample_api = \<lparr>api_encode_request = string_encode request_strings, api_decode_request = string_decode strings_request,
     api_encode_response = string_encode response_strings, api_decode_response = string_decode strings_response,
     api_encode_error = string_encode error_strings, api_decode_error = string_decode strings_error\<rparr>"

lemma sample_api_lawful: "api_lawful sample_api"
  by (auto simp: api_lawful_def sample_api_def request_strings_def response_strings_def bool_string_def
      strings_error_inverse intro!: string_code_lawful)

definition sample_services_codecs :: ServiceCodecs where
  "sample_services_codecs = \<lparr>nc_history = sample_codec, nc_attributes = sample_ac, nc_credentials = sample_cc,
     nc_encode = nc_encode sample_node, nc_decode = nc_decode sample_node, sv_api = sample_api,
     sv_encode_credential = string_encode credential_strings, sv_decode_credential = string_decode strings_credential,
     sv_encode_string = (\<lambda>s. Inr (encode_string s)), sv_decode_info = (\<lambda>b. Inr \<lparr>their_identity_id = b\<rparr>),
     sv_error_text = (\<lambda>e. ''error'')\<rparr>"

text \<open>A message that came through a secure channel with \<open>i\<close>.\<close>

definition message_from :: "IdentityIdentifier \<Rightarrow> LocalMessage" where
  "message_from i = LocalMessage_new \<lparr>version = 1, onward_route = Route [], return_route = Route [], payload = []\<rparr>
     [LocalInfo_new IDENTITY_SECURE_CHANNEL_IDENTIFIER i]"

lemma find_message_from: "find_info (sv_decode_info sample_services_codecs) (message_from i) = Inr \<lparr>their_identity_id = i\<rparr>"
  by (simp add: find_info_def message_from_def LocalMessage_new_def LocalInfo_new_def find_info_from_list_def
      from_local_info_def sample_services_codecs_def)

subsection \<open>Properties\<close>

text \<open>C11: from the attributes of a member to an access decision.  An authority that keeps attributes for a
  member answers its request, made through a secure channel, with a credential.  A worker on another
  node that trusts the authority accepts it, presented through a secure channel by the same member.  From then on the
  access control on that node lets messages of the member through exactly if they are asked for attributes the
  member was granted, with the same values, and the credential has not expired.\<close>

theorem credential_exchange:
  assumes codecs: "credential_codec_lawful (nc_credentials n) (nc_attributes n)" "api_lawful (sv_api n)"
      "cbor_lawful (sv_encode_credential n) (sv_decode_credential n)"
    and authority: "vault_ready c b (fst wa)" "owned (vault_verdict c) (nc_history n) (vault_holds c (fst wa)) authority"
      "stored_history (mem_get (snd wa)) (nc_history n) (identity_identifier authority) = Some (change_history authority)"
      "ci_issuer issuer = identity_identifier authority"
    and member: "mem_get (snd wa) who ATTRIBUTES_KEY = Some d" "ac_decode (nc_attributes n) d = Inr entry"
      "bt_wf (ae_attrs entry)" "\<not> expired now entry" "clk 0 = Some now" "clk 1 = Some issued"
    and channels: "find_info (sv_decode_info n) msg = Inr \<lparr>their_identity_id = who\<rparr>"
      "find_info (sv_decode_info n) msg' = Inr \<lparr>their_identity_id = who\<rparr>"
    and worker: "tc_authority (csw_trust_context worker) = Some a" "as_identifier a = identity_identifier authority"
      "stored_history (mem_get (snd wb)) (nc_history n) (identity_identifier authority) = Some (change_history authority)"
      "clk' 0 = Some t" "clk' 1 = Some t'" "t < add_seconds issued (30 * 24 * 3600)"
  shows "\<exists>req resp credential req' resp' wb'.
    request_to_vec (sv_api n) no_body (credential_request r1) = Inr req
    \<and> issuer_handle_message (world_vault c) in_memory n clk r2 issuer msg req wa = Inr (Inr resp, wa)
    \<and> credential_response n resp = Inr credential
    \<and> request_to_vec (sv_api n) (sv_encode_credential n) (present_request r3 credential) = Inr req'
    \<and> server_handle_message (world_vault c) in_memory n clk' r4 own msg' req' (wb, worker)
        = Inr (Inr (Some resp'), (wb', worker))
    \<and> present_response n resp' = Inr ()
    \<and> (\<forall>required later. \<exists>w. CredentialAccessControl in_memory (nc_attributes n) (sv_decode_info n) required
          (Some later) msg' wb' = Inr (Inr (later < add_seconds issued (30 * 24 * 3600)
             \<and> (\<forall>(k, v) \<in> set required. granted issuer entry k = Some v)), w))"
proof -
  let ?builder = "member_credential issuer who entry"
  note fields = member_credential_fields [OF member(3), of issuer who]
  have expires: "add_seconds issued (word_of_nat (cb_validity ?builder div 10 ^ 9)) = add_seconds issued (30 * 24 * 3600)"
    by (simp add: fields(4) MAX_CREDENTIAL_VALIDITY_def)
  have builder: "cb_issuer ?builder = identity_identifier authority" using fields(3) authority(4) by simp
  obtain cd credential where cred: "builder_build (Some issued) ?builder = Inr cd"
      "issue_credential (world_vault c) (nc_history n) in_memory (nc_credentials n) (identity_identifier authority) cd wa
         = Inr (Inr credential, wa)"
      "\<exists>u'. receive_presented_credential (world_vault c) in_memory (nc_attributes n) (nc_credentials n) (Some t) (Some t')
          who [authority] credential wb = Inr (Inr (), u')
        \<and> (\<forall>later. \<exists>u''. get_entry in_memory (nc_attributes n) (Some later) who u' = Inr (Inr
             (if later < add_seconds issued (30 * 24 * 3600)
              then Some \<lparr>ae_attrs = cb_attrs ?builder, ae_added = t', ae_expires = Some (add_seconds issued (30 * 24 * 3600)),
                ae_attested_by = Some (identity_identifier authority)\<rparr> else None), u''))"
    using issued_is_accepted [OF codecs(1) authority(1-3) builder, where now = t and t = issued and now' = t' and u = wb, unfolded expires fields(2), OF worker(6)] .
  then obtain wb' where wb': "receive_presented_credential (world_vault c) in_memory (nc_attributes n) (nc_credentials n)
        (clk' 0) (clk' 1) who [authority] credential wb = Inr (Inr (), wb')"
      "\<forall>later. \<exists>u''. get_entry in_memory (nc_attributes n) (Some later) who wb' = Inr (Inr
         (if later < add_seconds issued (30 * 24 * 3600)
          then Some \<lparr>ae_attrs = cb_attrs ?builder, ae_added = t', ae_expires = Some (add_seconds issued (30 * 24 * 3600)),
            ae_attested_by = Some (identity_identifier authority)\<rparr> else None), u'')"
    unfolding worker(4,5) by blast
  have "get_entry in_memory (nc_attributes n) (Some now) who wa = Inr (Inr (Some entry), wa)"
    by (rule ms.get_entry_value [OF member(1,2,4)])
  then have issue: "issuer_issue_credential (world_vault c) in_memory n clk issuer who wa = Inr (Inr (Some credential), wa)"
    using cred(1,2) member(5,6) authority(4) by (simp add: issuer_issue_credential_def run_simps run_ok_def)
  have trust: "trust_authorities in_memory (nc_history n) (csw_trust_context worker) wb = Inr (Inr [authority], wb)"
    using worker(1,2) ms.get_stored [OF worker(3)]
    by (simp add: trust_authorities_def trust_authority_def authority_identity_def ok_or_def run_simps run_ok_def Identity_new_def)
  have access: "\<exists>w. CredentialAccessControl in_memory (nc_attributes n) (sv_decode_info n) required (Some later) msg' wb'
      = Inr (Inr (later < add_seconds issued (30 * 24 * 3600) \<and> (\<forall>(k, v) \<in> set required. granted issuer entry k = Some v)), w)"
    for required later
  proof -
    let ?e = "\<lparr>ae_attrs = cb_attrs ?builder, ae_added = t', ae_expires = Some (add_seconds issued (30 * 24 * 3600)),
      ae_attested_by = Some (identity_identifier authority)\<rparr>"
    obtain u where "get_entry in_memory (nc_attributes n) (Some later) who wb'
        = Inr (Inr (if later < add_seconds issued (30 * 24 * 3600) then Some ?e else None), u)"
      using wb'(2) by blast
    then have "get_entry in_memory (nc_attributes n) (Some later) (their_identity_id \<lparr>their_identity_id = who\<rparr>) wb'
        = Inr (Inr (if later < add_seconds issued (30 * 24 * 3600) then Some ?e else None), u)"
      by (simp only: IdentitySecureChannelLocalInfo.select_convs)
    from access_after_reading [OF channels(2) this, of required] show ?thesis
      unfolding AttributesEntry.select_convs fields(1) by blast
  qed
  obtain req resp where "request_to_vec (sv_api n) no_body (credential_request r1) = Inr req"
      "issuer_handle_message (world_vault c) in_memory n clk r2 issuer msg req wa = Inr (Inr resp, wa)"
      "credential_response n resp = Inr credential"
    using issuer_serves [OF codecs(2,3) channels(1) issue] .
  moreover obtain req' resp' where
      "request_to_vec (sv_api n) (sv_encode_credential n) (present_request r3 credential) = Inr req'"
      "server_handle_message (world_vault c) in_memory n clk' r4 own msg' req' (wb, worker)
         = Inr (Inr (Some resp'), (wb', worker))" "present_response n resp' = Inr ()"
    using worker_stores [OF codecs(2,3) channels(2) trust wb'(1)] .
  ultimately show ?thesis using access by blast
qed

theorem credential_exchange_witness:
  "\<exists>wa wb issuer worker req resp credential req' resp' wb' u u'.
    issuer_handle_message (world_vault sample_crypto) in_memory sample_services_codecs (\<lambda>_. Some 100) 1 issuer
      (message_from ''Palice'') req wa = Inr (Inr resp, wa)
    \<and> credential_response sample_services_codecs resp = Inr credential
    \<and> server_handle_message (world_vault sample_crypto) in_memory sample_services_codecs (\<lambda>_. Some 200) 1 None
        (message_from ''Palice'') req' (wb, worker) = Inr (Inr (Some resp'), (wb', worker))
    \<and> CredentialAccessControl in_memory sample_ac (sv_decode_info sample_services_codecs) [(''role'', ''admin'')] (Some 300)
        (message_from ''Palice'') wb' = Inr (Inr True, u)
    \<and> CredentialAccessControl in_memory sample_ac (sv_decode_info sample_services_codecs) [(''role'', ''guest'')] (Some 300)
        (message_from ''Palice'') wb' = Inr (Inr False, u')"
proof -
  let ?n = sample_services_codecs
  let ?entry = "\<lparr>ae_attrs = [(''role'', ''admin'')], ae_added = 1, ae_expires = None, ae_attested_by = None\<rparr>"
  have n: "nc_history ?n = sample_codec" "nc_attributes ?n = sample_ac" "nc_credentials ?n = sample_cc"
    by (simp_all add: sample_services_codecs_def)
  have codecs: "credential_codec_lawful (nc_credentials ?n) (nc_attributes ?n)" "api_lawful (sv_api ?n)"
      "cbor_lawful (sv_encode_credential ?n) (sv_decode_credential ?n)"
    using sample_credential_codec sample_api_lawful
    by (auto simp: sample_services_codecs_def credential_strings_def intro!: string_code_lawful)
  obtain d where d: "ac_decode (nc_attributes ?n) d = Inr ?entry"
    using codecs(1) unfolding credential_codec_lawful_def by blast
  obtain authority w where a: "owned (vault_verdict sample_crypto) sample_codec (vault_holds sample_crypto (fst w)) authority"
      "vault_ready sample_crypto 0 (fst w)"
      "stored_history (mem_get (snd w)) sample_codec (identity_identifier authority) = Some (change_history authority)"
    by (rule new_identity [OF sample_codec_lawful sample_vault_ready [of "Suc 0"]]) (simp, rule that)
  define wa where "wa = (fst w, mem_set ''Palice'' ATTRIBUTES_KEY d (snd w))"
  define issuer where "issuer = \<lparr>ci_issuer = identity_identifier authority, ci_trust_context = ''ctx''\<rparr>"
  define service :: AuthorityService where "service = \<lparr>as_identifier = identity_identifier authority, as_cache = None\<rparr>"
  define worker where "worker = \<lparr>csw_trust_context = \<lparr>tc_id = ''ctx'', tc_authority = Some service\<rparr>,
    csw_identifier = ''Pbob'', csw_present_back = False\<rparr>"
  have keys: "ATTRIBUTES_KEY \<noteq> CHANGE_HISTORY_KEY" by (simp add: ATTRIBUTES_KEY_def CHANGE_HISTORY_KEY_def)
  have wa: "fst wa = fst w" "mem_get (snd wa) ''Palice'' ATTRIBUTES_KEY = Some d"
      "mem_get (snd wa) i CHANGE_HISTORY_KEY = mem_get (snd w) i CHANGE_HISTORY_KEY" for i
    using keys by (simp_all add: wa_def mem_get_set)
  have "\<exists>req resp credential req' resp' wb'.
    request_to_vec (sv_api ?n) no_body (credential_request 7) = Inr req
    \<and> issuer_handle_message (world_vault sample_crypto) in_memory ?n (\<lambda>_. Some 100) 1 issuer (message_from ''Palice'') req wa
        = Inr (Inr resp, wa)
    \<and> credential_response ?n resp = Inr credential
    \<and> request_to_vec (sv_api ?n) (sv_encode_credential ?n) (present_request 7 credential) = Inr req'
    \<and> server_handle_message (world_vault sample_crypto) in_memory ?n (\<lambda>_. Some 200) 1 None (message_from ''Palice'') req' (w, worker)
        = Inr (Inr (Some resp'), (wb', worker))
    \<and> present_response ?n resp' = Inr ()
    \<and> (\<forall>required later. \<exists>u. CredentialAccessControl in_memory (nc_attributes ?n) (sv_decode_info ?n) required
          (Some later) (message_from ''Palice'') wb' = Inr (Inr (later < add_seconds 100 (30 * 24 * 3600)
             \<and> (\<forall>(k, v) \<in> set required. granted issuer ?entry k = Some v)), u))"
    by (rule credential_exchange [OF codecs, where d = d and authority = authority and b = 0 and now = 100 and t = 200 and t' = 200
        and a = service])
       (use a d in \<open>simp_all add: n wa find_message_from issuer_def worker_def service_def stored_history_def
          bt_wf_def expired_def add_seconds_def\<close>)
  moreover have "granted issuer ?entry ''role'' = Some ''admin''"
    by (simp add: granted_def TRUST_CONTEXT_ID_def LEGACY_ID_def bt_get_def)
  moreover have "(300 :: u64) < add_seconds 100 (30 * 24 * 3600)" by (simp add: add_seconds_def)
  ultimately obtain req resp credential req' resp' wb' where
      "issuer_handle_message (world_vault sample_crypto) in_memory ?n (\<lambda>_. Some 100) 1 issuer (message_from ''Palice'') req wa
        = Inr (Inr resp, wa)" "credential_response ?n resp = Inr credential"
      "server_handle_message (world_vault sample_crypto) in_memory ?n (\<lambda>_. Some 200) 1 None (message_from ''Palice'') req' (w, worker)
        = Inr (Inr (Some resp'), (wb', worker))"
      and access: "\<forall>required later. \<exists>u. CredentialAccessControl in_memory sample_ac (sv_decode_info ?n) required
          (Some later) (message_from ''Palice'') wb' = Inr (Inr (later < add_seconds 100 (30 * 24 * 3600)
             \<and> (\<forall>(k, v) \<in> set required. granted issuer ?entry k = Some v)), u)"
      and g: "granted issuer ?entry ''role'' = Some ''admin''" "(300 :: u64) < add_seconds 100 (30 * 24 * 3600)"
    unfolding n by blast
  moreover have "\<exists>u. CredentialAccessControl in_memory sample_ac (sv_decode_info ?n) [(''role'', ''admin'')]
      (Some 300) (message_from ''Palice'') wb' = Inr (Inr True, u)"
    using g spec [OF spec [OF access, of "[(''role'', ''admin'')]"], of 300] by (simp del: split_paired_Ex)
  moreover have "\<exists>u. CredentialAccessControl in_memory sample_ac (sv_decode_info ?n) [(''role'', ''guest'')]
      (Some 300) (message_from ''Palice'') wb' = Inr (Inr False, u)"
    using g spec [OF spec [OF access, of "[(''role'', ''guest'')]"], of 300] by (simp del: split_paired_Ex)
  ultimately show ?thesis by blast
qed

end
