(* ===== verification/Spec2Isabelle.thy ===== *)
theory Spec2Isabelle
  imports Node_Shutdown Abac_Parser Abac_Policy Handshake_Safety Multiaddr_Laws Credential_Services
begin

text \<open>
  A verification library for the Rust implementation of Ockam (\<open>src/implementations/rust/ockam\<close>).

  \<^bold>\<open>The program.\<close>  A node runs workers that exchange messages along routes of addresses.  The
  router of a node (\<open>ockam_node/src/router\<close>) keeps the tables of running workers and answers
  start, stop, lookup and shutdown requests.  Every message passes the access controls of the
  mailboxes it leaves and enters (\<open>ockam_core/src/access_control\<close>), among them the flow controls
  (\<open>ockam_core/src/flow_control\<close>) and the attribute policies (\<open>ockam_abac\<close>).  A secure channel
  (\<open>ockam_identity/src/secure_channel\<close>) is a pair of workers that agree on keys with a Noise XX
  handshake, encrypt messages with keys kept in a vault (\<open>ockam_vault\<close>), and mark
  what they decrypt with the identity of the peer, which the policies then judge.  An identity
  (\<open>ockam_identity/src/identity\<close>, \<open>identities\<close>) is a chain of signed key changes, named by a hash of its
  first key.  An authority issues credentials (\<open>credential\<close>, \<open>credentials\<close>): signed attributes of another
  identity, which a node that trusts the authority stores and decides by.

  \<^bold>\<open>Theories.\<close>
  \<^item> \<open>Ockam_Prelude\<close>, \<open>BTree\<close>, \<open>State_Exec\<close>: results, strings and machine integers; \<open>BTreeMap\<close> and
    \<open>BTreeSet\<close> as sorted lists with the contract \<open>ordered_map\<close>; stateful code that can fail and
    panic, with the contract \<open>state_invariant\<close>.
  \<^item> \<open>Error_Code\<close>, \<open>Address\<close>, \<open>Route\<close>, \<open>Access_Control\<close>, \<open>Flow_Control\<close>: the core crate
    (\<open>ockam_core/src/error\<close>, \<open>routing\<close>, \<open>access_control\<close>, \<open>flow_control\<close>).  Shown: codes, addresses
    and routes survive printing and parsing, combined access controls decide as the boolean
    combination of their parts, and flow controls keep their tables consistent and deny a
    cleaned address.
  \<^item> \<open>Abac_Expr\<close>, \<open>Abac_Eval\<close>, \<open>Abac_Parser\<close>, \<open>Abac_Policy\<close>: policies (\<open>ockam_abac/src\<close>).  Shown: the
    evaluation machine computes the recursive meaning of an expression, the parser reads back every
    printed expression, the nested policy tables are a map, and what a policy lets through.
  \<^item> \<open>Node_Record\<close>, \<open>Node_Router\<close>, \<open>Node_Shutdown\<close>: the router.  Shown: the tables stay consistent
    under every message, the life cycle of a worker, and that a graceful shutdown ends once all
    workers have acknowledged.
  \<^item> \<open>Vault\<close>, \<open>Identities_Vault\<close>: the vault and the trait objects the channels use it through.  The
    algorithms of third-party crates are the fields of the record \<open>Crypto\<close>; the locales
    \<open>symmetric_vault\<close> and \<open>agreement_vault\<close> are the contracts, interpreted on the vault.
  \<^item> \<open>Identity_Error\<close>, \<open>Local_Info\<close>, \<open>Channel_Trackers\<close>, \<open>Secure_Channel\<close>: an established channel.
    Shown: the replay window, the key intervals on 64-bit words, end-to-end delivery under
    reordering, loss and repetition, and that only genuine packets are accepted, each once.
  \<^item> \<open>Handshake\<close>, \<open>Handshake_Machine\<close>, \<open>Handshake_Safety\<close>: the handshake
    (\<open>ockam_identity/src/secure_channel/handshake\<close>).  The code works on identifiers of keys in a
    vault; it is related to the Noise key schedule on the keys themselves (\<open>hs_rel\<close>).  Shown: the two
    state machines reach the same keys and know each other, and, for any vault and any events, a
    machine with keys has authenticated its peer.
  \<^item> \<open>Identity_History\<close>, \<open>Identity_Keys\<close>, \<open>Identity_Owner\<close>, \<open>Identity_Repository\<close>, \<open>Identity_World\<close>,
    \<open>Identity_Laws\<close>: change histories, the keys behind them, and the repository over a storage.  The locales
    \<open>signature_verifier\<close>, \<open>signing_vault\<close>, \<open>storage_laws\<close> and \<open>identity_world\<close> are the contracts,
    interpreted on the vault and the storage in memory.  Shown: decoding accepts exactly the valid
    histories, owners keep control of their identities under any creations and rotations of keys, and
    stored histories only grow.  \<open>Sample_Codec\<close> holds an encoding for concrete runs.
  \<^item> \<open>Credentials\<close>: issuing, verifying and storing credentials.  Shown: what is stored was vouched for by an
    authority, and what an authority issues is accepted until it expires.
  \<^item> \<open>Identity_Services\<close>: trust policies and trust contexts, and the identities of a node as the
    services of the handshake.  Shown: the peer a machine reports has a valid history that signed the
    static key of the exchange.
  \<^item> \<open>Api_Messages\<close>, \<open>Credential_Services\<close>: requests and responses (\<open>ockam_core/src/api.rs\<close>), the workers that
    issue and receive credentials, and the access controls for identities.  Shown: from the attributes
    an authority keeps for a member to the decisions of another node.

  The root theory follows a handshake and the channel it sets up: with any services that vouch for
  the payloads, and with the identities of two nodes.

  \<^item> \<open>Net_Addr\<close>, \<open>Multiaddr\<close>, \<open>Multiaddr_Laws\<close>: multi-addresses (\<open>ockam_multiaddr/src\<close>) over the internet
    addresses of the standard library.  Shown: the operations are those of the list of components,
    text and bytes are read back, parsing ends on every input, and where pushing at the
    front goes wrong.

  \<^bold>\<open>Reading the model.\<close>  \<open>Result<T, E>\<close> is \<^typ>\<open>'e + 'a\<close> with the error on the left, a panic is a value of
  type \<^typ>\<open>panic\<close>, bytes and strings are lists of \<^typ>\<open>char\<close>, unsigned integers are words of their
  width.  A method with \<open>&mut self\<close> returns the new state; what it changed before an error stays
  changed.  Names are those of the source, with a prefix where HOL has the name already.

  \<^bold>\<open>Fuel and bounds.\<close>  The policy evaluator may not terminate and is a \<open>partial_function\<close>; a
  divergent policy is exhibited.  So are the loops over multi-addresses, which are shown to end.  All
  other loops end by structural recursion or a measure.  The vault
  laws carry a budget, the number of key identifiers still to be drawn: eight random bytes can
  only be distinct for finitely many draws.

  \<^bold>\<open>Not modelled.\<close>  Input and output (sockets, files, the command line), the tokio runtime and the
  real interleaving of tasks, code generated by macros and by serde and minicbor (encodings are
  parameters with the round-trip law), logging, and the crates above the node
  (\<open>ockam_api\<close>, \<open>ockam_command\<close>, the applications).
\<close>

section \<open>Properties across components\<close>

text \<open>The network carries the three messages of the handshake between the two state machines.\<close>

definition key_exchange ::
  "(bytes \<Rightarrow> bytes) \<Rightarrow> ('v, 'x) XXVault_scheme \<Rightarrow> ('v, 'i, 'cr) IdentityServices \<Rightarrow> ('v, 'j, 'cs) IdentityServices
   \<Rightarrow> 'v \<times> StateMachine \<Rightarrow> 'v \<times> StateMachine \<Rightarrow> (('v \<times> StateMachine) \<times> ('v \<times> StateMachine)) option" where
  "key_exchange sha vault svca svcb wa wb =
     (case (initiator_on_event sha vault svca Initialize wa, responder_on_event sha vault svcb Initialize wb) of
        (Inr (Inr (SendMessage m1), wa), Inr (Inr NoAction, wb)) \<Rightarrow>
          (case responder_on_event sha vault svcb (ReceivedMessage m1) wb of
             Inr (Inr (SendMessage m2), wb) \<Rightarrow>
               (case initiator_on_event sha vault svca (ReceivedMessage m2) wa of
                  Inr (Inr (SendMessage m3), wa) \<Rightarrow>
                    (case responder_on_event sha vault svcb (ReceivedMessage m3) wb of
                       Inr (Inr NoAction, wb) \<Rightarrow> Some (wa, wb)
                     | _ \<Rightarrow> None)
                | _ \<Rightarrow> None)
           | _ \<Rightarrow> None)
      | _ \<Rightarrow> None)"

text \<open>What the decryptor answers to packets \<open>order\<close> of the messages \<open>ms\<close>.\<close>

definition answers :: "bytes list \<Rightarrow> nat list \<Rightarrow> (error + bytes) list" where
  "answers ms order = map2 (\<lambda>i new. if new then Inr (ms ! i) else Inl (identity_error InvalidNonce))
     order (window_run [] order)"

text \<open>The messages \<open>ms\<close>, encrypted in vault \<open>v\<close> with key \<open>k\<close>, arrive in the given order in a vault \<open>v'\<close> with key \<open>k'\<close>.\<close>

definition delivers :: "Crypto \<Rightarrow> bytes list \<Rightarrow> nat list \<Rightarrow> Vault \<Rightarrow> KeyId \<Rightarrow> Vault \<Rightarrow> KeyId \<Rightarrow> bool" where
  "delivers c ms order v k v' k' \<longleftrightarrow> (\<exists>packets sender receiver.
     run_map (Encryptor_encrypt (to_xx_initialized c)) ms (v, Encryptor_new k 0) = Inr (Inr packets, sender)
     \<and> run_map (\<lambda>p. run_try (Decryptor_decrypt (to_xx_initialized c) p)) (map (\<lambda>i. packets ! i) order)
         (v', Decryptor_new k') = Inr (Inr (answers ms order), receiver))"

lemma session_delivers:
  assumes "vault_good c b v" "vault_good c b v'" "session_key look_up key v k" "session_key look_up key v' k'"
    and "length ms \<le> b" "length order \<le> b" "b < 2 ^ 64" "\<forall>m \<in> set ms. length m \<le> max_plaintext"
    and "\<forall>i \<in> set order. i < length ms"
  shows "delivers c ms order v k v' k'"
proof -
  have few: "length ms < 2 ^ 64" using assms(5,7) by simp
  from cv.delivery [OF cv.good_mono [OF assms(1,5)] cv.good_mono [OF assms(2,6)] _ _ _ few assms(8,9), of k key k']
  show ?thesis using assms(3,4) unfolding session_key_def delivers_def answers_def by blast
qed

lemma exchange_completes:
  assumes "initiator_on_event sha vault svca Initialize (va, sma) = Inr (Inr (SendMessage m1), (va1, a1))"
    "responder_on_event sha vault svcb Initialize (vb, smb) = Inr (Inr NoAction, (vb1, b1))"
    "responder_on_event sha vault svcb (ReceivedMessage m1) (vb1, b1) = Inr (Inr (SendMessage m2), (vb2, b2))"
    "initiator_on_event sha vault svca (ReceivedMessage m2) (va1, a1) = Inr (Inr (SendMessage m3), (va2, a2))"
    "responder_on_event sha vault svcb (ReceivedMessage m3) (vb2, b2) = Inr (Inr NoAction, (vb3, b3))"
  shows "key_exchange sha vault svca svcb (va, sma) (vb, smb) = Some ((va2, a2), (vb3, b3))"
  using assms by (simp add: key_exchange_def)

text \<open>C3: a handshake followed by the channel, with any services that vouch for the payloads.  Both
  sides finish the key exchange, each with the identity the other presented, and the keys they hold
  then carry messages in both directions: whatever one encrypts, the other answers with exactly that
  message for every packet that is new and inside the window, in any order of arrival.\<close>

theorem session_delivery:
  assumes "vault_good c (b + 13) va" "new_machine look_up va sma ssa esa pa"
    and "vouches (vault_good c) look_up svca pb (x25519_public_key c ssb) idb"
    and "vault_good c (b + 13) vb" "new_machine look_up vb smb ssb esb pb"
    and "vouches (vault_good c) look_up svcb pa (x25519_public_key c ssa) ida"
    and "length ms \<le> b" "length order \<le> b" "b < 2 ^ 64" "\<forall>m \<in> set ms. length m \<le> max_plaintext"
    and "\<forall>i \<in> set order. i < length ms"
  shows "\<exists>wa sma' wb smb' ka kb.
    key_exchange (sha256_digest c) (to_xx_vault c) svca svcb (va, sma) (vb, smb) = Some ((wa, sma'), (wb, smb'))
    \<and> get_handshake_results sma' = Some \<lparr>handshake_keys = ka, their_identifier = idb\<rparr>
    \<and> get_handshake_results smb' = Some \<lparr>handshake_keys = kb, their_identifier = ida\<rparr>
    \<and> delivers c ms order wa (encryption_key ka) wb (decryption_key kb)
    \<and> delivers c ms order wb (encryption_key kb) wa (decryption_key ka)"
proof (rule av.exchange [OF assms(1-6), of "sha256_digest c"])
  fix m1 m2 m3 va1 a1 va2 a2 vb1 b1 vb2 b2 vb3 b3 ka kb k1 k2
  assume run: "initiator_on_event (sha256_digest c) (to_xx_vault c) svca Initialize (va, sma)
        = Inr (Inr (SendMessage m1), (va1, a1))"
      "responder_on_event (sha256_digest c) (to_xx_vault c) svcb Initialize (vb, smb) = Inr (Inr NoAction, (vb1, b1))"
      "responder_on_event (sha256_digest c) (to_xx_vault c) svcb (ReceivedMessage m1) (vb1, b1)
        = Inr (Inr (SendMessage m2), (vb2, b2))"
      "initiator_on_event (sha256_digest c) (to_xx_vault c) svca (ReceivedMessage m2) (va1, a1)
        = Inr (Inr (SendMessage m3), (va2, a2))"
      "responder_on_event (sha256_digest c) (to_xx_vault c) svcb (ReceivedMessage m3) (vb2, b2)
        = Inr (Inr NoAction, (vb3, b3))"
    and results: "get_handshake_results a2 = Some \<lparr>handshake_keys = ka, their_identifier = idb\<rparr>"
      "get_handshake_results b3 = Some \<lparr>handshake_keys = kb, their_identifier = ida\<rparr>"
    and good: "vault_good c b va2" "vault_good c b vb3"
    and keys: "session_key look_up k1 va2 (encryption_key ka)" "session_key look_up k1 vb3 (decryption_key kb)"
      "session_key look_up k2 va2 (decryption_key ka)" "session_key look_up k2 vb3 (encryption_key kb)"
  from exchange_completes [OF run] results session_delivers [OF good keys(1,2) assms(7-11)]
    session_delivers [OF good(2,1) keys(4,3) assms(7-11)]
  show ?thesis by blast
qed

theorem session_delivery_witness:
  "\<exists>wa sma' wb smb' ka kb packets sender receiver.
    key_exchange (sha256_digest sample_crypto) (to_xx_vault sample_crypto) sample_services sample_services
      (sample_party (CHR ''1'') (CHR ''2''), sample_machine (CHR ''A'' # sample_secret (CHR ''1'')))
      (sample_party (CHR ''3'') (CHR ''4''), sample_machine (CHR ''B'' # sample_secret (CHR ''3'')))
      = Some ((wa, sma'), (wb, smb'))
    \<and> get_handshake_results sma' = Some \<lparr>handshake_keys = ka, their_identifier = ''B''\<rparr>
    \<and> get_handshake_results smb' = Some \<lparr>handshake_keys = kb, their_identifier = ''A''\<rparr>
    \<and> run_map (Encryptor_encrypt (to_xx_initialized sample_crypto)) [''ping'', ''pong'']
        (wa, Encryptor_new (encryption_key ka) 0) = Inr (Inr packets, sender)
    \<and> run_map (\<lambda>p. run_try (Decryptor_decrypt (to_xx_initialized sample_crypto) p)) (map (\<lambda>i. packets ! i) [1, 0, 1])
        (wb, Decryptor_new (decryption_key kb))
        = Inr (Inr [Inr ''pong'', Inr ''ping'', Inl (identity_error InvalidNonce)], receiver)"
proof -
  let ?ms = "[''ping'', ''pong'']" and ?order = "[1, 0, 1] :: nat list"
  have expected: "answers ?ms ?order = [Inr ''pong'', Inr ''ping'', Inl (identity_error InvalidNonce)]"
    by (simp add: answers_def window_accepts_def)
  have "length ?ms \<le> 3" "length ?order \<le> 3" "(3 :: nat) < 2 ^ 64" "\<forall>m \<in> set ?ms. length m \<le> max_plaintext"
      "\<forall>i \<in> set ?order. i < length ?ms"
    by (simp_all add: max_plaintext_def)
  from session_delivery [OF sample_hypotheses this] show ?thesis unfolding delivers_def expected by blast
qed

text \<open>C1: two owners of identities that trust each other open a channel.  Each makes its state machine
  with its vault and its repository, the three messages of the handshake are exchanged without an
  error, each side ends with the identifier of the other's identity, and the session keys carry
  messages in both directions.  (Each knows nothing about the other's identity, or a part of its
  history; the payloads fit into a message; keys drawn at random do not collide.)\<close>

theorem identity_session:
  assumes "codec_lawful (nc_history n)" "presentable n ida" "presentable n idb"
    and "channel_party c (nc_history n) (b + 13) ida wa" "channel_party c (nc_history n) (b + 13) idb wb"
    and "accepts_identity (nc_history n) idb (snd wa)" "accepts_identity (nc_history n) ida (snd wb)"
    and "\<forall>u. cs_trust_policy sa (identity_identifier idb) u = Inr (Inr True, u)"
      "\<forall>u. cs_trust_policy sb (identity_identifier ida) u = Inr (Inr True, u)"
    and "identity_identifier ida \<noteq> identity_identifier idb"
    and "length ms \<le> b" "length order \<le> b" "b < 2 ^ 64" "\<forall>m \<in> set ms. length m \<le> max_plaintext"
    and "\<forall>i \<in> set order. i < length ms"
  shows "\<exists>sma wa1 smb wb1 wa2 sma' wb2 smb' ka kb.
    StateMachine_new (world_vault c) (node_services c n sa) (identity_identifier ida) [] wa = Inr (Inr sma, wa1)
    \<and> StateMachine_new (world_vault c) (node_services c n sb) (identity_identifier idb) [] wb = Inr (Inr smb, wb1)
    \<and> key_exchange (sha256_digest c) (world_vault c) (node_services c n sa) (node_services c n sb)
        (wa1, sma) (wb1, smb) = Some ((wa2, sma'), (wb2, smb'))
    \<and> get_handshake_results sma' = Some \<lparr>handshake_keys = ka, their_identifier = identity_identifier idb\<rparr>
    \<and> get_handshake_results smb' = Some \<lparr>handshake_keys = kb, their_identifier = identity_identifier ida\<rparr>
    \<and> delivers c ms order (fst wa2) (encryption_key ka) (fst wb2) (decryption_key kb)
    \<and> delivers c ms order (fst wb2) (encryption_key kb) (fst wa2) (decryption_key ka)"
proof (rule parties_meet [OF assms(1-10)])
  fix sma wa1 smb wb1 pa pb ssa esa ssb esb P
  assume new: "StateMachine_new (world_vault c) (node_services c n sa) (identity_identifier ida) [] wa = Inr (Inr sma, wa1)"
      "StateMachine_new (world_vault c) (node_services c n sb) (identity_identifier idb) [] wb = Inr (Inr smb, wb1)"
    and hyps: "world_good c P (b + 13) wa1" "new_machine world_look wa1 sma ssa esa pa"
      "vouches (world_good c P) world_look (node_services c n sa) pb (x25519_public_key c ssb) (identity_identifier idb)"
      "world_good c P (b + 13) wb1" "new_machine world_look wb1 smb ssb esb pb"
      "vouches (world_good c P) world_look (node_services c n sb) pa (x25519_public_key c ssa) (identity_identifier ida)"
  obtain wa2 a2 wb2 b2 ka kb k1 k2 where x: "key_exchange (sha256_digest c) (world_vault c) (node_services c n sa)
        (node_services c n sb) (wa1, sma) (wb1, smb) = Some ((wa2, a2), (wb2, b2))"
      "get_handshake_results a2 = Some \<lparr>handshake_keys = ka, their_identifier = identity_identifier idb\<rparr>"
      "get_handshake_results b2 = Some \<lparr>handshake_keys = kb, their_identifier = identity_identifier ida\<rparr>"
      "world_good c P b wa2" "world_good c P b wb2"
      "session_key world_look k1 wa2 (encryption_key ka)" "session_key world_look k1 wb2 (decryption_key kb)"
      "session_key world_look k2 wa2 (decryption_key ka)" "session_key world_look k2 wb2 (encryption_key kb)"
    by (rule xv.exchange [OF hyps, of "sha256_digest c"]) (rule that [OF exchange_completes])
  have good: "vault_good c b (fst wa2)" "vault_good c b (fst wb2)" using x(4,5) by (simp_all add: world_good_def)
  have keys: "session_key look_up k1 (fst wa2) (encryption_key ka)" "session_key look_up k1 (fst wb2) (decryption_key kb)"
      "session_key look_up k2 (fst wa2) (decryption_key ka)" "session_key look_up k2 (fst wb2) (encryption_key kb)"
    using x(6-9) by (simp_all add: session_key_def)
  from new x(1-3) session_delivers [OF good keys(1,2) assms(11-15)] session_delivers [OF good(2,1) keys(4,3) assms(11-15)]
  show ?thesis by blast
qed

theorem identity_session_witness:
  "\<exists>ida idb wa wb sma wa1 smb wb1 wa2 sma' wb2 smb' ka.
    create_identity (world_vault sample_crypto) sample_codec in_memory (sample_node_vault 65, []) = Inr (Inr ida, wa)
    \<and> create_identity (world_vault sample_crypto) sample_codec in_memory (sample_node_vault 97, []) = Inr (Inr idb, wb)
    \<and> key_exchange (sha256_digest sample_crypto) (world_vault sample_crypto)
        (node_services sample_crypto sample_node (sample_setup [CHR ''P'' # replicate 64 (CHR ''a'')]))
        (node_services sample_crypto sample_node (sample_setup [CHR ''P'' # replicate 64 (CHR ''A'')]))
        (wa1, sma) (wb1, smb) = Some ((wa2, sma'), (wb2, smb'))
    \<and> get_handshake_results sma' = Some \<lparr>handshake_keys = ka, their_identifier = CHR ''P'' # replicate 64 (CHR ''a'')\<rparr>"
proof (rule sample_nodes_meet)
  fix ida idb wa wb
  let ?sa = "sample_setup [CHR ''P'' # replicate 64 (CHR ''a'')]" and ?sb = "sample_setup [CHR ''P'' # replicate 64 (CHR ''A'')]"
  assume new: "create_identity (world_vault sample_crypto) sample_codec in_memory (sample_node_vault 65, []) = Inr (Inr ida, wa)"
    "create_identity (world_vault sample_crypto) sample_codec in_memory (sample_node_vault 97, []) = Inr (Inr idb, wb)"
    and m: "presentable sample_node ida" "presentable sample_node idb"
    "channel_party sample_crypto sample_codec 16 ida wa" "channel_party sample_crypto sample_codec 16 idb wb"
    "accepts_identity sample_codec idb (snd wa)" "accepts_identity sample_codec ida (snd wb)"
    "\<forall>u. cs_trust_policy ?sa (identity_identifier idb) u = Inr (Inr True, u)"
    "\<forall>u. cs_trust_policy ?sb (identity_identifier ida) u = Inr (Inr True, u)"
    and i: "identity_identifier ida = CHR ''P'' # replicate 64 (CHR ''A'')" "identity_identifier idb = CHR ''P'' # replicate 64 (CHR ''a'')"
  have n: "nc_history sample_node = sample_codec" by (simp add: sample_node_def)
  have party: "channel_party sample_crypto sample_codec (3 + 13) ida wa" "channel_party sample_crypto sample_codec (3 + 13) idb wb"
    using m(3,4) by simp_all
  have ne: "identity_identifier ida \<noteq> identity_identifier idb" using i by simp
  have "length [''ping''] \<le> 3" "length [0 :: nat] \<le> 3" "(3 :: nat) < 2 ^ 64"
      "\<forall>m \<in> set [''ping'']. length m \<le> max_plaintext" "\<forall>i \<in> set [0 :: nat]. i < length [''ping'']"
    by (simp_all add: max_plaintext_def)
  from identity_session [of sample_node, unfolded n, OF sample_codec_lawful m(1,2) party m(5-8) ne this]
  show ?thesis using new unfolding i by blast
qed

end
